(* ===== verification/Prelude.thy ===== *)
theory Prelude
  imports Main "HOL-Library.Word"
begin

text \<open>
  Shared vocabulary of the development.  Go strings and byte slices that carry text are
  \<^typ>\<open>string\<close> (a Go string is a sequence of bytes and a HOL \<^typ>\<open>char\<close> is one byte);
  binary data is a list of \<open>8 word\<close>.  A Go function that returns \<open>(T, error)\<close> is a
  function into a sum: \<open>Inl\<close> carries the error, \<open>Inr\<close> the value.  The theory also holds
  the collections the component proofs draw on and the list facts they share.
\<close>

unbundle bit_operations_syntax

type_synonym byte = "8 word"
type_synonym bytes = "8 word list"

named_theorems go_eval \<open>equations that evaluate the library functions on literals\<close>
named_theorems admission_simps \<open>unfolding rules of the admission component\<close>
named_theorems feed_simps \<open>unfolding rules of the candidate feed\<close>

text \<open>The first element that satisfies a predicate decides a first-match scan.\<close>

lemma find_append:
  "find P (xs @ ys) = (case find P xs of None \<Rightarrow> find P ys | Some x \<Rightarrow> Some x)"
  by (induction xs) auto

lemma find_SomeD: "find P xs = Some x \<Longrightarrow> x \<in> set xs \<and> P x"
  by (induction xs) (auto split: if_splits)

lemma find_None_filter: "find P xs = None \<longleftrightarrow> filter P xs = []"
  by (induction xs) auto

lemma take_eq_prefixD: "take (length p) s = p \<Longrightarrow> \<exists>r. s = p @ r"
  by (metis append_take_drop_id)

lemma prefix_take_iff [simp]: "take (length p) (p @ s) = p"
  by simp

lemma takeWhile_neq_append:
  assumes "c \<notin> set xs"
  shows "takeWhile (\<lambda>x. x \<noteq> c) (xs @ c # ys) = xs"
    and "dropWhile (\<lambda>x. x \<noteq> c) (xs @ c # ys) = c # ys"
  using assms by (auto simp: takeWhile_append dropWhile_append)

lemma takeWhile_neq_id:
  assumes "c \<notin> set xs"
  shows "takeWhile (\<lambda>x. x \<noteq> c) xs = xs" and "dropWhile (\<lambda>x. x \<noteq> c) xs = []"
  using assms by (auto simp: takeWhile_eq_all_conv dropWhile_eq_Nil_conv)

lemma distinct_snoc_iff: "distinct (xs @ [x]) \<longleftrightarrow> distinct xs \<and> x \<notin> set xs"
  by auto

lemma map_upd_same_iff: "(m(k \<mapsto> v)) k' = Some w \<longleftrightarrow> (if k' = k then w = v else m k' = Some w)"
  by auto

end
