(* ===== verification/Go_Net.thy ===== *)
theory Go_Net
  imports Go_Strings
begin

text \<open>
  The parts of Go's \<open>net\<close> and \<open>net/netip\<close> packages the proxy calls: addresses
  (\<open>net.IP\<close>, a byte slice whose nil value is \<open>[]\<close>), address literals, CIDR networks and
  \<open>host:port\<close> strings.  The parsers follow the scanning loops of \<open>net/netip\<close>, so that
  what they reject is what the library rejects.
\<close>

type_synonym ip = bytes

section \<open>Addresses\<close>

definition v4InV6Prefix :: bytes where
  "v4InV6Prefix = replicate 10 0 @ [255, 255]"

text \<open>\<open>net.IP.To4\<close> and \<open>net.IP.To16\<close>; \<open>[]\<close> is nil.\<close>

definition To4 :: "ip \<Rightarrow> ip" where
  "To4 a =
     (if length a = 4 then a
      else if length a = 16 \<and> take 12 a = v4InV6Prefix then drop 12 a else [])"

definition To16 :: "ip \<Rightarrow> ip" where
  "To16 a = (if length a = 4 then v4InV6Prefix @ a else if length a = 16 then a else [])"

section \<open>Address literals\<close>

datatype addr = V4 bytes | V6 bytes

fun parseIPv4Fields :: "string \<Rightarrow> nat \<Rightarrow> nat \<Rightarrow> bytes \<Rightarrow> bytes option" where
  "parseIPv4Fields [] val digLen fields =
     (if length fields < 3 then None else Some (fields @ [of_nat val]))"
| "parseIPv4Fields (c # s) val digLen fields =
     (if is_digit c then
        if digLen = 1 \<and> val = 0 then None
        else let v = val * 10 + digit_val c in
          if v > 255 then None else parseIPv4Fields s v (digLen + 1) fields
      else if c = CHR ''.'' then
        if digLen = 0 \<or> s = [] then None
        else if length fields = 3 then None
        else parseIPv4Fields s 0 0 (fields @ [of_nat val])
      else None)"

definition hex_val :: "char \<Rightarrow> nat option" where
  "hex_val c =
     (if is_digit c then Some (byte_of c - 48)
      else if 97 \<le> byte_of c \<and> byte_of c \<le> 102 then Some (byte_of c - 87)
      else if 65 \<le> byte_of c \<and> byte_of c \<le> 70 then Some (byte_of c - 55)
      else None)"

text \<open>One group of hexadecimal digits: its length, its value and what follows it.\<close>

fun hex_group :: "string \<Rightarrow> nat \<Rightarrow> nat \<Rightarrow> (nat \<times> nat \<times> string) option" where
  "hex_group [] off acc = Some (off, acc, [])"
| "hex_group (c # s) off acc =
     (case hex_val c of
        None \<Rightarrow> Some (off, acc, c # s)
      | Some d \<Rightarrow>
          let a = acc * 16 + d in
          if off > 3 then None else if a > 65535 then None else hex_group s (off + 1) a)"

text \<open>
  One round of the group loop of \<open>parseIPv6\<close>, on the bytes so far and the position of the
  ellipsis: it fails, leaves the loop, or goes on with the next group.
\<close>

datatype v6_round = V6_Fail | V6_Break string bytes "nat option" | V6_Next string bytes "nat option"

definition parseIPv6_group :: "string \<Rightarrow> bytes \<Rightarrow> nat option \<Rightarrow> v6_round" where
  "parseIPv6_group s a ellipsis =
     (case hex_group s 0 0 of
        None \<Rightarrow> V6_Fail
      | Some (off, acc, r) \<Rightarrow>
          if off = 0 then V6_Fail
          else if take 1 r = ''.'' then
            if ellipsis = None \<and> length a \<noteq> 12 then V6_Fail
            else if length a + 4 > 16 then V6_Fail
            else (case parseIPv4Fields s 0 0 [] of
                None \<Rightarrow> V6_Fail | Some f \<Rightarrow> V6_Break [] (a @ f) ellipsis)
          else
            let a' = a @ [of_nat (acc div 256), of_nat (acc mod 256)] in
            (case r of
               [] \<Rightarrow> V6_Break [] a' ellipsis
             | c # r1 \<Rightarrow>
                 if c \<noteq> CHR '':'' then V6_Fail
                 else (case r1 of
                     [] \<Rightarrow> V6_Fail
                   | d # r2 \<Rightarrow>
                       if d = CHR '':'' then
                         if ellipsis \<noteq> None then V6_Fail
                         else if r2 = [] then V6_Break [] a' (Some (length a'))
                         else V6_Next r2 a' (Some (length a'))
                       else V6_Next r1 a' ellipsis)))"

lemma parseIPv6_group_Next:
  "parseIPv6_group s a e = V6_Next s' a' e' \<Longrightarrow> length a' = length a + 2"
  by (auto simp: parseIPv6_group_def Let_def split: option.splits if_splits list.splits)

function parseIPv6_loop ::
  "string \<Rightarrow> bytes \<Rightarrow> nat option \<Rightarrow> (string \<times> bytes \<times> nat option) option" where
  "parseIPv6_loop s a ellipsis =
     (if 16 \<le> length a then Some (s, a, ellipsis)
      else case parseIPv6_group s a ellipsis of
        V6_Fail \<Rightarrow> None
      | V6_Break s' a' e' \<Rightarrow> Some (s', a', e')
      | V6_Next s' a' e' \<Rightarrow> parseIPv6_loop s' a' e')"
  by pat_completeness auto
termination
  by (relation "measure (\<lambda>(s, a, e). 16 - length a)") (auto dest: parseIPv6_group_Next)

declare parseIPv6_loop.simps [simp del]

definition expand_ellipsis :: "bytes \<Rightarrow> nat option \<Rightarrow> bytes option" where
  "expand_ellipsis a ellipsis =
     (if length a < 16 then
        (case ellipsis of
           None \<Rightarrow> None
         | Some e \<Rightarrow> Some (take e a @ replicate (16 - length a) 0 @ drop e a))
      else if ellipsis \<noteq> None then None else Some a)"

definition parseIPv6 :: "string \<Rightarrow> bytes option" where
  "parseIPv6 s =
     (if CHR ''%'' \<in> set s then None
      else if s = ''::'' then Some (replicate 16 0)
      else
        let lead = HasPrefix s ''::'';
            start = (if lead then (drop 2 s, Some 0) else (s, None))
        in case parseIPv6_loop (fst start) [] (snd start) of
             None \<Rightarrow> None
           | Some (rest, a, e) \<Rightarrow> if rest \<noteq> [] then None else expand_ellipsis a e)"

text \<open>
  \<open>netip.ParseAddr\<close> restricted to addresses without a zone, which is what \<open>net.ParseIP\<close>
  and \<open>net.ParseCIDR\<close> accept: the first of \<open>.\<close>, \<open>:\<close> and \<open>%\<close> decides the form.
\<close>

definition ParseAddr :: "string \<Rightarrow> addr option" where
  "ParseAddr s =
     (case find (\<lambda>c. c \<in> set ''.:%'') s of
        None \<Rightarrow> None
      | Some c \<Rightarrow>
          if c = CHR ''.'' then map_option V4 (parseIPv4Fields s 0 0 [])
          else if c = CHR '':'' then map_option V6 (parseIPv6 s)
          else None)"

fun As16 :: "addr \<Rightarrow> ip" where
  "As16 (V4 b) = v4InV6Prefix @ b"
| "As16 (V6 b) = b"

fun BitLen :: "addr \<Rightarrow> nat" where
  "BitLen (V4 b) = 32"
| "BitLen (V6 b) = 128"

definition ParseIP :: "string \<Rightarrow> ip" where
  "ParseIP s = (case ParseAddr s of None \<Rightarrow> [] | Some a \<Rightarrow> As16 a)"

section \<open>Printing addresses\<close>

definition ipv4_string :: "bytes \<Rightarrow> string" where
  "ipv4_string a = Join (map (\<lambda>b. nat_digits (unat b)) a) CHR ''.''"

definition hex_char :: "nat \<Rightarrow> char" where
  "hex_char d = (if d < 10 then char_of (48 + d) else char_of (87 + d))"

fun hex_digits :: "nat \<Rightarrow> string" where
  "hex_digits n =
     (if n < 16 then [hex_char n] else hex_digits (n div 16) @ [hex_char (n mod 16)])"

declare hex_digits.simps [simp del]

fun groups16 :: "bytes \<Rightarrow> nat list" where
  "groups16 (x # y # r) = (unat x * 256 + unat y) # groups16 r"
| "groups16 r = []"

definition zero_run :: "nat list \<Rightarrow> nat \<Rightarrow> nat" where
  "zero_run ws i = length (takeWhile (\<lambda>w. w = 0) (drop i ws))"

text \<open>The first longest run of at least two zero groups, as start and length.\<close>

fun zero_run_step :: "nat list \<Rightarrow> nat \<times> nat \<Rightarrow> nat \<Rightarrow> nat \<times> nat" where
  "zero_run_step ws (z, l) i =
     (if 2 \<le> zero_run ws i \<and> l < zero_run ws i then (i, zero_run ws i) else (z, l))"

definition longest_run :: "nat list \<Rightarrow> nat \<times> nat" where
  "longest_run ws = foldl (zero_run_step ws) (0, 0) [0..<length ws]"

definition ipv6_string :: "bytes \<Rightarrow> string" where
  "ipv6_string a =
     (let ws = groups16 a; (z, l) = longest_run ws
      in if l = 0 then Join (map hex_digits ws) CHR '':''
         else Join (map hex_digits (take z ws)) CHR '':'' @ ''::''
              @ Join (map hex_digits (drop (z + l) ws)) CHR '':'')"

definition hexString :: "bytes \<Rightarrow> string" where
  "hexString a = concat (map (\<lambda>b. [hex_char (unat b div 16), hex_char (unat b mod 16)]) a)"

text \<open>\<open>net.IP.String\<close>.\<close>

definition IP_String :: "ip \<Rightarrow> string" where
  "IP_String a =
     (if a = [] then ''<nil>''
      else if length a \<noteq> 4 \<and> length a \<noteq> 16 then CHR ''?'' # hexString a
      else if length (To4 a) = 4 then ipv4_string (To4 a)
      else ipv6_string a)"

section \<open>Networks\<close>

record IPNet =
  net_IP :: ip
  net_Mask :: bytes

text \<open>\<open>CIDRMask\<close>: the mask of \<open>k\<close> bytes with the leading \<open>ones\<close> bits set.\<close>

fun CIDRMask :: "nat \<Rightarrow> nat \<Rightarrow> bytes" where
  "CIDRMask ones 0 = []"
| "CIDRMask ones (Suc k) =
     (if 8 \<le> ones then 255 # CIDRMask (ones - 8) k
      else NOT (drop_bit ones 255) # CIDRMask 0 k)"

definition IP_Mask :: "ip \<Rightarrow> bytes \<Rightarrow> ip" where
  "IP_Mask a msk =
     (let m = (if length msk = 16 \<and> length a = 4 \<and> take 12 msk = replicate 12 255
               then drop 12 msk else msk);
          b = (if length m = 4 \<and> length a = 16 \<and> take 12 a = v4InV6Prefix then drop 12 a else a)
      in if length b = length m then map2 (AND) b m else [])"

text \<open>\<open>dtoi\<close>: decimal digits below the bound \<open>0xFFFFFF\<close>; the rest of the input follows.\<close>

fun dtoi :: "string \<Rightarrow> nat \<Rightarrow> nat \<Rightarrow> (nat \<times> nat) option" where
  "dtoi [] n i = (if i = 0 then None else Some (n, i))"
| "dtoi (c # s) n i =
     (if is_digit c then
        let n' = n * 10 + digit_val c in if 16777215 \<le> n' then None else dtoi s n' (i + 1)
      else if i = 0 then None else Some (n, i))"

definition ParseCIDR :: "string \<Rightarrow> IPNet option" where
  "ParseCIDR s =
     (if CHR ''/'' \<notin> set s then None
      else
        let addr = takeWhile (\<lambda>c. c \<noteq> CHR ''/'') s;
            msk = tl (dropWhile (\<lambda>c. c \<noteq> CHR ''/'') s)
        in case ParseAddr addr of
             None \<Rightarrow> None
           | Some a \<Rightarrow>
               (case dtoi msk 0 0 of
                  None \<Rightarrow> None
                | Some (n, i) \<Rightarrow>
                    if i \<noteq> length msk \<or> BitLen a < n then None
                    else let m = CIDRMask n (BitLen a div 8)
                         in Some \<lparr>net_IP = IP_Mask (As16 a) m, net_Mask = m\<rparr>))"

definition networkNumberAndMask :: "IPNet \<Rightarrow> (ip \<times> bytes)" where
  "networkNumberAndMask n =
     (let a = (if To4 (net_IP n) \<noteq> [] then To4 (net_IP n) else net_IP n); m = net_Mask n
      in if To4 (net_IP n) = [] \<and> length a \<noteq> 16 then ([], [])
         else if length m = 4 then (if length a \<noteq> 4 then ([], []) else (a, m))
         else if length m = 16 then (a, if length a = 4 then drop 12 m else m)
         else ([], []))"

definition IPNet_Contains :: "IPNet \<Rightarrow> ip \<Rightarrow> bool" where
  "IPNet_Contains n a =
     (let (nn, m) = networkNumberAndMask n;
          x = (if To4 a \<noteq> [] then To4 a else a)
      in length x = length nn \<and> map2 (AND) nn m = map2 (AND) x m)"

section \<open>Host and port\<close>

datatype addr_error = MissingPort | TooManyColons | MissingBracket | UnexpectedOpen | UnexpectedClose

definition SplitHostPort :: "string \<Rightarrow> addr_error + (string \<times> string)" where
  "SplitHostPort hp =
     (case LastIndexByte hp CHR '':'' of
        None \<Rightarrow> Inl MissingPort
      | Some i \<Rightarrow>
          let finish = (\<lambda>host j k.
                 if CHR ''['' \<in> set (drop j hp) then Inl UnexpectedOpen
                 else if CHR '']'' \<in> set (drop k hp) then Inl UnexpectedClose
                 else Inr (host, drop (i + 1) hp))
          in if take 1 hp = ''['' then
               (case IndexByte hp CHR '']'' of
                  None \<Rightarrow> Inl MissingBracket
                | Some e \<Rightarrow>
                    if e + 1 = length hp then Inl MissingPort
                    else if e + 1 = i then finish (take (e - 1) (drop 1 hp)) 1 (e + 1)
                    else if hp ! (e + 1) = CHR '':'' then Inl TooManyColons
                    else Inl MissingPort)
             else if CHR '':'' \<in> set (take i hp) then Inl TooManyColons
             else finish (take i hp) 0 0)"

definition JoinHostPort :: "string \<Rightarrow> string \<Rightarrow> string" where
  "JoinHostPort host port =
     (if CHR '':'' \<in> set host then ''['' @ host @ '']:'' @ port else host @ '':'' @ port)"

end
