(* ===== verification/Go_Net_Roundtrip.thy ===== *)
theory Go_Net_Roundtrip
  imports Go_Net_Facts
begin

text \<open>
  \<open>net.ParseIP\<close> undoes \<open>net.IP.String\<close>.  The dial race keeps its candidates as printed
  \<open>host:port\<close> strings and recovers the address family by parsing them again; these facts
  are what that relies on.
\<close>

section \<open>Dotted decimal\<close>

lemma nat_digits_1: "n < 10 \<Longrightarrow> nat_digits n = [digit_char n]"
  by (subst nat_digits.simps) simp

lemma nat_digits_2: "10 \<le> n \<Longrightarrow> n < 100 \<Longrightarrow> nat_digits n = [digit_char (n div 10), digit_char (n mod 10)]"
  by (subst nat_digits.simps) (simp add: nat_digits_1)

lemma nat_digits_3:
  "100 \<le> n \<Longrightarrow> n < 1000 \<Longrightarrow>
     nat_digits n = [digit_char (n div 100), digit_char (n div 10 mod 10), digit_char (n mod 10)]"
  by (subst nat_digits.simps) (simp add: nat_digits_2 div_mult2_eq [symmetric])

lemma nat_digits_length_pos: "length (nat_digits n) \<noteq> 0"
  by simp

lemma parseIPv4Fields_number:
  assumes "n < 256"
  shows "parseIPv4Fields (nat_digits n @ r) 0 0 f = parseIPv4Fields r n (length (nat_digits n)) f"
proof -
  consider "n < 10" | "10 \<le> n" "n < 100" | "100 \<le> n" "n < 1000" using assms by linarith
  then show ?thesis
  proof cases
    case 1
    then show ?thesis by (simp add: nat_digits_1)
  next
    case 2
    then have "n div 10 \<noteq> 0" and "n div 10 < 10" by auto
    with assms 2 show ?thesis by (simp add: nat_digits_2)
  next
    case 3
    then have "n div 100 \<noteq> 0" and "n div 100 < 10" by auto
    moreover have "n div 100 * 10 + n div 10 mod 10 = n div 10" "n div 10 * 10 + n mod 10 = n"
      using div_mult_mod_eq [of "n div 10" 10] by (simp_all add: div_mult2_eq [symmetric])
    moreover have "n div 10 \<le> 255" using assms by simp
    ultimately show ?thesis using assms 3 by (simp add: nat_digits_3 Let_def)
  qed
qed

lemma dot_not_digit [simp]: "\<not> is_digit CHR ''.''"
  by (simp add: is_digit_def byte_of_def)

lemma parse_ipv4_string:
  assumes "length a = 4"
  shows "parseIPv4Fields (ipv4_string a) 0 0 [] = Some a"
proof -
  from assms obtain w x y z where a: "a = [w, x, y, z]"
    by (auto simp: length_Suc_conv numeral_eq_Suc)
  have "unat b < 256" for b :: byte using unsigned_less [of b] by simp
  then show ?thesis
    by (simp add: a ipv4_string_def parseIPv4Fields_number
        parseIPv4Fields_number [where r = "[]", simplified])
qed

lemma digit_not_special:
  "is_digit c \<Longrightarrow> c \<notin> {CHR ''.'', CHR '':'', CHR ''%'', CHR ''['', CHR '']'', CHR ''/''}"
  by (auto simp: is_digit_def byte_of_def)

lemma find_first_special:
  "\<forall>c \<in> set xs. \<not> P c \<Longrightarrow> P d \<Longrightarrow> find P (xs @ d # ys) = Some d"
  by (induction xs) auto

lemma ParseAddr_ipv4_string:
  assumes "length a = 4"
  shows "ParseAddr (ipv4_string a) = Some (V4 a)"
proof -
  from assms obtain w r where a: "a = w # r" by (cases a) auto
  with assms have "r \<noteq> []" by auto
  with a have "ipv4_string a = nat_digits (unat w) @ CHR ''.'' # Join (map (\<lambda>b. nat_digits (unat b)) r) CHR ''.''"
    by (simp add: ipv4_string_def Join_Cons)
  then have "find (\<lambda>c. c \<in> set ''.:%'') (ipv4_string a) = Some CHR ''.''"
    using find_first_special [of "nat_digits (unat w)" "\<lambda>c. c \<in> set ''.:%''" "CHR ''.''"]
    by (auto dest!: nat_digits_chars digit_not_special)
  with parse_ipv4_string [OF assms] show ?thesis
    by (simp add: ParseAddr_def)
qed

section \<open>Colon hexadecimal\<close>

lemma hex_val_hex_char [simp]: "d < 16 \<Longrightarrow> hex_val (hex_char d) = Some d"
  by (auto simp: hex_val_def hex_char_def is_digit_def)

lemma hex_digits_1: "n < 16 \<Longrightarrow> hex_digits n = [hex_char n]"
  by (subst hex_digits.simps) simp

lemma hex_digits_2: "16 \<le> n \<Longrightarrow> n < 256 \<Longrightarrow> hex_digits n = [hex_char (n div 16), hex_char (n mod 16)]"
  by (subst hex_digits.simps) (simp add: hex_digits_1)

lemma hex_digits_3:
  "256 \<le> n \<Longrightarrow> n < 4096 \<Longrightarrow>
     hex_digits n = [hex_char (n div 256), hex_char (n div 16 mod 16), hex_char (n mod 16)]"
  by (subst hex_digits.simps) (simp add: hex_digits_2 div_mult2_eq [symmetric])

lemma hex_digits_4:
  "4096 \<le> n \<Longrightarrow> n < 65536 \<Longrightarrow>
     hex_digits n = [hex_char (n div 4096), hex_char (n div 256 mod 16), hex_char (n div 16 mod 16),
       hex_char (n mod 16)]"
  by (subst hex_digits.simps) (simp add: hex_digits_3 div_mult2_eq [symmetric])

definition no_hex :: "string \<Rightarrow> bool" where
  "no_hex r \<longleftrightarrow> (case r of [] \<Rightarrow> True | c # _ \<Rightarrow> hex_val c = None)"

lemma hex_group_stop: "no_hex r \<Longrightarrow> hex_group r off acc = Some (off, acc, r)"
  by (cases r) (auto simp: no_hex_def)

lemma hex_recombine:
  "n div 4096 * 16 + n div 256 mod 16 = n div (256::nat)"
  "n div 256 * 16 + n div 16 mod 16 = n div (16::nat)"
  "n div 16 * 16 + n mod 16 = (n::nat)"
  using div_mult_mod_eq [of "n div 256" 16] div_mult_mod_eq [of "n div 16" 16]
  by (simp_all add: div_mult2_eq [symmetric])

lemma hex_group_number:
  assumes "n < 65536" and "no_hex r"
  shows "hex_group (hex_digits n @ r) 0 0 = Some (length (hex_digits n), n, r)"
proof -
  have "\<not> 65535 < n div 16" "\<not> 65535 < n div 256" "\<not> 65535 < n div 4096" using assms by auto
  note this [simp]
  consider "n < 16" | "16 \<le> n" "n < 256" | "256 \<le> n" "n < 4096" | "4096 \<le> n" using assms by linarith
  then show ?thesis
    using assms
    by cases (simp_all add: hex_digits_1 hex_digits_2 hex_digits_3 hex_digits_4 hex_group_stop
        hex_recombine Let_def)
qed

definition group_bytes :: "nat \<Rightarrow> bytes" where
  "group_bytes n = [of_nat (n div 256), of_nat (n mod 256)]"

abbreviation colons :: "nat list \<Rightarrow> string" where
  "colons ws \<equiv> Join (map hex_digits ws) CHR '':''"

lemma hex_digits_nonempty [simp]: "hex_digits n \<noteq> []"
  by (subst hex_digits.simps) simp

lemma hex_digits_hex: "c \<in> set (hex_digits n) \<Longrightarrow> hex_val c \<noteq> None"
proof (induction n rule: hex_digits.induct)
  case (1 n)
  then show ?case
    by (subst (asm) hex_digits.simps) (auto split: if_splits)
qed

lemma hex_not_special:
  "hex_val c \<noteq> None \<Longrightarrow> c \<notin> {CHR ''.'', CHR '':'', CHR ''%'', CHR ''['', CHR '']'', CHR ''/''}"
  by (auto simp: hex_val_def is_digit_def byte_of_def)

lemma no_hex_colon [simp]: "no_hex (CHR '':'' # r)"
  by (simp add: no_hex_def hex_val_def is_digit_def byte_of_def)

lemma colons_Cons:
  "Join (w # ws) CHR '':'' = w @ (if ws = [] then [] else CHR '':'' # Join ws CHR '':'')"
  by (simp add: Join_Cons)

lemma colons_head: "ws \<noteq> [] \<Longrightarrow> \<exists>c r. colons ws = c # r \<and> c \<noteq> CHR '':''"
proof (cases ws)
  case (Cons w ws')
  obtain c r where c: "hex_digits w = c # r" by (cases "hex_digits w") auto
  then have "hex_val c \<noteq> None" using hex_digits_hex [of c w] by simp
  with c Cons show ?thesis using hex_not_special [of c] by (auto simp: colons_Cons simp del: Join.simps)
qed simp

text \<open>One round of the loop on a printed group, by what follows the group.\<close>

lemma parseIPv6_group_end:
  "n < 65536 \<Longrightarrow> parseIPv6_group (hex_digits n) a e = V6_Break [] (a @ group_bytes n) e"
  using hex_group_number [of n "[]"]
  by (simp add: parseIPv6_group_def group_bytes_def no_hex_def Let_def)

lemma parseIPv6_group_colon:
  "n < 65536 \<Longrightarrow> c \<noteq> CHR '':'' \<Longrightarrow>
     parseIPv6_group (hex_digits n @ CHR '':'' # c # r) a e = V6_Next (c # r) (a @ group_bytes n) e"
  by (simp add: parseIPv6_group_def group_bytes_def hex_group_number Let_def)

lemma parseIPv6_group_ellipsis:
  "n < 65536 \<Longrightarrow>
     parseIPv6_group (hex_digits n @ ''::'' @ r) a None =
       (if r = [] then V6_Break [] (a @ group_bytes n) (Some (length a + 2))
        else V6_Next r (a @ group_bytes n) (Some (length a + 2)))"
  by (simp add: parseIPv6_group_def group_bytes_def hex_group_number Let_def)

lemma group_bytes_length [simp]: "length (group_bytes n) = 2"
  by (simp add: group_bytes_def)

lemma parseIPv6_loop_colons:
  assumes "ws \<noteq> []" "\<forall>w \<in> set ws. w < 65536" "length a + 2 * length ws \<le> 16"
  shows "parseIPv6_loop (colons ws) a e = Some ([], a @ concat (map group_bytes ws), e)"
  using assms
proof (induction ws arbitrary: a)
  case (Cons w ws)
  show ?case
  proof (cases "ws = []")
    case True
    with Cons.prems show ?thesis
      by (subst parseIPv6_loop.simps) (simp add: parseIPv6_group_end)
  next
    case False
    then obtain c r where c: "colons ws = c # r" "c \<noteq> CHR '':''" using colons_head by blast
    have "parseIPv6_loop (colons (w # ws)) a e = parseIPv6_loop (colons ws) (a @ group_bytes w) e"
      using Cons.prems False c
      by (subst parseIPv6_loop.simps) (simp add: colons_Cons parseIPv6_group_colon del: Join.simps)
    also have "\<dots> = Some ([], (a @ group_bytes w) @ concat (map group_bytes ws), e)"
      using Cons.prems False by (intro Cons.IH) auto
    finally show ?thesis by simp
  qed
qed simp

lemma parseIPv6_loop_ellipsis:
  assumes "ws \<noteq> []" "\<forall>w \<in> set ws. w < 65536" "length a + 2 * length ws \<le> 16"
  shows "parseIPv6_loop (colons ws @ ''::'' @ r) a None =
    (let b = a @ concat (map group_bytes ws) in
     if r = [] then Some ([], b, Some (length b)) else parseIPv6_loop r b (Some (length b)))"
  using assms
proof (induction ws arbitrary: a)
  case (Cons w ws)
  show ?case
  proof (cases "ws = []")
    case True
    with Cons.prems parseIPv6_group_ellipsis [of w r a] show ?thesis
      by (subst parseIPv6_loop.simps) (simp add: Let_def)
  next
    case False
    then obtain c t where c: "colons ws = c # t" "c \<noteq> CHR '':''" using colons_head by blast
    have "parseIPv6_loop (colons (w # ws) @ ''::'' @ r) a None
        = parseIPv6_loop (colons ws @ ''::'' @ r) (a @ group_bytes w) None"
      using Cons.prems False c parseIPv6_group_colon [of w c "t @ ''::'' @ r" a None]
      by (subst parseIPv6_loop.simps) (simp add: colons_Cons del: Join.simps)
    also have "\<dots> = (let b = (a @ group_bytes w) @ concat (map group_bytes ws) in
       if r = [] then Some ([], b, Some (length b)) else parseIPv6_loop r b (Some (length b)))"
      using Cons.prems False by (intro Cons.IH) auto
    finally show ?thesis by simp
  qed
qed simp

text \<open>The run of zero groups that printing leaves out.\<close>

lemma zero_run_spec:
  assumes "i < length ws"
  shows "i + zero_run ws i \<le> length ws \<and> take (zero_run ws i) (drop i ws) = replicate (zero_run ws i) 0"
proof -
  have len: "length (takeWhile (\<lambda>w. w = 0) xs) \<le> length xs" for xs :: "nat list"
    by (rule length_takeWhile_le)
  have "takeWhile (\<lambda>w. w = 0) xs = replicate (length (takeWhile (\<lambda>w. w = 0) xs)) 0" for xs :: "nat list"
    by (induction xs) auto
  then show ?thesis
    using assms len [of "drop i ws"] by (simp add: zero_run_def takeWhile_eq_take [symmetric])
qed

definition run_ok :: "nat list \<Rightarrow> nat \<times> nat \<Rightarrow> bool" where
  "run_ok ws p = (case p of (z, l) \<Rightarrow>
     l = 0 \<or> (2 \<le> l \<and> z + l \<le> length ws \<and> take l (drop z ws) = replicate l 0))"

lemma zero_run_step_ok: "run_ok ws p \<Longrightarrow> i < length ws \<Longrightarrow> run_ok ws (zero_run_step ws p i)"
  by (cases p) (auto simp: run_ok_def zero_run_spec)

lemma longest_run_ok: "run_ok ws (longest_run ws)"
proof -
  have "run_ok ws (foldl (zero_run_step ws) p is)"
    if "run_ok ws p" "set is \<subseteq> {..<length ws}" for p "is"
    using that by (induction "is" arbitrary: p) (auto simp: zero_run_step_ok)
  moreover have "run_ok ws (0, 0)" by (simp add: run_ok_def)
  ultimately show ?thesis unfolding longest_run_def by (auto simp: atLeast0LessThan)
qed

lemma groups16_bytes:
  "even (length a) \<Longrightarrow> concat (map group_bytes (groups16 a)) = a \<and> (\<forall>w \<in> set (groups16 a). w < 65536)
     \<and> 2 * length (groups16 a) = length a"
proof (induction a rule: groups16.induct)
  case (1 x y r)
  have lim: "unat x < 256" "unat y < 256" using unsigned_less [of x] unsigned_less [of y] by simp_all
  then have "group_bytes (unat x * 256 + unat y) = [x, y]" by (simp add: group_bytes_def)
  moreover from lim have "unat x * 256 + unat y < 65536" by linarith
  ultimately show ?case using 1 by simp
qed simp_all

lemma colons_chars:
  "c \<in> set (colons ws) \<Longrightarrow> c = CHR '':'' \<or> hex_val c \<noteq> None"
  by (induction ws) (auto simp: colons_Cons simp del: Join.simps(2,3) dest: hex_digits_hex split: if_splits)

lemma ipv6_string_chars: "c \<in> set (ipv6_string a) \<Longrightarrow> c = CHR '':'' \<or> hex_val c \<noteq> None"
  by (auto simp: ipv6_string_def Let_def split: prod.splits if_splits dest: colons_chars)

lemma parseIPv6_start:
  assumes "CHR ''%'' \<notin> set s" "\<not> HasPrefix s ''::''"
  shows "parseIPv6 s = (case parseIPv6_loop s [] None of
      None \<Rightarrow> None | Some (rest, a, e) \<Rightarrow> if rest \<noteq> [] then None else expand_ellipsis a e)"
proof -
  from assms(2) have "s \<noteq> ''::''" by (auto simp: HasPrefix_def)
  with assms show ?thesis by (simp add: parseIPv6_def)
qed

lemma concat_zero_groups: "concat (map group_bytes (replicate l 0)) = replicate (2 * l) 0"
  by (induction l) (auto simp: group_bytes_def)

lemma concat_groups_length: "length (concat (map group_bytes ws)) = 2 * length ws"
  by (induction ws) auto

lemma parseIPv6_colons:
  assumes "ws \<noteq> []" "\<forall>w \<in> set ws. w < 65536" "length ws = 8"
  shows "parseIPv6 (colons ws) = Some (concat (map group_bytes ws))"
proof -
  obtain c r where "colons ws = c # r" "c \<noteq> CHR '':''" using colons_head assms(1) by blast
  then have "\<not> HasPrefix (colons ws) ''::''" by (auto simp: HasPrefix_def)
  moreover have "CHR ''%'' \<notin> set (colons ws)"
    using colons_chars [of "CHR ''%''"] hex_not_special by blast
  ultimately show ?thesis
    using assms concat_groups_length [of ws]
    by (simp add: parseIPv6_start parseIPv6_loop_colons expand_ellipsis_def)
qed

lemma parseIPv6_compressed:
  assumes "\<forall>w \<in> set pre \<union> set post. w < 65536" "length pre + length post < 8"
  defines "B \<equiv> concat (map group_bytes pre)" and "C \<equiv> concat (map group_bytes post)"
  shows "parseIPv6 (colons pre @ ''::'' @ colons post)
    = Some (B @ replicate (16 - length (B @ C)) 0 @ C)"
proof -
  have lens: "length B = 2 * length pre" "length C = 2 * length post"
    by (simp_all add: B_def C_def concat_groups_length)
  have percent: "CHR ''%'' \<notin> set (colons ws)" for ws
    using colons_chars [of "CHR ''%''"] hex_not_special by blast
  have post: "post \<noteq> [] \<Longrightarrow> parseIPv6_loop (colons post) B' e = Some ([], B' @ C, e)"
    if "length B' = length B" for B' e
    using assms that lens by (simp add: C_def parseIPv6_loop_colons)
  have nonempty: "colons post \<noteq> [] \<longleftrightarrow> post \<noteq> []"
    using colons_head [of post] by (cases "post = []") auto
  show ?thesis
  proof (cases "pre = []")
    case True
    then show ?thesis
      using lens percent [of post] post [of "[]" "Some 0"] nonempty assms(2)
      by (cases "post = []")
        (auto simp: parseIPv6_def HasPrefix_def expand_ellipsis_def B_def)
  next
    case False
    then obtain c r where "colons pre = c # r" "c \<noteq> CHR '':''" using colons_head by blast
    then have "\<not> HasPrefix (colons pre @ ''::'' @ colons post) ''::''" by (auto simp: HasPrefix_def)
    moreover have "CHR ''%'' \<notin> set (colons pre @ ''::'' @ colons post)"
      using percent [of pre] percent [of post] by simp
    moreover have "parseIPv6_loop (colons pre @ ''::'' @ colons post) [] None
        = (if post = [] then Some ([], B, Some (length B)) else Some ([], B @ C, Some (length B)))"
      using parseIPv6_loop_ellipsis [of pre "[]" "colons post"] post [of B "Some (length B)"]
        nonempty False assms(1,2)
      by (simp add: B_def [symmetric] Let_def)
    ultimately show ?thesis
      using lens assms(2) by (auto simp: parseIPv6_start expand_ellipsis_def)
  qed
qed

lemma parseIPv6_ipv6_string:
  assumes "length a = 16"
  shows "parseIPv6 (ipv6_string a) = Some a"
proof -
  define ws where "ws = groups16 a"
  obtain z l where zl: "longest_run ws = (z, l)" by fastforce
  have ws: "concat (map group_bytes ws) = a" "\<forall>w \<in> set ws. w < 65536" "length ws = 8"
    using groups16_bytes [of a] assms by (auto simp: ws_def)
  show ?thesis
  proof (cases "l = 0")
    case True
    from ws(3) have "ws \<noteq> []" by auto
    with True zl ws show ?thesis
      by (simp add: ipv6_string_def parseIPv6_colons ws_def [symmetric])
  next
    case False
    define pre post where "pre = take z ws" and "post = drop (z + l) ws"
    from False longest_run_ok [of ws] zl
    have run: "2 \<le> l" "z + l \<le> length ws" "take l (drop z ws) = replicate l 0"
      by (auto simp: run_ok_def)
    then have split: "ws = pre @ replicate l 0 @ post"
      unfolding pre_def post_def by (metis append_take_drop_id drop_drop add.commute)
    have len: "length pre + length post = 8 - l" using run ws(3) by (simp add: pre_def post_def)
    have "ipv6_string a = colons pre @ ''::'' @ colons post"
      using False zl by (simp add: ipv6_string_def ws_def [symmetric] pre_def post_def)
    moreover have "a = concat (map group_bytes pre) @ replicate (2 * l) 0 @ concat (map group_bytes post)"
      using ws(1) split concat_zero_groups [of l] by (metis concat_append map_append)
    moreover have "16 - length (concat (map group_bytes pre) @ concat (map group_bytes post)) = 2 * l"
      using len run ws(3) by (simp add: concat_groups_length)
    moreover have "\<forall>w \<in> set pre \<union> set post. w < 65536" using ws(2) split by auto
    ultimately show ?thesis
      using parseIPv6_compressed [of pre post] len run(1) by (metis diff_less less_le_trans zero_less_numeral)
  qed
qed

lemma ipv6_string_has_colon:
  assumes "length a = 16"
  shows "CHR '':'' \<in> set (ipv6_string a)"
proof -
  have "length (groups16 a) = 8" using groups16_bytes [of a] assms by auto
  then obtain v w r where "groups16 a = v # w # r"
    by (cases "groups16 a"; cases "tl (groups16 a)") auto
  moreover obtain z l where "longest_run (groups16 a) = (z, l)" by fastforce
  ultimately show ?thesis by (simp add: ipv6_string_def Let_def)
qed

lemma ParseAddr_ipv6_string:
  assumes "length a = 16"
  shows "ParseAddr (ipv6_string a) = Some (V6 a)"
proof -
  from ipv6_string_has_colon [OF assms] obtain c where
    c: "find (\<lambda>c. c \<in> set ''.:%'') (ipv6_string a) = Some c"
    by (cases "find (\<lambda>c. c \<in> set ''.:%'') (ipv6_string a)") (auto simp: find_None_iff)
  then have "c \<in> set (ipv6_string a)" "c \<in> set ''.:%''" by (auto dest: find_SomeD)
  then have "c = CHR '':''" using ipv6_string_chars [of c a] hex_not_special [of c] by auto
  with c show ?thesis by (simp add: ParseAddr_def parseIPv6_ipv6_string assms)
qed

lemma ParseIP_IP_String:
  assumes "length a = 4 \<or> length a = 16"
  shows "ParseIP (IP_String a) = To16 a"
proof (cases "length (To4 a) = 4")
  case True
  with assms have "IP_String a = ipv4_string (To4 a)" by (auto simp: IP_String_def)
  then have "ParseIP (IP_String a) = v4InV6Prefix @ To4 a"
    using True by (simp add: ParseIP_def ParseAddr_ipv4_string)
  also have "\<dots> = To16 a"
    using assms True by (auto simp: To4_def To16_def split: if_splits) (metis append_take_drop_id)
  finally show ?thesis .
next
  case False
  with assms have "length a = 16" by (auto simp: To4_def)
  with False show ?thesis
    by (auto simp: IP_String_def ParseIP_def ParseAddr_ipv6_string To16_def)
qed

lemma IP_String_chars:
  assumes "length a = 4 \<or> length a = 16"
  shows "CHR ''['' \<notin> set (IP_String a) \<and> CHR '']'' \<notin> set (IP_String a)"
proof -
  have "c \<noteq> CHR ''['' \<and> c \<noteq> CHR '']''" if "c \<in> set (ipv6_string a)" for c
    using ipv6_string_chars [OF that] hex_not_special [of c] by auto
  moreover have "c \<noteq> CHR ''['' \<and> c \<noteq> CHR '']''" if "c \<in> set (ipv4_string b)" for b c
  proof -
    have "c \<in> set (Join xs d) \<Longrightarrow> c = d \<or> (\<exists>x \<in> set xs. c \<in> set x)" for xs d
      by (induction xs d rule: Join.induct) auto
    then have "c = CHR ''.'' \<or> is_digit c"
      using that by (fastforce simp: ipv4_string_def dest: nat_digits_chars)
    then show ?thesis using digit_not_special [of c] by auto
  qed
  ultimately show ?thesis using assms by (auto simp: IP_String_def)
qed

text \<open>A printed candidate splits back into its address and port.\<close>

lemma SplitHostPort_candidate:
  assumes "length a = 4 \<or> length a = 16"
    and "CHR ''['' \<notin> set port" "CHR '']'' \<notin> set port" "CHR '':'' \<notin> set port"
  shows "SplitHostPort (JoinHostPort (IP_String a) port) = Inr (IP_String a, port)"
  using assms IP_String_chars [of a] by (simp add: SplitHostPort_JoinHostPort)

text \<open>The dotted parser accepts no leading zeros, so printing what it read gives the text back.\<close>

lemma digit_char_digit_val: "is_digit c \<Longrightarrow> digit_char (digit_val c) = c"
  by (simp add: is_digit_def digit_char_def digit_val_def)

lemma digit_val_less: "is_digit c \<Longrightarrow> digit_val c < 10"
  unfolding is_digit_def digit_val_def by linarith

lemma nat_digits_snoc:
  "0 < n \<Longrightarrow> d < 10 \<Longrightarrow> nat_digits (n * 10 + d) = nat_digits n @ [digit_char d]"
  by (subst nat_digits.simps) simp

lemma parseIPv4Fields_print:
  assumes "parseIPv4Fields s val dl f = Some g" and "val \<le> 255"
    and "dl = 0 \<longrightarrow> val = 0 \<and> s \<noteq> []" and "2 \<le> dl \<longrightarrow> 0 < val"
  shows "\<exists>h. g = f @ h \<and> h \<noteq> [] \<and>
    (if dl = 0 then s else nat_digits val @ s) = Join (map (\<lambda>b. nat_digits (unat b)) h) CHR ''.''"
  using assms
proof (induction s val dl f rule: parseIPv4Fields.induct)
  case (1 val dl f)
  then have "g = f @ [of_nat val]" "unat (of_nat val :: byte) = val"
    by (auto split: if_splits simp: unat_of_nat)
  with 1 show ?case by (auto intro!: exI [of _ "[of_nat val]"])
next
  case (2 c s val dl f)
  show ?case
  proof (cases "is_digit c")
    case True
    let ?v = "val * 10 + digit_val c"
    from True 2(3) have ok: "\<not> (dl = 1 \<and> val = 0)" "?v \<le> 255"
      and rest: "parseIPv4Fields s ?v (dl + 1) f = Some g"
      by (auto simp: Let_def split: if_splits)
    have "0 < val" if "dl \<noteq> 0" using that ok(1) 2(6) by (cases "dl = 1") auto
    then have "nat_digits ?v = (if dl = 0 then [] else nat_digits val) @ [c]"
      using True 2(5) by (auto simp: nat_digits_snoc digit_val_less digit_char_digit_val nat_digits_1)
    moreover have "2 \<le> dl + 1 \<longrightarrow> 0 < ?v" using \<open>dl \<noteq> 0 \<Longrightarrow> 0 < val\<close> by auto
    ultimately show ?thesis
      using 2(1) [OF True ok(1) refl _ rest] ok(2) by auto
  next
    case False
    with 2(3) have c: "c = CHR ''.''" "dl \<noteq> 0" "s \<noteq> []" "length f \<noteq> 3"
      and rest: "parseIPv4Fields s 0 0 (f @ [of_nat val]) = Some g"
      by (auto split: if_splits)
    have "unat (of_nat val :: byte) = val" using 2(4) by (simp add: unat_of_nat)
    moreover obtain h where "g = (f @ [of_nat val]) @ h" "h \<noteq> []"
      "s = Join (map (\<lambda>b. nat_digits (unat b)) h) CHR ''.''"
      using 2(2) [OF False c(1) _ c(4) rest] c by auto
    ultimately show ?thesis using c
      by (auto simp: Join_Cons intro!: exI [of _ "of_nat val # h"])
  qed
qed

lemma ParseIP_dotted:
  assumes "ParseIP s \<noteq> []" and "CHR '':'' \<notin> set s"
  shows "IP_String (ParseIP s) = s"
proof -
  have first: "find (\<lambda>c. c \<in> set ''.:%'') s \<noteq> Some CHR '':''"
    using assms(2) by (auto dest: find_SomeD)
  with assms(1) obtain a where a: "parseIPv4Fields s 0 0 [] = Some a" "ParseIP s = v4InV6Prefix @ a"
    by (auto simp: ParseIP_def ParseAddr_def split: option.splits if_splits)
  from first a have "s \<noteq> []" by (auto split: if_splits)
  with parseIPv4Fields_print [OF a(1)] have "s = ipv4_string a" by (auto simp: ipv4_string_def)
  moreover have "length a = 4" using a(1) by (rule parseIPv4Fields_length0)
  ultimately show ?thesis using a(2) by (auto simp: IP_String_def To4_def)
qed

section \<open>Evaluation on literals\<close>

lemmas address_eval [go_eval] =
  byte_of_def is_digit_def digit_val_def hex_val_def HasPrefix_def Let_def
  ParseAddr_def parseIPv6_def parseIPv6_loop.simps parseIPv6_group_def expand_ellipsis_def
  ParseIP_def To4_def To16_def v4InV6Prefix_def

end
