(* ===== verification/Acl.thy ===== *)
theory Acl
  imports Go_Net_Roundtrip
begin

text \<open>
  Access control rules (\<open>acl.go\<close>, and the rule list \<open>Provision\<close> builds in
  \<open>forwardproxy.go\<close>).  A rule answers allow, deny or no match for an address and a host
  name; the list is scanned in order and the first rule that matches decides.
\<close>

section \<open>Rules\<close>

record ACLRule =
  Subjects :: "string list"
  Allow :: bool

datatype aclDecision = aclDecisionAllow | aclDecisionDeny | aclDecisionNoMatch

datatype aclRule =
    aclIPRule (rule_net: IPNet) (rule_allow: bool)
  | aclDomainRule (rule_domain: string) (subdomainsAllowed: bool) (rule_allow: bool)
  | aclAllRule (rule_allow: bool)

fun tryMatch :: "aclRule \<Rightarrow> ip \<Rightarrow> string \<Rightarrow> aclDecision" where
  "tryMatch (aclIPRule net allow) a domain =
     (if \<not> IPNet_Contains net a then aclDecisionNoMatch
      else if allow then aclDecisionAllow else aclDecisionDeny)"
| "tryMatch (aclDomainRule d subs allow) a domain =
     (let domain = TrimPrefix domain ''.'' in
      if domain = d \<or> (subs \<and> HasSuffix domain (''.'' @ d)) then
        (if allow then aclDecisionAllow else aclDecisionDeny)
      else aclDecisionNoMatch)"
| "tryMatch (aclAllRule allow) a domain = (if allow then aclDecisionAllow else aclDecisionDeny)"

datatype domain_error = CharNotAllowed char | EmptySection | SectionTooLong

definition ldh_char :: "char \<Rightarrow> bool" where
  "ldh_char c \<longleftrightarrow> is_lower c \<or> is_upper c \<or> c = CHR ''_'' \<or> is_digit c \<or> c = CHR ''-'' \<or> c = CHR ''.''"

definition isValidDomainLite :: "string \<Rightarrow> domain_error option" where
  "isValidDomainLite domain =
     (case find (\<lambda>c. \<not> ldh_char c) domain of
        Some c \<Rightarrow> Some (CharNotAllowed c)
      | None \<Rightarrow>
          (case find (\<lambda>s. length s = 0 \<or> 63 < length s) (Split domain CHR ''.'') of
             None \<Rightarrow> None
           | Some s \<Rightarrow> Some (if length s = 0 then EmptySection else SectionTooLong)))"

text \<open>The error of \<open>newACLRule\<close>: the subject (without its \<open>*.\<close>) and the domain error.\<close>

definition newACLRule :: "string \<Rightarrow> bool \<Rightarrow> (string \<times> domain_error) + aclRule" where
  "newACLRule ruleSubject allow =
     (if ruleSubject = ''all'' then Inr (aclAllRule allow)
      else
        let ipNet =
              (case ParseCIDR ruleSubject of
                 Some n \<Rightarrow> Some n
               | None \<Rightarrow>
                   if To4 (ParseIP ruleSubject) \<noteq> [] then ParseCIDR (ruleSubject @ ''/32'')
                   else if To16 (ParseIP ruleSubject) \<noteq> [] then ParseCIDR (ruleSubject @ ''/128'')
                   else None)
        in case ipNet of
             Some n \<Rightarrow> Inr (aclIPRule n allow)
           | None \<Rightarrow>
               let subs = HasPrefix ruleSubject ''*.'';
                   subject = (if subs then drop 2 ruleSubject else ruleSubject)
               in case isValidDomainLite subject of
                    Some e \<Rightarrow> Inl (subject, e)
                  | None \<Rightarrow> Inr (aclDomainRule subject subs allow))"

section \<open>The rule list\<close>

fun newACLRules :: "string list \<Rightarrow> bool \<Rightarrow> (string \<times> domain_error) + aclRule list" where
  "newACLRules [] allow = Inr []"
| "newACLRules (subj # subjs) allow =
     (case newACLRule subj allow of
        Inl e \<Rightarrow> Inl e
      | Inr ar \<Rightarrow> (case newACLRules subjs allow of Inl e \<Rightarrow> Inl e | Inr ars \<Rightarrow> Inr (ar # ars)))"

fun configuredRules :: "ACLRule list \<Rightarrow> (string \<times> domain_error) + aclRule list" where
  "configuredRules [] = Inr []"
| "configuredRules (r # rs) =
     (case newACLRules (Subjects r) (Allow r) of
        Inl e \<Rightarrow> Inl e
      | Inr ars \<Rightarrow> (case configuredRules rs of Inl e \<Rightarrow> Inl e | Inr ars' \<Rightarrow> Inr (ars @ ars')))"

definition defaultDenied :: "string list" where
  "defaultDenied =
     [''10.0.0.0/8'', ''127.0.0.0/8'', ''172.16.0.0/12'', ''192.168.0.0/16'', ''::1/128'', ''fe80::/10'']"

text \<open>The rule list of \<open>Provision\<close>: the configured rules, the default denials, allow all.\<close>

definition provisionACL :: "ACLRule list \<Rightarrow> (string \<times> domain_error) + aclRule list" where
  "provisionACL acl =
     (case configuredRules acl of
        Inl e \<Rightarrow> Inl e
      | Inr ars \<Rightarrow>
          (case newACLRules defaultDenied False of
             Inl e \<Rightarrow> Inl e
           | Inr ds \<Rightarrow> Inr (ars @ ds @ [aclAllRule True])))"

fun hostIsAllowed :: "aclRule list \<Rightarrow> string \<Rightarrow> ip \<Rightarrow> bool" where
  "hostIsAllowed [] hostname a = False"
| "hostIsAllowed (rule # rules) hostname a =
     (case tryMatch rule a hostname of
        aclDecisionDeny \<Rightarrow> False
      | aclDecisionAllow \<Rightarrow> True
      | aclDecisionNoMatch \<Rightarrow> hostIsAllowed rules hostname a)"

definition portIsAllowed :: "int list \<Rightarrow> string \<Rightarrow> bool" where
  "portIsAllowed allowedPorts port =
     (case Atoi port of
        None \<Rightarrow> False
      | Some portInt \<Rightarrow>
          if portInt \<le> 0 \<or> 65535 < portInt then False
          else if length allowedPorts = 0 then True
          else list_ex (\<lambda>p. p = portInt) allowedPorts)"

section \<open>First match decides\<close>

text \<open>
  The contract of a rule chain: every rule either abstains or answers with its own verdict.
  A scan that takes the first answer is then determined by the first rule that does not
  abstain, earlier abstaining rules do not matter, and a chain that ends in a rule that
  always answers never runs off its end.
\<close>

locale rule_chain =
  fixes answer :: "'rule \<Rightarrow> 'q \<Rightarrow> aclDecision"
    and verdict :: "'rule \<Rightarrow> bool"
    and scan :: "'rule list \<Rightarrow> 'q \<Rightarrow> bool"
  assumes answer_verdict: "answer r q \<noteq> aclDecisionNoMatch \<Longrightarrow>
      answer r q = (if verdict r then aclDecisionAllow else aclDecisionDeny)"
    and scan_Nil: "scan [] q = False"
    and scan_Cons: "scan (r # rs) q =
      (if answer r q = aclDecisionNoMatch then scan rs q else answer r q = aclDecisionAllow)"
begin

definition matches :: "'q \<Rightarrow> 'rule \<Rightarrow> bool" where
  "matches q r \<longleftrightarrow> answer r q \<noteq> aclDecisionNoMatch"

lemma scan_first_match:
  "scan rs q = (case find (matches q) rs of None \<Rightarrow> False | Some r \<Rightarrow> verdict r)"
proof (induction rs)
  case Nil
  show ?case by (simp add: scan_Nil)
next
  case (Cons r rs)
  then show ?case
    using answer_verdict [of r q] by (auto simp: scan_Cons matches_def split: if_splits)
qed

lemma scan_append:
  "scan (rs @ rs') q = (if \<exists>r \<in> set rs. matches q r then scan rs q else scan rs' q)"
  by (induction rs) (auto simp: scan_Cons scan_Nil matches_def)

lemma scan_decided: "matches q r \<Longrightarrow> find (matches q) (rs @ [r]) \<noteq> None"
  by (auto simp: find_None_iff)

end

lemma tryMatch_verdict:
  "tryMatch r a d \<noteq> aclDecisionNoMatch \<Longrightarrow>
     tryMatch r a d = (if rule_allow r then aclDecisionAllow else aclDecisionDeny)"
  by (cases r) (auto simp: Let_def split: if_splits)

lemma hostIsAllowed_Cons:
  "hostIsAllowed (r # rs) d a =
     (if tryMatch r a d = aclDecisionNoMatch then hostIsAllowed rs d a
      else tryMatch r a d = aclDecisionAllow)"
  by (cases "tryMatch r a d") auto

interpretation acl: rule_chain "\<lambda>r (d, a). tryMatch r a d" rule_allow "\<lambda>rs (d, a). hostIsAllowed rs d a"
proof unfold_locales
  fix r :: aclRule and q :: "string \<times> ip"
  assume "(case q of (d, a) \<Rightarrow> tryMatch r a d) \<noteq> aclDecisionNoMatch"
  then show "(case q of (d, a) \<Rightarrow> tryMatch r a d) = (if rule_allow r then aclDecisionAllow else aclDecisionDeny)"
    using tryMatch_verdict by (cases q) auto
qed (auto simp: hostIsAllowed_Cons simp del: hostIsAllowed.simps(2) split: prod.splits)

lemma acl_matches [simp]: "acl.matches (d, a) r \<longleftrightarrow> tryMatch r a d \<noteq> aclDecisionNoMatch"
  by (simp add: acl.matches_def)

lemma hostIsAllowed_first_match:
  "hostIsAllowed rs d a =
     (case find (\<lambda>r. tryMatch r a d \<noteq> aclDecisionNoMatch) rs of None \<Rightarrow> False | Some r \<Rightarrow> rule_allow r)"
  using acl.scan_first_match [of rs "(d, a)"] by (simp add: acl.matches_def [abs_def])

lemma hostIsAllowed_append:
  "hostIsAllowed (rs @ rs') d a =
     (if \<exists>r \<in> set rs. tryMatch r a d \<noteq> aclDecisionNoMatch then hostIsAllowed rs d a
      else hostIsAllowed rs' d a)"
  using acl.scan_append [of rs rs' "(d, a)"] by simp

section \<open>What a rule matches\<close>

lemma tryMatch_domain_iff:
  "tryMatch (aclDomainRule d subs allow) a host \<noteq> aclDecisionNoMatch \<longleftrightarrow>
     (let h = TrimPrefix host ''.'' in h = d \<or> (subs \<and> (\<exists>l. h = l @ ''.'' @ d)))"
  by (auto simp: Let_def HasSuffix_iff)

definition family_form :: "ip \<Rightarrow> ip" where
  "family_form a = (if To4 a \<noteq> [] then To4 a else a)"

lemma family_form_4: "length (family_form a) = 4 \<longleftrightarrow> To4 a \<noteq> []"
  using To4_length [of a] by (auto simp: family_form_def To4_def)

lemma Contains_masked:
  assumes "length b = k" "k = 4 \<or> k = 16" "net = \<lparr>net_IP = map2 (AND) b m, net_Mask = m\<rparr>"
    and "m = CIDRMask n k" and "k = 16 \<Longrightarrow> To4 (map2 (AND) b m) = []"
  shows "IPNet_Contains net a \<longleftrightarrow>
    length (family_form a) = k \<and> take n (ip_bits (family_form a)) = take n (ip_bits b)"
proof -
  have len: "length (map2 (AND) b m) = k" using assms by simp
  have "networkNumberAndMask net = (map2 (AND) b m, m)"
  proof (cases "k = 4")
    case True
    with len have "To4 (map2 (AND) b m) = map2 (AND) b m" and "map2 (AND) b m \<noteq> []"
      by (simp add: To4_def, metis list.size(3) zero_neq_numeral)
    with True len assms(3,4) show ?thesis by (simp only: networkNumberAndMask_def Let_def) simp
  next
    case False
    with len assms show ?thesis by (simp add: networkNumberAndMask_def Let_def)
  qed
  moreover have "map2 (AND) (map2 (AND) b m) m = map2 (AND) b m"
    by (rule map2_AND_idem) (use assms in simp)
  moreover have "map2 (AND) b m = map2 (AND) x m \<longleftrightarrow> take n (ip_bits x) = take n (ip_bits b)"
    if "length x = k" for x
    using CIDRMask_agree [of b k x n] that assms by auto
  ultimately show ?thesis
    using len by (auto simp: IPNet_Contains_def family_form_def Let_def)
qed

definition cidr_net :: "addr \<Rightarrow> nat \<Rightarrow> IPNet" where
  "cidr_net a n =
     (let m = CIDRMask n (BitLen a div 8) in \<lparr>net_IP = IP_Mask (As16 a) m, net_Mask = m\<rparr>)"

lemma ParseCIDR_alt:
  "ParseCIDR s =
     (if CHR ''/'' \<notin> set s then None
      else case ParseAddr (takeWhile (\<lambda>c. c \<noteq> CHR ''/'') s) of
          None \<Rightarrow> None
        | Some a \<Rightarrow>
            (case dtoi (tl (dropWhile (\<lambda>c. c \<noteq> CHR ''/'') s)) 0 0 of
               None \<Rightarrow> None
             | Some (n, i) \<Rightarrow>
                 if i \<noteq> length (tl (dropWhile (\<lambda>c. c \<noteq> CHR ''/'') s)) \<or> BitLen a < n then None
                 else Some (cidr_net a n)))"
  unfolding ParseCIDR_def cidr_net_def Let_def by simp

lemma ParseCIDR_cases:
  assumes "ParseCIDR s = Some net"
  obtains a n where "ParseAddr (takeWhile (\<lambda>c. c \<noteq> CHR ''/'') s) = Some a" "n \<le> BitLen a"
    "net = cidr_net a n"
  using assms by (auto simp: ParseCIDR_alt not_less split: if_splits option.splits intro: that)

text \<open>
  A network written with an IPv4 address contains exactly the IPv4 addresses (in either
  form) that agree with it on the leading \<open>n\<close> bits; one written with an IPv6 address
  contains the addresses that are not IPv4 and agree with it on the leading \<open>n\<close> bits,
  provided its own masked form is not an IPv4-mapped one.
\<close>

lemma ParseAddr_V4_length: "ParseAddr s = Some (V4 b) \<Longrightarrow> length b = 4"
  by (auto simp: ParseAddr_def split: option.splits if_splits dest: parseIPv4Fields_length0)

lemma ParseAddr_V6_length: "ParseAddr s = Some (V6 b) \<Longrightarrow> length b = 16"
  by (auto simp: ParseAddr_def split: option.splits if_splits dest: parseIPv6_length)

lemma cidr_net_V4_Contains:
  assumes "length b = 4"
  shows "IPNet_Contains (cidr_net (V4 b) n) a \<longleftrightarrow>
    To4 a \<noteq> [] \<and> take n (ip_bits (To4 a)) = take n (ip_bits b)"
proof -
  have "IP_Mask (v4InV6Prefix @ b) (CIDRMask n 4) = map2 (AND) b (CIDRMask n 4)"
    using assms by (simp add: IP_Mask_def Let_def)
  then have "IPNet_Contains (cidr_net (V4 b) n) a \<longleftrightarrow>
      length (family_form a) = 4 \<and> take n (ip_bits (family_form a)) = take n (ip_bits b)"
    using assms by (intro Contains_masked) (auto simp: cidr_net_def Let_def)
  then show ?thesis
    by (auto simp: family_form_4) (auto simp: family_form_def)
qed

lemma cidr_net_V6_Contains:
  assumes "length b = 16" and "To4 (map2 (AND) b (CIDRMask n 16)) = []"
  shows "IPNet_Contains (cidr_net (V6 b) n) a \<longleftrightarrow>
    length a = 16 \<and> To4 a = [] \<and> take n (ip_bits a) = take n (ip_bits b)"
proof -
  have "IP_Mask b (CIDRMask n 16) = map2 (AND) b (CIDRMask n 16)"
    using assms by (simp add: IP_Mask_def Let_def)
  then have "IPNet_Contains (cidr_net (V6 b) n) a \<longleftrightarrow>
      length (family_form a) = 16 \<and> take n (ip_bits (family_form a)) = take n (ip_bits b)"
    using assms by (intro Contains_masked) (auto simp: cidr_net_def Let_def)
  then show ?thesis
    using To4_length [of a] by (auto simp: family_form_def)
qed

section \<open>The default rules\<close>

definition v6_loopback :: bytes where
  "v6_loopback = replicate 14 0 @ [0, 1]"

definition v6_link_local :: bytes where
  "v6_link_local = 254 # 128 # replicate 14 0"

lemma default_networks:
  "ParseCIDR ''10.0.0.0/8'' = Some (cidr_net (V4 [10, 0, 0, 0]) 8)"
  "ParseCIDR ''127.0.0.0/8'' = Some (cidr_net (V4 [127, 0, 0, 0]) 8)"
  "ParseCIDR ''172.16.0.0/12'' = Some (cidr_net (V4 [172, 16, 0, 0]) 12)"
  "ParseCIDR ''192.168.0.0/16'' = Some (cidr_net (V4 [192, 168, 0, 0]) 16)"
  "ParseCIDR ''::1/128'' = Some (cidr_net (V6 v6_loopback) 128)"
  "ParseCIDR ''fe80::/10'' = Some (cidr_net (V6 v6_link_local) 10)"
  by (simp_all add: ParseCIDR_alt go_eval v6_loopback_def v6_link_local_def)

lemma newACLRules_default:
  "newACLRules defaultDenied False = Inr
     [aclIPRule (cidr_net (V4 [10, 0, 0, 0]) 8) False,
      aclIPRule (cidr_net (V4 [127, 0, 0, 0]) 8) False,
      aclIPRule (cidr_net (V4 [172, 16, 0, 0]) 12) False,
      aclIPRule (cidr_net (V4 [192, 168, 0, 0]) 16) False,
      aclIPRule (cidr_net (V6 v6_loopback) 128) False,
      aclIPRule (cidr_net (V6 v6_link_local) 10) False]"
  by (simp add: defaultDenied_def newACLRule_def default_networks)

lemma ip_bits_inj:
  assumes "length a = length b"
  shows "ip_bits a = ip_bits b \<longleftrightarrow> a = b"
  using assms by (induction a b rule: list_induct2) (auto simp: byte_eq_iff_bits)

lemma ip_bits_length [simp]: "length (ip_bits a) = 8 * length a"
  by (induction a) (auto simp: ip_bits_def)

definition private_v4 :: "byte \<Rightarrow> byte \<Rightarrow> bool" where
  "private_v4 x y \<longleftrightarrow> x = 10 \<or> x = 127 \<or> (x = 172 \<and> y AND 240 = 16) \<or> (x = 192 \<and> y = 168)"


lemma take_bits_Cons:
  "take (8 + n) (ip_bits (x # a)) = byte_bits x @ take n (ip_bits a)"
  by (simp add: ip_bits_def)

lemma nibble_agree: "take 4 (byte_bits x) = take 4 (byte_bits y) \<longleftrightarrow> x AND 240 = (y AND 240 :: byte)"
proof -
  have "NOT (drop_bit 4 255) = (240 :: byte)" by simp
  with mask_byte_agree [of 4 x y] show ?thesis by (simp only:)
qed

lemma pair_agree: "take 2 (byte_bits x) = take 2 (byte_bits y) \<longleftrightarrow> x AND 192 = (y AND 192 :: byte)"
proof -
  have "NOT (drop_bit 2 255) = (192 :: byte)" by simp
  with mask_byte_agree [of 2 x y] show ?thesis by (simp only:)
qed

lemma default_v4:
  assumes "To4 a = [x, y, z, w]"
  shows "IPNet_Contains (cidr_net (V4 [10, 0, 0, 0]) 8) a \<longleftrightarrow> x = 10"
    and "IPNet_Contains (cidr_net (V4 [127, 0, 0, 0]) 8) a \<longleftrightarrow> x = 127"
    and "IPNet_Contains (cidr_net (V4 [172, 16, 0, 0]) 12) a \<longleftrightarrow> x = 172 \<and> y AND 240 = 16"
    and "IPNet_Contains (cidr_net (V4 [192, 168, 0, 0]) 16) a \<longleftrightarrow> x = 192 \<and> y = 168"
  using assms nibble_agree [of y 16]
    by (simp_all add: cidr_net_V4_Contains byte_eq_iff_bits)


lemma To4_byte10:
  assumes "length x = 16" "x ! 10 \<noteq> 255"
  shows "To4 x = []"
proof -
  have "v4InV6Prefix ! 10 = 255" by (simp add: v4InV6Prefix_def nth_append)
  moreover have "take 12 x ! 10 = x ! 10" by simp
  ultimately have "take 12 x \<noteq> v4InV6Prefix" using assms(2) by metis
  with assms show ?thesis by (simp add: To4_def)
qed

lemma masked_not_v4:
  assumes "length b = 16" "length m = 16" "b ! 10 = 0"
  shows "To4 (map2 (AND) b m) = []"
  using assms by (intro To4_byte10) simp_all

lemma default_v6_lengths [simp]: "length v6_loopback = 16" "length v6_link_local = 16"
  by (simp_all add: v6_loopback_def v6_link_local_def)

lemma default_v6_not_v4:
  "To4 (map2 (AND) v6_loopback (CIDRMask n 16)) = []"
  "To4 (map2 (AND) v6_link_local (CIDRMask n 16)) = []"
  by (rule masked_not_v4; simp add: v6_loopback_def v6_link_local_def nth_append nth_Cons')+

lemma default_v6:
  assumes "length a = 16" "To4 a = []"
  shows "IPNet_Contains (cidr_net (V6 v6_loopback) 128) a \<longleftrightarrow> a = v6_loopback"
    and "IPNet_Contains (cidr_net (V6 v6_link_local) 10) a \<longleftrightarrow> a ! 0 = 254 \<and> a ! 1 AND 192 = 128"
proof -
  show "IPNet_Contains (cidr_net (V6 v6_loopback) 128) a \<longleftrightarrow> a = v6_loopback"
    using assms ip_bits_inj [of a v6_loopback] by (simp add: cidr_net_V6_Contains default_v6_not_v4)
  obtain x y r where a: "a = x # y # r" using assms(1) by (cases a; cases "tl a") auto
  then show "IPNet_Contains (cidr_net (V6 v6_link_local) 10) a \<longleftrightarrow> a ! 0 = 254 \<and> a ! 1 AND 192 = 128"
    using assms pair_agree [of y 128]
    by (simp add: cidr_net_V6_Contains default_v6_not_v4 byte_eq_iff_bits)
      (simp add: v6_link_local_def)
qed

text \<open>An IPv4 literal never matches an IPv6 network and conversely.\<close>

lemma default_cross_family:
  "To4 a = [] \<Longrightarrow> length b = 4 \<Longrightarrow> \<not> IPNet_Contains (cidr_net (V4 b) n) a"
  "To4 a \<noteq> [] \<Longrightarrow> \<not> IPNet_Contains (cidr_net (V6 v6_loopback) 128) a"
  "To4 a \<noteq> [] \<Longrightarrow> \<not> IPNet_Contains (cidr_net (V6 v6_link_local) 10) a"
  by (simp_all add: cidr_net_V4_Contains cidr_net_V6_Contains default_v6_not_v4)

text \<open>
  The rule list \<open>Provision\<close> builds always ends in a rule that answers, so the scan in
  \<open>hostIsAllowed\<close> never reaches the fallback after its loop.
\<close>

definition defaultRules :: "aclRule list" where
  "defaultRules =
     [aclIPRule (cidr_net (V4 [10, 0, 0, 0]) 8) False,
      aclIPRule (cidr_net (V4 [127, 0, 0, 0]) 8) False,
      aclIPRule (cidr_net (V4 [172, 16, 0, 0]) 12) False,
      aclIPRule (cidr_net (V4 [192, 168, 0, 0]) 16) False,
      aclIPRule (cidr_net (V6 v6_loopback) 128) False,
      aclIPRule (cidr_net (V6 v6_link_local) 10) False,
      aclAllRule True]"

lemma provisionACL_iff:
  "provisionACL acl = Inr rules \<longleftrightarrow> (\<exists>ars. configuredRules acl = Inr ars \<and> rules = ars @ defaultRules)"
  by (auto simp: provisionACL_def newACLRules_default defaultRules_def split: sum.splits)

definition default_allows :: "ip \<Rightarrow> bool" where
  "default_allows a =
     (case To4 a of
        [x, y, z, w] \<Rightarrow> \<not> (x = 10 \<or> x = 127 \<or> (x = 172 \<and> y AND 240 = 16) \<or> (x = 192 \<and> y = 168))
      | _ \<Rightarrow> \<not> (length a = 16 \<and> (a = v6_loopback \<or> (a ! 0 = 254 \<and> a ! 1 AND 192 = 128))))"

lemma hostIsAllowed_default: "hostIsAllowed defaultRules host a = default_allows a"
proof (cases "To4 a = []")
  case True
  show ?thesis
  proof (cases "length a = 16")
    case False
    with True show ?thesis
      by (simp add: defaultRules_def default_allows_def default_cross_family cidr_net_V6_Contains
          default_v6_not_v4)
  qed (use True in \<open>simp add: defaultRules_def default_allows_def default_cross_family default_v6\<close>)
next
  case False
  with To4_length [of a] obtain x y z w where v4: "To4 a = [x, y, z, w]"
    by (auto simp: length_Suc_conv numeral_eq_Suc)
  show ?thesis
    using v4 by (simp add: defaultRules_def default_allows_def default_cross_family default_v4)
qed

text \<open>
  (C8) The decision of a provisioned rule list.  If a configured rule matches, the first one
  that does decides.  Otherwise the default policy decides: an IPv4 destination (in either
  form) is refused exactly when it lies in 10.0.0.0/8, 127.0.0.0/8, 172.16.0.0/12 or
  192.168.0.0/16, an IPv6 destination exactly when it is ::1 or lies in fe80::/10, and
  everything else is allowed.
\<close>

theorem provisioned_decision:
  assumes "provisionACL acl = Inr rules" and "configuredRules acl = Inr ars"
  shows "hostIsAllowed rules host a =
    (case find (\<lambda>r. tryMatch r a host \<noteq> aclDecisionNoMatch) ars of
       Some r \<Rightarrow> rule_allow r
     | None \<Rightarrow>
         (case To4 a of
            [x, y, z, w] \<Rightarrow>
              \<not> (x = 10 \<or> x = 127 \<or> (x = 172 \<and> y AND 240 = 16) \<or> (x = 192 \<and> y = 168))
          | _ \<Rightarrow> \<not> (length a = 16 \<and> (a = v6_loopback \<or> (a ! 0 = 254 \<and> a ! 1 AND 192 = 128)))))"
proof -
  have rules: "rules = ars @ defaultRules" using assms by (auto simp: provisionACL_iff)
  show ?thesis
    unfolding rules default_allows_def [symmetric] hostIsAllowed_first_match [of "ars @ defaultRules"]
      hostIsAllowed_default [of host a, symmetric] hostIsAllowed_first_match [of defaultRules]
    by (simp add: find_append split: option.splits)
qed

lemmas rule_eval = newACLRule_def isValidDomainLite_def ldh_char_def is_lower_def is_upper_def
  ParseCIDR_alt HasSuffix_def TrimPrefix_def

theorem provisioned_decision_witness:
  "provisionACL [\<lparr>Subjects = [''*.example.com''], Allow = False\<rparr>] =
     Inr (aclDomainRule ''example.com'' True False # defaultRules) \<and>
   \<not> hostIsAllowed (aclDomainRule ''example.com'' True False # defaultRules) ''www.example.com'' [8, 8, 8, 8] \<and>
   \<not> hostIsAllowed (aclDomainRule ''example.com'' True False # defaultRules) ''a'' [172, 31, 0, 1] \<and>
   hostIsAllowed (aclDomainRule ''example.com'' True False # defaultRules) ''a'' [172, 32, 0, 1]"
proof -
  let ?acl = "[\<lparr>Subjects = [''*.example.com''], Allow = False\<rparr>]"
  let ?r = "aclDomainRule ''example.com'' True False"
  have c: "configuredRules ?acl = Inr [?r]" by (simp add: rule_eval go_eval)
  then have p: "provisionACL ?acl = Inr (?r # defaultRules)" by (simp add: provisionACL_iff)
  show ?thesis
    using p provisioned_decision [OF p c, of "''www.example.com''" "[8, 8, 8, 8]"]
      provisioned_decision [OF p c, of "''a''" "[172, 31, 0, 1]"]
      provisioned_decision [OF p c, of "''a''" "[172, 32, 0, 1]"]
    by (simp add: rule_eval go_eval del: hostIsAllowed.simps)
qed

text \<open>
  A wildcard subject \<open>*.d\<close> with a valid domain \<open>d\<close> becomes a domain rule, and that
  rule matches a host exactly when the host, after an optional leading dot, is \<open>d\<close> itself
  or ends in \<open>.d\<close>: a name such as \<open>faked\<close> that merely ends in the letters of \<open>d\<close> is not
  matched.
\<close>

theorem wildcard_rule_scope:
  assumes "isValidDomainLite d = None"
  shows "\<exists>r. newACLRule (''*.'' @ d) allow = Inr r \<and> rule_allow r = allow \<and>
    (\<forall>host a. tryMatch r a host \<noteq> aclDecisionNoMatch \<longleftrightarrow>
       (let h = TrimPrefix host ''.'' in h = d \<or> (\<exists>l. h = l @ ''.'' @ d)))"
proof -
  have ldh: "\<forall>c \<in> set d. ldh_char c"
    using assms by (auto simp: isValidDomainLite_def find_None_iff split: option.splits)
  then have "CHR ''/'' \<notin> set d"
    by (auto simp: ldh_char_def is_lower_def is_upper_def is_digit_def byte_of_def)
  then have "ParseCIDR (''*.'' @ d) = None" by (simp add: ParseCIDR_def)
  moreover have "ParseIP (''*.'' @ d) = []" by (simp add: go_eval)
  ultimately have "newACLRule (''*.'' @ d) allow = Inr (aclDomainRule d True allow)"
    using assms by (simp add: newACLRule_def To4_def To16_def HasPrefix_def)
  then show ?thesis
    using tryMatch_domain_iff [of d True allow] by (auto simp del: tryMatch.simps)
qed

theorem wildcard_rule_scope_witness:
  "isValidDomainLite ''caddyserver.com'' = None \<and>
   (\<exists>r. newACLRule ''*.caddyserver.com'' True = Inr r \<and>
      tryMatch r [] ''sub.caddyserver.com'' \<noteq> aclDecisionNoMatch \<and>
      tryMatch r [] ''caddyserver.com'' \<noteq> aclDecisionNoMatch)"
proof -
  have v: "isValidDomainLite ''caddyserver.com'' = None" by (simp add: rule_eval go_eval)
  from wildcard_rule_scope [OF v, of True] obtain r where
    "newACLRule (''*.'' @ ''caddyserver.com'') True = Inr r" and
    m: "\<forall>host a. tryMatch r a host \<noteq> aclDecisionNoMatch \<longleftrightarrow>
       (let h = TrimPrefix host ''.'' in
        h = ''caddyserver.com'' \<or> (\<exists>l. h = l @ ''.'' @ ''caddyserver.com''))" by blast
  moreover have "\<exists>l. TrimPrefix ''sub.caddyserver.com'' ''.'' = l @ ''.'' @ ''caddyserver.com''"
    by (rule exI [of _ "''sub''"]) (simp add: TrimPrefix_def HasPrefix_def)
  moreover have "TrimPrefix ''caddyserver.com'' ''.'' = ''caddyserver.com''"
    by (simp add: TrimPrefix_def HasPrefix_def)
  ultimately show ?thesis using v by (auto simp: Let_def)
qed

lemma CIDRMask_32: "CIDRMask 32 16 = [255, 255, 255, 255] @ replicate 12 0"
proof -
  have "CIDRMask 0 k = replicate k 0" for k by (induction k) auto
  moreover have "(16 :: nat) = Suc (Suc (Suc (Suc 12)))" by simp
  ultimately show ?thesis by (simp only: CIDRMask.simps) simp
qed

text \<open>
  An access rule written as an IPv4-mapped IPv6 literal does not cover the address it
  names: the prefix length 32 that \<open>newACLRule\<close> appends for IPv4 is applied to the 128-bit
  form, so the rule covers \<open>::/32\<close>.
\<close>

theorem mapped_literal_rule_misses:
  "\<exists>r. newACLRule ''::ffff:10.1.2.3'' False = Inr r \<and>
     tryMatch r [10, 1, 2, 3] host = aclDecisionNoMatch \<and>
     tryMatch r (v4InV6Prefix @ [10, 1, 2, 3]) host = aclDecisionNoMatch \<and>
     tryMatch r (replicate 15 0 @ [5]) host = aclDecisionDeny"
proof -
  let ?b = "v4InV6Prefix @ [10, 1, 2, 3 :: byte]"
  have r: "newACLRule ''::ffff:10.1.2.3'' False = Inr (aclIPRule (cidr_net (V6 ?b) 32) False)"
    by (simp add: newACLRule_def ParseCIDR_alt go_eval)
  have "CIDRMask 32 16 ! 10 = 0" by (simp add: CIDRMask_32 nth_append)
  then have "To4 (map2 (AND) ?b (CIDRMask 32 16)) = []"
    by (intro To4_byte10) simp_all
  note c = cidr_net_V6_Contains [OF _ this]
  have "To4 (replicate 15 0 @ [5]) = []" by (rule To4_byte10) (simp_all add: nth_append)
  moreover have "To4 ?b = [10, 1, 2, 3]" by (simp add: To4_def)
  moreover have "To4 [10, 1, 2, 3] = [10, 1, 2, 3]" by (simp add: To4_def)
  moreover have "take 32 (ip_bits (replicate 15 0 @ [5])) = take 32 (ip_bits ?b)"
  proof -
    have "replicate 15 (0 :: byte) = [0, 0, 0, 0] @ replicate 11 0"
      and "replicate 10 (0 :: byte) = [0, 0, 0, 0] @ replicate 6 0" by (simp_all add: numeral_eq_Suc)
    then show ?thesis by (simp only: v4InV6Prefix_def append_assoc append_Cons append_Nil) simp
  qed
  ultimately show ?thesis
    using r by (intro exI [of _ "aclIPRule (cidr_net (V6 ?b) 32) False"]) (simp add: c)
qed

end
