(* ===== verification/Go_Http.thy ===== *)
theory Go_Http
  imports Go_Strings
begin

text \<open>
  The parts of Go's \<open>net/http\<close>, \<open>net/textproto\<close> and \<open>net/url\<close> packages the proxy calls.
  A header is a map from keys to value lists, as in Go; \<open>Get\<close>, \<open>Set\<close>, \<open>Add\<close> and
  \<open>Del\<close> canonicalise the key, direct indexing does not.
\<close>

section \<open>Headers\<close>

type_synonym header = "string \<Rightarrow> string list option"

text \<open>\<open>validHeaderFieldByte\<close>: the token characters of RFC 7230.\<close>

definition token_char :: "char \<Rightarrow> bool" where
  "token_char c \<longleftrightarrow> is_digit c \<or> is_lower c \<or> is_upper c \<or> c \<in> set ''!#$%&*+-.^_`|~'' \<or> byte_of c = 39"

fun canonical :: "bool \<Rightarrow> string \<Rightarrow> string" where
  "canonical upper [] = []"
| "canonical upper (c # s) =
     (if upper then ascii_upper c else ascii_lower c) # canonical (c = CHR ''-'') s"

definition CanonicalHeaderKey :: "string \<Rightarrow> string" where
  "CanonicalHeaderKey s = (if list_all token_char s then canonical True s else s)"

definition Header_Get :: "header \<Rightarrow> string \<Rightarrow> string" where
  "Header_Get h k = (case h (CanonicalHeaderKey k) of Some (v # _) \<Rightarrow> v | _ \<Rightarrow> [])"

definition Header_Set :: "header \<Rightarrow> string \<Rightarrow> string \<Rightarrow> header" where
  "Header_Set h k v = h(CanonicalHeaderKey k \<mapsto> [v])"

definition Header_Add :: "header \<Rightarrow> string \<Rightarrow> string \<Rightarrow> header" where
  "Header_Add h k v =
     h(CanonicalHeaderKey k \<mapsto> (case h (CanonicalHeaderKey k) of None \<Rightarrow> [] | Some vs \<Rightarrow> vs) @ [v])"

definition Header_Del :: "header \<Rightarrow> string \<Rightarrow> header" where
  "Header_Del h k = h(CanonicalHeaderKey k := None)"

section \<open>URLs\<close>

record url =
  Scheme :: string
  User :: "(string \<times> string option) option"
  url_Host :: string
  Path :: string
  RawPath :: string
  RawQuery :: string
  ForceQuery :: bool
  Fragment :: string

definition unhex :: "char \<Rightarrow> nat option" where
  "unhex c =
     (if is_digit c then Some (byte_of c - 48)
      else if 97 \<le> byte_of c \<and> byte_of c \<le> 102 then Some (byte_of c - 87)
      else if 65 \<le> byte_of c \<and> byte_of c \<le> 70 then Some (byte_of c - 55)
      else None)"

text \<open>\<open>url.PathUnescape\<close>; \<open>None\<close> is an \<open>EscapeError\<close>.\<close>

fun PathUnescape :: "string \<Rightarrow> string option" where
  "PathUnescape [] = Some []"
| "PathUnescape (c # s) =
     (if c = CHR ''%'' then
        (case s of
           a # b # r \<Rightarrow>
             (case (unhex a, unhex b) of
                (Some x, Some y) \<Rightarrow> map_option (\<lambda>t. char_of (x * 16 + y) # t) (PathUnescape r)
              | _ \<Rightarrow> None)
         | _ \<Rightarrow> None)
      else map_option ((#) c) (PathUnescape s))"

definition unreserved :: "char \<Rightarrow> bool" where
  "unreserved c \<longleftrightarrow> is_digit c \<or> is_lower c \<or> is_upper c \<or> c \<in> set ''-_.~''"

text \<open>\<open>shouldEscape\<close> in mode \<open>encodePath\<close>, \<open>validEncoded\<close> and \<open>escape\<close> in the same mode.\<close>

definition shouldEscape :: "char \<Rightarrow> bool" where
  "shouldEscape c \<longleftrightarrow> \<not> (unreserved c \<or> c \<in> set ''$&+,/:;=@'')"

definition validEncoded :: "string \<Rightarrow> bool" where
  "validEncoded s \<longleftrightarrow>
     list_all (\<lambda>c. c \<in> set ''!$&()*+,;=:@[]%'' \<or> byte_of c = 39 \<or> \<not> shouldEscape c) s"

definition upper_hex :: "nat \<Rightarrow> char" where
  "upper_hex d = (if d < 10 then char_of (48 + d) else char_of (55 + d))"

definition escape :: "string \<Rightarrow> string" where
  "escape s =
     concat (map (\<lambda>c. if shouldEscape c
        then [CHR ''%'', upper_hex (byte_of c div 16), upper_hex (byte_of c mod 16)] else [c]) s)"

definition EscapedPath :: "url \<Rightarrow> string" where
  "EscapedPath u =
     (if RawPath u \<noteq> [] \<and> validEncoded (RawPath u) \<and> PathUnescape (RawPath u) = Some (Path u)
      then RawPath u
      else if Path u = ''*'' then ''*'' else escape (Path u))"

text \<open>\<open>URL.Hostname\<close> and \<open>URL.Port\<close>.\<close>

definition url_Hostname :: "url \<Rightarrow> string" where
  "url_Hostname u =
     (let hp = url_Host u;
          host = (case LastIndexByte hp CHR '':'' of
                    Some i \<Rightarrow> if list_all is_digit (drop (Suc i) hp) then take i hp else hp
                  | None \<Rightarrow> hp)
      in if HasPrefix host ''['' \<and> HasSuffix host '']'' then butlast (tl host) else host)"

definition url_Port :: "url \<Rightarrow> string" where
  "url_Port u =
     (case LastIndexByte (url_Host u) CHR '':'' of
        None \<Rightarrow> []
      | Some i \<Rightarrow> if list_all is_digit (drop (Suc i) (url_Host u)) then drop (Suc i) (url_Host u) else [])"

section \<open>Requests and responses\<close>

text \<open>The fields of \<open>http.Request\<close> the proxy reads or writes; \<open>URL\<close> may be nil.\<close>

record request =
  Method :: string
  URL :: "url option"
  Proto :: string
  ProtoMajor :: int
  ProtoMinor :: int
  Header :: header
  Host :: string
  RemoteAddr :: string
  RequestURI :: string

abbreviation StatusOK :: int where "StatusOK \<equiv> 200"
abbreviation StatusBadRequest :: int where "StatusBadRequest \<equiv> 400"
abbreviation StatusForbidden :: int where "StatusForbidden \<equiv> 403"
abbreviation StatusProxyAuthRequired :: int where "StatusProxyAuthRequired \<equiv> 407"
abbreviation StatusInternalServerError :: int where "StatusInternalServerError \<equiv> 500"
abbreviation StatusNotImplemented :: int where "StatusNotImplemented \<equiv> 501"
abbreviation StatusBadGateway :: int where "StatusBadGateway \<equiv> 502"
abbreviation StatusServiceUnavailable :: int where "StatusServiceUnavailable \<equiv> 503"
abbreviation StatusGatewayTimeout :: int where "StatusGatewayTimeout \<equiv> 504"
abbreviation StatusHTTPVersionNotSupported :: int where "StatusHTTPVersionNotSupported \<equiv> 505"

section \<open>Facts\<close>

lemma Header_Get_Set [simp]: "Header_Get (Header_Set h k v) k = v"
  by (simp add: Header_Get_def Header_Set_def)

lemma Header_Del_absent [simp]: "Header_Del h k (CanonicalHeaderKey k) = None"
  by (simp add: Header_Del_def)

lemma Header_Del_other: "CanonicalHeaderKey k \<noteq> k' \<Longrightarrow> Header_Del h k k' = h k'"
  by (simp add: Header_Del_def)

lemma Header_Del_None: "h k' = None \<Longrightarrow> Header_Del h k k' = None"
  by (simp add: Header_Del_def)

end
