(* ===== verification/Go_Errors.thy ===== *)
theory Go_Errors
  imports Go_Net
begin

text \<open>
  Error values.  The constructors are the errors the proxy creates, compares or unwraps;
  \<open>NetError\<close> stands for any \<open>net.Error\<close> of the resolver or dialer and carries the answer
  of its \<open>Timeout\<close> method, \<open>ErrorString\<close> for any error without further structure.
\<close>

datatype targetPolicyFailureKind =
    targetPolicyMalformed
  | targetPolicyPortDenied
  | targetPolicyDomainDenied
  | targetPolicyLookupFailed
  | targetPolicyNoAllowedAddress

datatype goerror =
    AddrError addr_error
  | ContextDeadlineExceeded
  | ContextCanceled
  | NetError bool
  | ErrTCPDialFailed
  | ErrConnectUDPMalformed
  | ErrConnectUDPUnsupported
  | ErrConnectUDPResourceLimit
  | ErrConnectUDPDial
  | ErrConnectUDPClosed
  | ErrHTTP3StreamUnavailable
  | ErrShortWrite
  | ErrUnexpectedEOF
  | EOF
  | ErrDatagramTooLarge
  | TargetPolicyFailure targetPolicyFailureKind "goerror option"
  | HandlerError int goerror
  | ErrorString string
  | Errorf string goerror

text \<open>\<open>errors.Is(err, context.DeadlineExceeded)\<close> and \<open>errors.Is(err, context.Canceled)\<close>:
  the error itself or what it unwraps to.\<close>

fun Is_DeadlineExceeded :: "goerror \<Rightarrow> bool" where
  "Is_DeadlineExceeded ContextDeadlineExceeded = True"
| "Is_DeadlineExceeded (TargetPolicyFailure k (Some e)) = Is_DeadlineExceeded e"
| "Is_DeadlineExceeded (HandlerError s e) = Is_DeadlineExceeded e"
| "Is_DeadlineExceeded _ = False"

fun Is_Canceled :: "goerror \<Rightarrow> bool" where
  "Is_Canceled ContextCanceled = True"
| "Is_Canceled (TargetPolicyFailure k (Some e)) = Is_Canceled e"
| "Is_Canceled (HandlerError s e) = Is_Canceled e"
| "Is_Canceled _ = False"

text \<open>\<open>errors.As(err, &netErr)\<close> for \<open>net.Error\<close>, and then \<open>netErr.Timeout()\<close>.\<close>

fun As_netError :: "goerror \<Rightarrow> bool option" where
  "As_netError (AddrError e) = Some False"
| "As_netError ContextDeadlineExceeded = Some True"
| "As_netError (NetError t) = Some t"
| "As_netError (TargetPolicyFailure k (Some e)) = As_netError e"
| "As_netError (HandlerError s e) = As_netError e"
| "As_netError _ = None"

text \<open>\<open>errors.As(err, &policy)\<close> for \<open>*targetPolicyFailure\<close>.\<close>

fun As_policyFailure :: "goerror \<Rightarrow> (targetPolicyFailureKind \<times> goerror option) option" where
  "As_policyFailure (TargetPolicyFailure k c) = Some (k, c)"
| "As_policyFailure (HandlerError s e) = As_policyFailure e"
| "As_policyFailure _ = None"

text \<open>The status a returned error carries: \<open>caddyhttp.Error\<close> attaches one.\<close>

fun error_status :: "goerror \<Rightarrow> int option" where
  "error_status (HandlerError s e) = Some s"
| "error_status _ = None"

end
