(* ===== verification/Handler_State.thy ===== *)
theory Handler_State
  imports Acl Go_Http Go_Errors
begin

text \<open>
  The state of the proxy handler (\<open>type Handler\<close> in \<open>forwardproxy.go\<close>): its
  configuration, what \<open>Provision\<close> derives from it and the CONNECT-UDP admission counters.
  The function-valued fields (resolvers and dialers) are arguments of the operations that
  call them.  A duration is a number of nanoseconds.
\<close>

record handler =
  PACPath :: string
  HideIP :: bool
  HideVia :: bool
  DisableInsecureUpstreamsCheck :: bool
  Hosts :: "string list"
  ProbeResistance :: "string option"
  DialTimeout :: int
  MaxIdleConns :: int
  MaxIdleConnsPerHost :: int
  Upstream :: string
  ACL :: "ACLRule list"
  AllowedPorts :: "int list"
  upstream :: "url option"
  connectUDPActive :: int
  connectUDPByClient :: "string \<Rightarrow> int option"
  connectUDPNextID :: "64 word"
  connectUDPMaxActive :: int
  connectUDPMaxClientActive :: int
  connectUDPIdleTimeout :: int
  aclRules :: "aclRule list"
  AuthCredentials :: "string list option"

text \<open>The zero value of the struct.\<close>

definition new_handler :: handler where
  "new_handler = \<lparr>
     PACPath = [], HideIP = False, HideVia = False, DisableInsecureUpstreamsCheck = False,
     Hosts = [], ProbeResistance = None, DialTimeout = 0, MaxIdleConns = 0,
     MaxIdleConnsPerHost = 0, Upstream = [], ACL = [], AllowedPorts = [], upstream = None,
     connectUDPActive = 0, connectUDPByClient = Map.empty, connectUDPNextID = 0,
     connectUDPMaxActive = 0, connectUDPMaxClientActive = 0, connectUDPIdleTimeout = 0,
     aclRules = [], AuthCredentials = None\<rparr>"

abbreviation second :: int where "second \<equiv> 1000000000"
abbreviation millisecond :: int where "millisecond \<equiv> 1000000"

end
