(* ===== verification/Target_Policy.thy ===== *)
theory Target_Policy
  imports Handler_State
begin

text \<open>
  The target policy shared by the TCP and CONNECT-UDP paths (\<open>native_udp_protocol.go\<close>):
  the checks before any resolution, the resolution with its address filter, and the
  mapping of failures to HTTP errors.
\<close>

section \<open>Operations\<close>

fun statusCode :: "targetPolicyFailureKind \<Rightarrow> int" where
  "statusCode targetPolicyMalformed = StatusBadRequest"
| "statusCode targetPolicyLookupFailed = StatusBadGateway"
| "statusCode _ = StatusForbidden"

text \<open>The loop over the domain rules: \<open>True\<close> is a denial.\<close>

fun domainDenied :: "aclRule list \<Rightarrow> string \<Rightarrow> bool" where
  "domainDenied [] host = False"
| "domainDenied (rule # rules) host =
     (case rule of
        aclDomainRule d s a \<Rightarrow>
          (case tryMatch rule [] host of
             aclDecisionDeny \<Rightarrow> True
           | aclDecisionAllow \<Rightarrow> False
           | aclDecisionNoMatch \<Rightarrow> domainDenied rules host)
      | _ \<Rightarrow> domainDenied rules host)"

type_synonym policy_failure = "targetPolicyFailureKind \<times> goerror option"

definition prepareTargetPolicy ::
  "handler \<Rightarrow> string \<Rightarrow> string \<times> string \<times> policy_failure option" where
  "prepareTargetPolicy h hostPort =
     (case SplitHostPort hostPort of
        Inl err \<Rightarrow> ([], [], Some (targetPolicyMalformed, Some (AddrError err)))
      | Inr (host, port) \<Rightarrow>
          if \<not> portIsAllowed (AllowedPorts h) port then (host, port, Some (targetPolicyPortDenied, None))
          else if domainDenied (aclRules h) host then (host, port, Some (targetPolicyDomainDenied, None))
          else (host, port, None))"

record resolvedTarget =
  target_host :: string
  target_port :: string
  addresses :: "string list"

text \<open>The address loop of \<open>resolveTargetCheckACL\<close>, with the set of strings seen.\<close>

fun resolveAddresses ::
  "aclRule list \<Rightarrow> string \<Rightarrow> string \<Rightarrow> ip list \<Rightarrow> string set \<Rightarrow> string list \<Rightarrow> string list" where
  "resolveAddresses rules host port [] seen result = result"
| "resolveAddresses rules host port (a # as) seen result =
     (if a = [] \<or> \<not> hostIsAllowed rules host a then resolveAddresses rules host port as seen result
      else let address = JoinHostPort (IP_String a) port in
        if address \<in> seen then resolveAddresses rules host port as seen result
        else resolveAddresses rules host port as (insert address seen) (result @ [address]))"

definition resolveTargetCheckACL ::
  "handler \<Rightarrow> (string \<Rightarrow> goerror + ip list) \<Rightarrow> string \<Rightarrow> policy_failure + resolvedTarget" where
  "resolveTargetCheckACL h lookup hostPort =
     (case prepareTargetPolicy h hostPort of
        (host, port, Some failure) \<Rightarrow> Inl failure
      | (host, port, None) \<Rightarrow>
          (case lookup host of
             Inl err \<Rightarrow> Inl (targetPolicyLookupFailed, Some err)
           | Inr ipAddresses \<Rightarrow>
               let as = resolveAddresses (aclRules h) host port ipAddresses {} [] in
               if length as = 0 then Inl (targetPolicyNoAllowedAddress, None)
               else Inr \<lparr>target_host = host, target_port = port, addresses = as\<rparr>))"

definition legacyTargetPolicyError :: "policy_failure \<Rightarrow> string \<Rightarrow> string \<Rightarrow> goerror" where
  "legacyTargetPolicyError failure host port =
     (let nil = ErrorString ''<nil>''; cause = (case snd failure of None \<Rightarrow> nil | Some e \<Rightarrow> e) in
      case fst failure of
        targetPolicyMalformed \<Rightarrow> HandlerError StatusBadRequest cause
      | targetPolicyPortDenied \<Rightarrow>
          HandlerError StatusForbidden (ErrorString (''port '' @ port @ '' is not allowed''))
      | targetPolicyDomainDenied \<Rightarrow>
          HandlerError StatusForbidden (ErrorString (''disallowed host '' @ host))
      | targetPolicyLookupFailed \<Rightarrow>
          HandlerError StatusBadGateway (Errorf (''lookup of '' @ host @ '' failed: '') cause)
      | targetPolicyNoAllowedAddress \<Rightarrow>
          HandlerError StatusForbidden (ErrorString (''no allowed IP addresses for '' @ host)))"

section \<open>Filtering without duplicates\<close>

text \<open>
  Both users of the policy keep the candidates that pass a test, in resolver order and
  without repeating a printed address.  The contract below is that loop; its lemmas say
  that the result is the first occurrence of every kept candidate.
\<close>

fun first_occurrences :: "'b set \<Rightarrow> 'b list \<Rightarrow> 'b list" where
  "first_occurrences seen [] = []"
| "first_occurrences seen (x # xs) =
     (if x \<in> seen then first_occurrences seen xs else x # first_occurrences (insert x seen) xs)"

lemma set_first_occurrences: "set (first_occurrences seen xs) = set xs - seen"
  by (induction seen xs rule: first_occurrences.induct) auto

lemma distinct_first_occurrences: "distinct (first_occurrences seen xs)"
  by (induction seen xs rule: first_occurrences.induct) (auto simp: set_first_occurrences)

locale candidate_filter =
  fixes keep :: "'a \<Rightarrow> bool" and render :: "'a \<Rightarrow> 'b"
    and loop :: "'a list \<Rightarrow> 'b set \<Rightarrow> 'b list \<Rightarrow> 'b list"
  assumes loop_Nil: "loop [] seen acc = acc"
    and loop_skip: "\<not> keep x \<or> render x \<in> seen \<Longrightarrow> loop (x # xs) seen acc = loop xs seen acc"
    and loop_admit: "keep x \<Longrightarrow> render x \<notin> seen \<Longrightarrow>
      loop (x # xs) seen acc = loop xs (insert (render x) seen) (acc @ [render x])"
begin

lemma loop_eq: "loop xs seen acc = acc @ first_occurrences seen (map render (filter keep xs))"
proof (induction xs arbitrary: seen acc)
  case (Cons x xs)
  then show ?case
    by (cases "keep x \<and> render x \<notin> seen") (auto simp: loop_skip loop_admit)
qed (simp add: loop_Nil)

lemma loop_set: "set (loop xs {} []) = render ` {x \<in> set xs. keep x}"
  by (simp add: loop_eq set_first_occurrences image_image)

lemma loop_distinct: "distinct (loop xs {} [])"
  by (simp add: loop_eq distinct_first_occurrences)

end

interpretation udp: candidate_filter
  "\<lambda>a. a \<noteq> [] \<and> hostIsAllowed rules host a" "\<lambda>a. JoinHostPort (IP_String a) port"
  "resolveAddresses rules host port"
  for rules host port
  by unfold_locales (auto simp: Let_def)

section \<open>Domain rules\<close>

definition is_domain_rule :: "aclRule \<Rightarrow> bool" where
  "is_domain_rule r \<longleftrightarrow> (case r of aclDomainRule d s a \<Rightarrow> True | _ \<Rightarrow> False)"

text \<open>The pre-check asks the domain rules only, in their order.\<close>

lemma domainDenied_first_match:
  "domainDenied rules host =
     (case find (\<lambda>r. is_domain_rule r \<and> tryMatch r [] host \<noteq> aclDecisionNoMatch) rules of
        None \<Rightarrow> False | Some r \<Rightarrow> \<not> rule_allow r)"
proof (induction rules)
  case (Cons r rs)
  show ?case
  proof (cases r)
    case (aclDomainRule d s a)
    then have "is_domain_rule r" by (simp add: is_domain_rule_def)
    with aclDomainRule Cons tryMatch_verdict [of r "[]" host] show ?thesis
      by (cases "tryMatch r [] host") (simp_all del: tryMatch.simps split: if_splits)
  qed (use Cons in \<open>simp_all add: is_domain_rule_def\<close>)
qed simp

lemma domainDenied_append_other:
  "\<forall>r \<in> set rs. \<not> is_domain_rule r \<Longrightarrow> domainDenied (rs @ rs') host = domainDenied rs' host"
  by (induction rs) (auto simp: is_domain_rule_def split: aclRule.splits)

lemma tryMatch_domain_ip: "is_domain_rule r \<Longrightarrow> tryMatch r a host = tryMatch r b host"
  by (cases r) (auto simp: is_domain_rule_def)

section \<open>Ports\<close>

lemma portIsAllowed_iff:
  "portIsAllowed ps port \<longleftrightarrow>
     (\<exists>n. Atoi port = Some n \<and> 0 < n \<and> n \<le> 65535 \<and> (ps = [] \<or> n \<in> set ps))"
  by (auto simp: portIsAllowed_def list_ex_iff split: option.splits)

lemma Atoi_chars: "Atoi s = Some n \<Longrightarrow> c \<in> set s \<Longrightarrow> is_digit c \<or> c = CHR ''+'' \<or> c = CHR ''-''"
  by (cases s) (auto simp: Atoi_def Let_def list_all_iff split: if_splits)

lemma portIsAllowed_chars:
  assumes "portIsAllowed ps port"
  shows "CHR ''['' \<notin> set port" "CHR '']'' \<notin> set port" "CHR '':'' \<notin> set port"
proof -
  from assms obtain n where n: "Atoi port = Some n" by (auto simp: portIsAllowed_iff)
  have "c \<notin> set port" if "\<not> is_digit c" "c \<noteq> CHR ''+''" "c \<noteq> CHR ''-''" for c
    using that Atoi_chars [OF n] by blast
  then show "CHR ''['' \<notin> set port" "CHR '']'' \<notin> set port" "CHR '':'' \<notin> set port"
    by (simp_all add: is_digit_def byte_of_def)
qed

section \<open>Properties\<close>

lemma resolveTargetCheckACL_Inr:
  "resolveTargetCheckACL h lookup hp = Inr t \<longleftrightarrow>
     (\<exists>host port ips as. SplitHostPort hp = Inr (host, port) \<and> lookup host = Inr ips \<and>
        portIsAllowed (AllowedPorts h) port \<and> \<not> domainDenied (aclRules h) host \<and>
        as = resolveAddresses (aclRules h) host port ips {} [] \<and> as \<noteq> [] \<and>
        t = \<lparr>target_host = host, target_port = port, addresses = as\<rparr>)"
  by (auto simp: resolveTargetCheckACL_def prepareTargetPolicy_def Let_def
      split: sum.splits if_splits option.splits prod.splits)

lemma resolved_target_facts:
  assumes "resolveTargetCheckACL h lookup hp = Inr t"
    and "lookup (target_host t) = Inr ips" and "\<forall>a \<in> set ips. length a \<in> {0, 4, 16}"
  shows "SplitHostPort hp = Inr (target_host t, target_port t) \<and>
    portIsAllowed (AllowedPorts h) (target_port t) \<and>
    \<not> domainDenied (aclRules h) (target_host t) \<and>
    distinct (addresses t) \<and> addresses t \<noteq> [] \<and>
    set (addresses t) = (\<lambda>a. JoinHostPort (IP_String a) (target_port t)) `
      {a \<in> set ips. a \<noteq> [] \<and> hostIsAllowed (aclRules h) (target_host t) a} \<and>
    (\<forall>address \<in> set (addresses t). \<exists>a \<in> set ips. hostIsAllowed (aclRules h) (target_host t) a \<and>
       SplitHostPort address = Inr (IP_String a, target_port t) \<and> ParseIP (IP_String a) = To16 a)"
proof -
  from assms(1) obtain host port ips' where
    t: "SplitHostPort hp = Inr (host, port)" "lookup host = Inr ips'"
      "portIsAllowed (AllowedPorts h) port" "\<not> domainDenied (aclRules h) host"
      "resolveAddresses (aclRules h) host port ips' {} [] \<noteq> []"
      "t = \<lparr>target_host = host, target_port = port,
            addresses = resolveAddresses (aclRules h) host port ips' {} []\<rparr>"
    unfolding resolveTargetCheckACL_Inr by blast
  with assms(2) have ips: "ips' = ips" by simp
  have recover: "SplitHostPort (JoinHostPort (IP_String a) port) = Inr (IP_String a, port) \<and>
      ParseIP (IP_String a) = To16 a" if "a \<in> set ips" "a \<noteq> []" for a
    using that assms(3) t(3) by (auto simp: SplitHostPort_candidate ParseIP_IP_String portIsAllowed_chars)
  show ?thesis
    using t ips udp.loop_set [of "aclRules h" host port ips] udp.loop_distinct [of "aclRules h" host port ips]
    by (auto simp: recover)
qed

text \<open>
  (C6) A resolved CONNECT-UDP target holds exactly the approved addresses of one lookup: the
  port is allowed, no domain rule refuses the host, and the addresses are, without
  repetition, the printed form of those lookup results that are not nil and that the access
  rules allow.  Each of them splits and parses back to the very address that was checked, so
  dialing it involves no further name resolution.
\<close>

theorem resolved_target_approved:
  assumes "resolveTargetCheckACL h lookup hp = Inr t"
    and "lookup (target_host t) = Inr ips" and "\<forall>a \<in> set ips. length a \<in> {0, 4, 16}"
  shows "SplitHostPort hp = Inr (target_host t, target_port t) \<and>
    portIsAllowed (AllowedPorts h) (target_port t) \<and>
    \<not> domainDenied (aclRules h) (target_host t) \<and>
    distinct (addresses t) \<and> addresses t \<noteq> [] \<and>
    set (addresses t) = (\<lambda>a. JoinHostPort (IP_String a) (target_port t)) `
      {a \<in> set ips. a \<noteq> [] \<and> hostIsAllowed (aclRules h) (target_host t) a} \<and>
    (\<forall>address \<in> set (addresses t). \<exists>a \<in> set ips. hostIsAllowed (aclRules h) (target_host t) a \<and>
       SplitHostPort address = Inr (IP_String a, target_port t) \<and> ParseIP (IP_String a) = To16 a)"
  using assms by (rule resolved_target_facts)

lemmas policy_eval = SplitHostPort_def LastIndexByte_def portIsAllowed_def Atoi_def max_int_def
  JoinHostPort_def IP_String_def ipv4_string_def nat_digits_1 nat_digits_2 nat_digits_3

definition sample_handler :: handler where
  "sample_handler = new_handler\<lparr>aclRules := defaultRules\<rparr>"

lemma domainDenied_defaultRules [simp]: "\<not> domainDenied defaultRules host"
  by (simp add: defaultRules_def)

lemma sample_resolution:
  "resolveTargetCheckACL sample_handler (\<lambda>_. Inr [[93, 184, 216, 34], [10, 0, 0, 1], []]) ''a.b:443'' =
     Inr \<lparr>target_host = ''a.b'', target_port = ''443'', addresses = [''93.184.216.34:443'']\<rparr>"
  by (simp add: resolveTargetCheckACL_def prepareTargetPolicy_def sample_handler_def new_handler_def
      hostIsAllowed_default default_allows_def policy_eval go_eval)

theorem resolved_target_approved_witness:
  "portIsAllowed (AllowedPorts sample_handler) ''443'' \<and>
   set [''93.184.216.34:443''] = (\<lambda>a. JoinHostPort (IP_String a) ''443'') `
     {a \<in> set [[93, 184, 216, 34], [10, 0, 0, 1], []].
        a \<noteq> [] \<and> hostIsAllowed (aclRules sample_handler) ''a.b'' a}"
proof -
  let ?ips = "[[93, 184, 216, 34], [10, 0, 0, 1], []] :: ip list"
  have "\<forall>a \<in> set ?ips. length a \<in> {0, 4, 16}" by simp
  from resolved_target_approved [OF sample_resolution _ this]
  show ?thesis by (simp only: resolvedTarget.simps)
qed

text \<open>
  The two mappings of a policy failure to an HTTP status agree: the status that the TCP
  path attaches through \<open>legacyTargetPolicyError\<close> is the one the CONNECT-UDP path takes
  from \<open>statusCode\<close>, for every kind of failure, cause, host and port.
\<close>

theorem policy_status_agree:
  "error_status (legacyTargetPolicyError failure host port) = Some (statusCode (fst failure))"
  by (cases failure; cases "fst failure") (auto simp: legacyTargetPolicyError_def Let_def)

text \<open>
  A domain denial is final whatever rules precede it that are not domain rules: if the
  first domain rule that matches the host denies, the target is refused before resolution,
  even when an earlier address or \<open>all\<close> rule makes the full scan allow the destination.
\<close>

theorem domain_denial_overrides_order:
  assumes "\<forall>r \<in> set front. \<not> is_domain_rule r"
    and "SplitHostPort hp = Inr (host, port)" and "portIsAllowed (AllowedPorts h) port"
    and "aclRules h = front @ aclAllRule True # aclDomainRule d subs False # rest"
    and "TrimPrefix host ''.'' = d"
  shows "prepareTargetPolicy h hp = (host, port, Some (targetPolicyDomainDenied, None)) \<and>
    ((\<forall>r \<in> set front. tryMatch r a host = aclDecisionNoMatch) \<longrightarrow> hostIsAllowed (aclRules h) host a)"
proof -
  have "domainDenied (aclRules h) host"
    using assms(1,4,5) by (simp add: domainDenied_append_other Let_def)
  then show ?thesis
    using assms(2,3,4) by (auto simp: prepareTargetPolicy_def hostIsAllowed_append)
qed

theorem domain_denial_overrides_order_witness:
  "prepareTargetPolicy (new_handler\<lparr>aclRules := [aclAllRule True, aclDomainRule ''evil.com'' False False]\<rparr>)
     ''evil.com:443'' = (''evil.com'', ''443'', Some (targetPolicyDomainDenied, None)) \<and>
   hostIsAllowed [aclAllRule True, aclDomainRule ''evil.com'' False False] ''evil.com'' [1, 2, 3, 4]"
  using domain_denial_overrides_order [of "[]" "''evil.com:443''" "''evil.com''" "''443''"
      "new_handler\<lparr>aclRules := [aclAllRule True, aclDomainRule ''evil.com'' False False]\<rparr>"
      "''evil.com''" False "[]" "[1, 2, 3, 4]"]
  by (simp add: new_handler_def policy_eval TrimPrefix_def go_eval)

text \<open>
  Domain rules compare host names byte by byte, and the TCP path does not canonicalise
  the host it was given: a host that differs from a denied domain only in letter case, or by
  a trailing dot, passes the domain check.
\<close>

theorem domain_denial_case_sensitive:
  "newACLRule ''example.com'' False = Inr (aclDomainRule ''example.com'' False False) \<and>
   domainDenied [aclDomainRule ''example.com'' False False] ''example.com'' \<and>
   \<not> domainDenied [aclDomainRule ''example.com'' False False] ''EXAMPLE.com'' \<and>
   \<not> domainDenied [aclDomainRule ''example.com'' False False] ''example.com.'' \<and>
   hostIsAllowed (aclDomainRule ''example.com'' False False # defaultRules) ''EXAMPLE.com'' [8, 8, 8, 8]"
  by (simp add: rule_eval go_eval hostIsAllowed_default default_allows_def)

end
