(* ===== verification/Tcp_Feed.thy ===== *)
theory Tcp_Feed
  imports Target_Policy
begin

text \<open>
  The candidate order of the TCP races: \<open>interleaveTCPAddresses\<close> and \<open>tcpDialError\<close> of
  \<open>connect_dial.go\<close>, and the feed through which the lookups of the two address families admit
  candidates (\<open>tcpFamilyFeed\<close> and the \<open>resolve\<close> closure of \<open>connect_dial_incremental.go\<close>).
\<close>

section \<open>Errors and static order\<close>

definition tcpDialError :: "goerror option \<Rightarrow> goerror" where
  "tcpDialError err =
     (if (\<exists>e \<in> set_option err. Is_DeadlineExceeded e \<or> As_netError e = Some True)
      then HandlerError StatusGatewayTimeout (ErrorString ''target connection timed out'')
      else HandlerError StatusBadGateway ErrTCPDialFailed)"

text \<open>The first loop of \<open>interleaveTCPAddresses\<close>, on the two lists so far.\<close>

fun split_families ::
  "string \<Rightarrow> string list \<Rightarrow> string list \<Rightarrow> string list \<Rightarrow> bool \<Rightarrow> string list \<times> string list" where
  "split_families network [] primary fallback primaryV4 = (primary, fallback)"
| "split_families network (address # rest) primary fallback primaryV4 =
     (case SplitHostPort address of
        Inl _ \<Rightarrow> split_families network rest primary fallback primaryV4
      | Inr (host, _) \<Rightarrow>
          let ip = ParseIP host; v4 = (To4 ip \<noteq> []) in
          if ip = [] then split_families network rest primary fallback primaryV4
          else if network = ''tcp4'' \<and> \<not> v4 \<or> network = ''tcp6'' \<and> v4
          then split_families network rest primary fallback primaryV4
          else
            let pv4 = (if length primary = 0 then v4 else primaryV4) in
            if v4 = pv4 then split_families network rest (primary @ [address]) fallback pv4
            else split_families network rest primary (fallback @ [address]) pv4)"

definition interleaveTCPAddresses :: "string \<Rightarrow> string list \<Rightarrow> string list" where
  "interleaveTCPAddresses network addrs =
     (case split_families network addrs [] [] False of
        (primary, fallback) \<Rightarrow>
          concat (map (\<lambda>i. (if i < length primary then [primary ! i] else []) @
                           (if i < length fallback then [fallback ! i] else []))
                      [0..<max (length primary) (length fallback)]))"

section \<open>The feed\<close>

text \<open>\<open>feed_wake\<close> says that the wake channel of capacity one is full.\<close>

record tcpFamilyFeed =
  feed_v4 :: "string list"
  feed_v6 :: "string list"
  feed_seen :: "string set"
  feed_closed :: bool
  feed_wake :: bool
  errV4 :: "goerror option"
  errV6 :: "goerror option"
  passedACL :: nat

definition newTCPFamilyFeed :: tcpFamilyFeed where
  "newTCPFamilyFeed = \<lparr>feed_v4 = [], feed_v6 = [], feed_seen = {}, feed_closed = False, feed_wake = False,
     errV4 = None, errV6 = None, passedACL = 0\<rparr>"

definition pulse :: "tcpFamilyFeed \<Rightarrow> tcpFamilyFeed" where
  "pulse f = f\<lparr>feed_wake := True\<rparr>"

definition popLocked :: "tcpFamilyFeed \<Rightarrow> nat \<Rightarrow> (string \<times> tcpFamilyFeed) option" where
  "popLocked f lastFamily =
     (let takeV6 = (if lastFamily = 0 then length (feed_v6 f) > 0
                    else if lastFamily = 4 then length (feed_v6 f) > 0
                    else length (feed_v4 f) = 0)
      in if length (feed_v4 f) = 0 \<and> length (feed_v6 f) = 0 then None
         else if takeV6 then Some (hd (feed_v6 f), f\<lparr>feed_v6 := tl (feed_v6 f)\<rparr>)
         else Some (hd (feed_v4 f), f\<lparr>feed_v4 := tl (feed_v4 f)\<rparr>))"

text \<open>\<open>advance\<close>: the candidate (empty if there is none), whether the feed is closed, whether it
  was empty, and the feed afterwards.\<close>

definition advance :: "tcpFamilyFeed \<Rightarrow> bool \<Rightarrow> nat \<Rightarrow> string \<times> bool \<times> bool \<times> tcpFamilyFeed" where
  "advance f due lastFamily =
     (let vacant = (length (feed_v4 f) = 0 \<and> length (feed_v6 f) = 0) in
      if due \<and> \<not> vacant then
        (case popLocked f lastFamily of
           Some (addr, f') \<Rightarrow> (addr, feed_closed f', False, f')
         | None \<Rightarrow> ([], feed_closed f, vacant, f))
      else ([], feed_closed f, vacant, f))"

definition finalError :: "tcpFamilyFeed \<Rightarrow> nat \<Rightarrow> goerror option \<Rightarrow> goerror" where
  "finalError f started lastErr =
     (if 0 < started then (case lastErr of None \<Rightarrow> ErrTCPDialFailed | Some e \<Rightarrow> e)
      else if errV4 f \<noteq> None \<and> errV6 f \<noteq> None then TargetPolicyFailure targetPolicyLookupFailed (errV4 f)
      else if passedACL f = 0 then TargetPolicyFailure targetPolicyNoAllowedAddress None
      else ErrTCPDialFailed)"

definition familyByte :: "string \<Rightarrow> nat" where
  "familyByte address =
     (case SplitHostPort address of
        Inl _ \<Rightarrow> 0
      | Inr (ipHost, _) \<Rightarrow> if ParseIP ipHost \<noteq> [] \<and> To4 (ParseIP ipHost) \<noteq> [] then 4 else 6)"

text \<open>The address loop of \<open>resolve\<close> under the lock; the second component is \<open>added\<close>.\<close>

fun admitAddresses ::
  "aclRule list \<Rightarrow> string \<Rightarrow> string \<Rightarrow> string \<Rightarrow> bool \<Rightarrow> ip list \<Rightarrow> tcpFamilyFeed \<Rightarrow> bool \<Rightarrow>
   tcpFamilyFeed \<times> bool" where
  "admitAddresses rules network host port isV6 [] f added = (f, added)"
| "admitAddresses rules network host port isV6 (a # as) f added =
     (if a = [] then admitAddresses rules network host port isV6 as f added
      else if \<not> hostIsAllowed rules host a then admitAddresses rules network host port isV6 as f added
      else
        let f1 = f\<lparr>passedACL := passedACL f + 1\<rparr>; v4 = (To4 a \<noteq> []) in
        if v4 = isV6 then admitAddresses rules network host port isV6 as f1 added
        else if network = ''tcp4'' \<and> \<not> v4 \<or> network = ''tcp6'' \<and> v4
        then admitAddresses rules network host port isV6 as f1 added
        else
          let addr = JoinHostPort (IP_String a) port in
          if addr \<in> feed_seen f1 then admitAddresses rules network host port isV6 as f1 added
          else
            let f2 = f1\<lparr>feed_seen := insert addr (feed_seen f1)\<rparr>;
                f3 = (if isV6 then f2\<lparr>feed_v6 := feed_v6 f2 @ [addr]\<rparr> else f2\<lparr>feed_v4 := feed_v4 f2 @ [addr]\<rparr>)
            in admitAddresses rules network host port isV6 as f3 True)"

definition resolveFamily ::
  "aclRule list \<Rightarrow> string \<Rightarrow> string \<Rightarrow> string \<Rightarrow> bool \<Rightarrow> goerror + ip list \<Rightarrow> tcpFamilyFeed \<Rightarrow>
   tcpFamilyFeed \<times> bool" where
  "resolveFamily rules network host port isV6 answer f =
     (case answer of
        Inl err \<Rightarrow> ((if isV6 then f\<lparr>errV6 := Some err\<rparr> else f\<lparr>errV4 := Some err\<rparr>), False)
      | Inr addrs \<Rightarrow> admitAddresses rules network host port isV6 addrs f False)"

section \<open>Admitted candidates\<close>

definition keeps :: "aclRule list \<Rightarrow> string \<Rightarrow> string \<Rightarrow> bool \<Rightarrow> ip \<Rightarrow> bool" where
  "keeps rules network host isV6 a \<longleftrightarrow>
     a \<noteq> [] \<and> hostIsAllowed rules host a \<and> (To4 a \<noteq> []) \<noteq> isV6 \<and>
     \<not> (network = ''tcp4'' \<and> To4 a = []) \<and> \<not> (network = ''tcp6'' \<and> To4 a \<noteq> [])"

text \<open>One round of the loop.\<close>

definition admit_one ::
  "aclRule list \<Rightarrow> string \<Rightarrow> string \<Rightarrow> string \<Rightarrow> bool \<Rightarrow> ip \<Rightarrow> tcpFamilyFeed \<Rightarrow> tcpFamilyFeed \<times> bool" where
  "admit_one rules network host port isV6 a f =
     (let f1 = (if a \<noteq> [] \<and> hostIsAllowed rules host a then f\<lparr>passedACL := passedACL f + 1\<rparr> else f);
          addr = JoinHostPort (IP_String a) port
      in if keeps rules network host isV6 a \<and> addr \<notin> feed_seen f
         then ((if isV6 then f1\<lparr>feed_seen := insert addr (feed_seen f), feed_v6 := feed_v6 f @ [addr]\<rparr>
                else f1\<lparr>feed_seen := insert addr (feed_seen f), feed_v4 := feed_v4 f @ [addr]\<rparr>), True)
         else (f1, False))"

lemma admitAddresses_Cons:
  "admitAddresses rules network host port isV6 (a # as) f added =
     admitAddresses rules network host port isV6 as (fst (admit_one rules network host port isV6 a f))
       (added \<or> snd (admit_one rules network host port isV6 a f))"
  by (cases "a = []"; cases "hostIsAllowed rules host a"; cases "To4 a = []"; cases isV6;
      cases "JoinHostPort (IP_String a) port \<in> feed_seen f")
    (simp_all add: admit_one_def keeps_def Let_def)

lemma admit_one_fields:
  defines "new \<equiv> \<lambda>rules network host port isV6 a f.
    keeps rules network host isV6 a \<and> JoinHostPort (IP_String a) port \<notin> feed_seen f"
  shows "feed_v4 (fst (admit_one rules network host port isV6 a f)) =
      (if \<not> isV6 \<and> new rules network host port isV6 a f then feed_v4 f @ [JoinHostPort (IP_String a) port] else feed_v4 f)"
    "feed_v6 (fst (admit_one rules network host port isV6 a f)) =
      (if isV6 \<and> new rules network host port isV6 a f then feed_v6 f @ [JoinHostPort (IP_String a) port] else feed_v6 f)"
    "feed_seen (fst (admit_one rules network host port isV6 a f)) =
      (if keeps rules network host isV6 a then insert (JoinHostPort (IP_String a) port) (feed_seen f) else feed_seen f)"
    "feed_closed (fst (admit_one rules network host port isV6 a f)) = feed_closed f"
    "feed_wake (fst (admit_one rules network host port isV6 a f)) = feed_wake f"
    "errV4 (fst (admit_one rules network host port isV6 a f)) = errV4 f"
    "errV6 (fst (admit_one rules network host port isV6 a f)) = errV6 f"
    "passedACL (fst (admit_one rules network host port isV6 a f)) =
      (if a \<noteq> [] \<and> hostIsAllowed rules host a then passedACL f + 1 else passedACL f)"
    "snd (admit_one rules network host port isV6 a f) \<longleftrightarrow> new rules network host port isV6 a f"
  by (cases isV6; auto simp: admit_one_def new_def Let_def)+

abbreviation candidates :: "aclRule list \<Rightarrow> string \<Rightarrow> string \<Rightarrow> string \<Rightarrow> bool \<Rightarrow> ip list \<Rightarrow> string list" where
  "candidates rules network host port isV6 as \<equiv>
     map (\<lambda>a. JoinHostPort (IP_String a) port) (filter (keeps rules network host isV6) as)"

lemma admitAddresses_fields [feed_simps]:
  "feed_v4 (fst (admitAddresses rules network host port isV6 as f added)) =
     feed_v4 f @ (if isV6 then [] else first_occurrences (feed_seen f) (candidates rules network host port isV6 as))"
  "feed_v6 (fst (admitAddresses rules network host port isV6 as f added)) =
     feed_v6 f @ (if isV6 then first_occurrences (feed_seen f) (candidates rules network host port isV6 as) else [])"
  "feed_seen (fst (admitAddresses rules network host port isV6 as f added)) =
     feed_seen f \<union> set (candidates rules network host port isV6 as)"
  "feed_closed (fst (admitAddresses rules network host port isV6 as f added)) = feed_closed f"
  "feed_wake (fst (admitAddresses rules network host port isV6 as f added)) = feed_wake f"
  "errV4 (fst (admitAddresses rules network host port isV6 as f added)) = errV4 f"
  "errV6 (fst (admitAddresses rules network host port isV6 as f added)) = errV6 f"
  "passedACL (fst (admitAddresses rules network host port isV6 as f added)) =
     passedACL f + length (filter (\<lambda>a. a \<noteq> [] \<and> hostIsAllowed rules host a) as)"
  "snd (admitAddresses rules network host port isV6 as f added) \<longleftrightarrow>
     added \<or> first_occurrences (feed_seen f) (candidates rules network host port isV6 as) \<noteq> []"
  by (induction as arbitrary: f added)
    (simp_all add: admitAddresses_Cons admit_one_fields insert_absorb del: admitAddresses.simps(2))

lemma resolveFamily_fields [feed_simps]:
  "feed_closed (fst (resolveFamily rules network host port isV6 answer f)) = feed_closed f"
  "feed_wake (fst (resolveFamily rules network host port isV6 answer f)) = feed_wake f"
  by (auto simp: resolveFamily_def feed_simps split: sum.splits)

section \<open>The static order\<close>

definition v4_of :: "string \<Rightarrow> bool option" where
  "v4_of address =
     (case SplitHostPort address of
        Inl _ \<Rightarrow> None
      | Inr (host, _) \<Rightarrow> if ParseIP host = [] then None else Some (To4 (ParseIP host) \<noteq> []))"

definition eligible :: "string \<Rightarrow> string \<Rightarrow> bool" where
  "eligible network a \<longleftrightarrow>
     (case v4_of a of
        None \<Rightarrow> False
      | Some v4 \<Rightarrow> \<not> (network = ''tcp4'' \<and> \<not> v4) \<and> \<not> (network = ''tcp6'' \<and> v4))"

text \<open>Taking turns, starting with the first list; what is left of the longer one follows.\<close>

function alternate :: "'a list \<Rightarrow> 'a list \<Rightarrow> 'a list" where
  "alternate [] ys = ys"
| "alternate (x # xs) ys = x # alternate ys xs"
  by pat_completeness auto
termination
  by (relation "measure (\<lambda>(xs, ys). length xs + length ys)") auto

lemma alternate_Nil2 [simp]: "alternate xs [] = xs"
  by (cases xs) auto

lemma concat_index:
  "concat (map (\<lambda>i. if i < length xs then [xs ! i] else []) [0..<length xs]) = xs"
proof -
  have "map (\<lambda>i. if i < length xs then [xs ! i] else []) [0..<length xs] = map (\<lambda>i. [xs ! i]) [0..<length xs]"
    by (rule map_cong) auto
  then show ?thesis by (simp only: concat_map_singleton map_nth)
qed

lemma alternate_index:
  "concat (map (\<lambda>i. (if i < length xs then [xs ! i] else []) @ (if i < length ys then [ys ! i] else []))
     [0..<max (length xs) (length ys)]) = alternate xs ys"
proof (induction xs arbitrary: ys)
  case Nil
  show ?case by (simp add: concat_index)
next
  case (Cons x xs)
  have upt: "[0..<Suc m] = 0 # map Suc [0..<m]" for m by (simp add: upt_conv_Cons map_Suc_upt)
  show ?case
  proof (cases ys)
    case Nil
    then show ?thesis using concat_index [of "x # xs"] by simp
  next
    case (Cons y ys')
    have "concat (map (\<lambda>i. (if i < length xs then [xs ! i] else []) @ (if i < length ys' then [ys' ! i] else []))
        [0..<max (length xs) (length ys')]) = alternate xs ys'" by (rule Cons.IH)
    moreover have "max (length (x # xs)) (length ys) = Suc (max (length xs) (length ys'))"
      by (simp add: Cons)
    ultimately show ?thesis
      by (simp only: upt list.map concat.simps) (simp add: Cons map_map o_def cong: if_cong)
  qed
qed

lemma split_families_skip:
  "\<not> eligible network a \<Longrightarrow> split_families network (a # addrs) p f v = split_families network addrs p f v"
  by (auto simp: eligible_def v4_of_def Let_def split: sum.splits)

lemma split_families_take:
  "eligible network a \<Longrightarrow> split_families network (a # addrs) p f v =
     (let v' = (if p = [] then the (v4_of a) else v) in
      if v4_of a = Some v' then split_families network addrs (p @ [a]) f v'
      else split_families network addrs p (f @ [a]) v')"
  by (cases "SplitHostPort a") (auto simp: eligible_def v4_of_def Let_def split: prod.splits)

lemma split_families_started:
  "primary \<noteq> [] \<Longrightarrow> split_families network addrs primary fallback pv4 =
     (primary @ filter (\<lambda>a. eligible network a \<and> v4_of a = Some pv4) addrs,
      fallback @ filter (\<lambda>a. eligible network a \<and> v4_of a \<noteq> Some pv4) addrs)"
proof (induction addrs arbitrary: primary fallback)
  case (Cons a addrs)
  then show ?case
    by (cases "eligible network a")
      (simp_all add: split_families_skip split_families_take Let_def del: split_families.simps(2))
qed simp

lemma eligible_family: "eligible network a \<Longrightarrow> v4_of a = Some (the (v4_of a))"
  by (auto simp: eligible_def split: option.splits)

lemma split_families_eq:
  "split_families network addrs [] [] v =
     (let es = filter (eligible network) addrs; fam = v4_of (hd es)
      in (filter (\<lambda>a. v4_of a = fam) es, filter (\<lambda>a. v4_of a \<noteq> fam) es))"
proof (induction addrs)
  case (Cons a addrs)
  show ?case
  proof (cases "eligible network a")
    case True
    then have "split_families network (a # addrs) [] [] v =
        (a # filter (\<lambda>x. eligible network x \<and> v4_of x = v4_of a) addrs,
         filter (\<lambda>x. eligible network x \<and> v4_of x \<noteq> v4_of a) addrs)"
      using eligible_family [OF True]
      by (simp add: split_families_take split_families_started Let_def del: split_families.simps(2))
    with True show ?thesis by (simp add: Let_def del: split_families.simps(2))
  next
    case False
    with Cons show ?thesis by (simp add: split_families_skip del: split_families.simps(2))
  qed
qed simp

lemma interleave_eq:
  "interleaveTCPAddresses network addrs =
     (let es = filter (eligible network) addrs; fam = v4_of (hd es)
      in alternate (filter (\<lambda>a. v4_of a = fam) es) (filter (\<lambda>a. v4_of a \<noteq> fam) es))"
  by (simp add: interleaveTCPAddresses_def split_families_eq alternate_index Let_def)

lemma filter_alternate:
  assumes "\<forall>x \<in> set xs. P x" and "\<forall>y \<in> set ys. \<not> P y"
  shows "filter P (alternate xs ys) = xs \<and> filter (\<lambda>x. \<not> P x) (alternate xs ys) = ys"
proof -
  have "((\<forall>x \<in> set xs. P x) \<longrightarrow> (\<forall>y \<in> set ys. \<not> P y) \<longrightarrow>
      filter P (alternate xs ys) = xs \<and> filter (\<lambda>x. \<not> P x) (alternate xs ys) = ys) \<and>
    ((\<forall>x \<in> set xs. \<not> P x) \<longrightarrow> (\<forall>y \<in> set ys. P y) \<longrightarrow>
      filter P (alternate xs ys) = ys \<and> filter (\<lambda>x. \<not> P x) (alternate xs ys) = xs)"
    by (induction xs ys rule: alternate.induct) (auto simp: filter_id_conv filter_empty_conv)
  with assms show ?thesis by blast
qed

lemma nth_alternate:
  "i < length xs \<Longrightarrow> i < length ys \<Longrightarrow> alternate xs ys ! (2 * i) = xs ! i \<and> alternate xs ys ! (2 * i + 1) = ys ! i"
proof (induction i arbitrary: xs ys)
  case 0
  then show ?case by (cases xs; cases ys) auto
next
  case (Suc i)
  then obtain x xs' y ys' where "xs = x # xs'" "ys = y # ys'" by (cases xs; cases ys) auto
  with Suc show ?case by simp
qed

text \<open>
  The static order is fair and complete: the addresses of each family appear in resolver order,
  none of the requested family lost, repeated or invented; the family of the first usable
  address goes first, and while both families last the two take turns.
\<close>

theorem interleave_fair:
  defines "es \<equiv> \<lambda>network addrs. filter (eligible network) addrs"
  defines "P \<equiv> \<lambda>network addrs. filter (\<lambda>a. v4_of a = v4_of (hd (es network addrs))) (es network addrs)"
  defines "F \<equiv> \<lambda>network addrs. filter (\<lambda>a. v4_of a \<noteq> v4_of (hd (es network addrs))) (es network addrs)"
  shows "filter (\<lambda>a. v4_of a = v4_of (hd (es network addrs))) (interleaveTCPAddresses network addrs) = P network addrs \<and>
    filter (\<lambda>a. v4_of a \<noteq> v4_of (hd (es network addrs))) (interleaveTCPAddresses network addrs) = F network addrs \<and>
    (es network addrs \<noteq> [] \<longrightarrow> hd (interleaveTCPAddresses network addrs) = hd (es network addrs)) \<and>
    (\<forall>i. i < length (P network addrs) \<longrightarrow> i < length (F network addrs) \<longrightarrow>
       interleaveTCPAddresses network addrs ! (2 * i) = P network addrs ! i \<and>
       interleaveTCPAddresses network addrs ! (2 * i + 1) = F network addrs ! i)"
proof -
  let ?P = "P network addrs" and ?F = "F network addrs"
  have eq: "interleaveTCPAddresses network addrs = alternate ?P ?F"
    unfolding interleave_eq Let_def P_def F_def es_def ..
  have "\<forall>x \<in> set ?P. v4_of x = v4_of (hd (es network addrs))" "\<forall>y \<in> set ?F. v4_of y \<noteq> v4_of (hd (es network addrs))"
    by (simp_all add: P_def F_def)
  note split = filter_alternate [OF this]
  have "hd (alternate ?P ?F) = hd (es network addrs)" if "es network addrs \<noteq> []"
  proof -
    obtain e rest where "es network addrs = e # rest" using \<open>es network addrs \<noteq> []\<close> by (cases "es network addrs") auto
    then show ?thesis by (simp add: P_def)
  qed
  with split nth_alternate [of _ ?P ?F] show ?thesis unfolding eq by blast
qed

lemma sample_addresses:
  "v4_of ''[2001:db8::1]:443'' = Some False" "v4_of ''192.0.2.1:443'' = Some True"
  "eligible ''tcp'' ''[2001:db8::1]:443''" "eligible ''tcp'' ''192.0.2.1:443''"
proof -
  show v: "v4_of ''[2001:db8::1]:443'' = Some False" "v4_of ''192.0.2.1:443'' = Some True"
    by (simp_all add: v4_of_def policy_eval go_eval) (simp add: replicate_Suc numeral_eq_Suc)
  then show "eligible ''tcp'' ''[2001:db8::1]:443''" "eligible ''tcp'' ''192.0.2.1:443''"
    by (simp_all add: eligible_def)
qed

theorem interleave_fair_witness:
  "interleaveTCPAddresses ''tcp'' [''192.0.2.1:443'', ''[2001:db8::1]:443''] ! 0 = ''192.0.2.1:443'' \<and>
   interleaveTCPAddresses ''tcp'' [''192.0.2.1:443'', ''[2001:db8::1]:443''] ! 1 = ''[2001:db8::1]:443''"
  using interleave_fair [of "''tcp''" "[''192.0.2.1:443'', ''[2001:db8::1]:443'']"]
  by (auto simp: sample_addresses dest: spec [of _ 0])

section \<open>The lazy order\<close>

lemma popLocked_smaller:
  "popLocked f n = Some (a, f') \<Longrightarrow>
     length (feed_v4 f') + length (feed_v6 f') < length (feed_v4 f) + length (feed_v6 f)"
  by (auto simp: popLocked_def Let_def split: if_splits)

text \<open>All candidates of a feed that admits no more, in the order the race takes them.\<close>

function pop_all :: "nat \<Rightarrow> tcpFamilyFeed \<Rightarrow> string list" where
  "pop_all lastFamily f =
     (case popLocked f lastFamily of
        None \<Rightarrow> [] | Some (a, f') \<Rightarrow> a # pop_all (familyByte a) f')"
  by pat_completeness auto
termination
  by (relation "measure (\<lambda>(n, f). length (feed_v4 f) + length (feed_v6 f))") (auto dest: popLocked_smaller)

declare pop_all.simps [simp del]

lemma familyByte_v4_of:
  "v4_of a = Some True \<Longrightarrow> familyByte a = 4" "v4_of a = Some False \<Longrightarrow> familyByte a = 6"
  by (auto simp: familyByte_def v4_of_def split: sum.splits if_splits)

lemma pop_all_alternate:
  assumes "\<forall>a \<in> set (feed_v4 f). v4_of a = Some True" and "\<forall>a \<in> set (feed_v6 f). v4_of a = Some False"
  shows "pop_all 4 f = alternate (feed_v6 f) (feed_v4 f) \<and> pop_all 6 f = alternate (feed_v4 f) (feed_v6 f)"
  using assms
proof (induction "length (feed_v4 f) + length (feed_v6 f)" arbitrary: f rule: less_induct)
  case less
  have IH: "pop_all 4 g = alternate (feed_v6 g) (feed_v4 g)" "pop_all 6 g = alternate (feed_v4 g) (feed_v6 g)"
    if "popLocked f n = Some (a, g)" for n a g
  proof -
    have "set (feed_v4 g) \<subseteq> set (feed_v4 f)" "set (feed_v6 g) \<subseteq> set (feed_v6 f)"
      using that by (auto simp: popLocked_def Let_def split: if_splits dest: list.set_sel(2))
    with less.hyps [OF popLocked_smaller [OF that]] less.prems
    show "pop_all 4 g = alternate (feed_v6 g) (feed_v4 g)" "pop_all 6 g = alternate (feed_v4 g) (feed_v6 g)"
      by blast+
  qed
  show ?case
  proof (cases "feed_v4 f"; cases "feed_v6 f")
    assume "feed_v4 f = []" "feed_v6 f = []"
    then show ?thesis by (simp add: pop_all.simps popLocked_def)
  next
    fix x xs assume e: "feed_v4 f = []" "feed_v6 f = x # xs"
    then have p: "popLocked f n = Some (x, f\<lparr>feed_v6 := xs\<rparr>)" for n by (simp add: popLocked_def)
    show ?thesis using IH [OF p] e less.prems by (simp add: pop_all.simps [of _ f] p familyByte_v4_of)
  next
    fix y ys assume e: "feed_v4 f = y # ys" "feed_v6 f = []"
    then have p: "popLocked f n = Some (y, f\<lparr>feed_v4 := ys\<rparr>)" for n by (simp add: popLocked_def)
    show ?thesis using IH [OF p] e less.prems by (simp add: pop_all.simps [of _ f] p familyByte_v4_of)
  next
    fix x xs y ys assume e: "feed_v4 f = y # ys" "feed_v6 f = x # xs"
    then have p: "popLocked f 4 = Some (x, f\<lparr>feed_v6 := xs\<rparr>)" "popLocked f 6 = Some (y, f\<lparr>feed_v4 := ys\<rparr>)"
      by (simp_all add: popLocked_def)
    show ?thesis
      using IH [OF p(1)] IH [OF p(2)] e less.prems by (simp add: pop_all.simps [of _ f] p familyByte_v4_of)
  qed
qed

lemma v4_of_cases: "v4_of a \<noteq> None \<Longrightarrow> v4_of a = Some True \<or> v4_of a = Some False"
  by auto

lemma pop_all_first: "pop_all 0 f = pop_all 4 f"
proof -
  have "popLocked f 0 = popLocked f 4" by (simp add: popLocked_def)
  then show ?thesis by (simp only: pop_all.simps [of 0] pop_all.simps [of 4])
qed

lemma interleave_parsed:
  assumes "\<forall>a \<in> set addrs. v4_of a \<noteq> None"
  shows "interleaveTCPAddresses ''tcp'' addrs =
    alternate (filter (\<lambda>a. v4_of a = v4_of (hd addrs)) addrs) (filter (\<lambda>a. v4_of a \<noteq> v4_of (hd addrs)) addrs)"
proof -
  have "filter (eligible ''tcp'') addrs = addrs"
    using assms by (auto simp: filter_id_conv eligible_def split: option.splits)
  then show ?thesis by (simp add: interleave_eq Let_def)
qed

text \<open>
  (C36) The lazy rule of the incremental race reproduces the static order: on a feed that holds the
  parsable addresses of a resolver's answer from the start, popping until the feed is empty yields
  \<open>interleaveTCPAddresses\<close> of the answer whenever the answer begins with an IPv6 address or
  has none; an answer that begins with an IPv4 address is started in the other order, the IPv6
  address first.
\<close>

theorem lazy_order_static:
  assumes "\<forall>a \<in> set addrs. v4_of a \<noteq> None"
  shows "pop_all 0 (newTCPFamilyFeed\<lparr>feed_v4 := filter (\<lambda>a. v4_of a = Some True) addrs,
                                   feed_v6 := filter (\<lambda>a. v4_of a = Some False) addrs\<rparr>) =
    (if Some False \<in> v4_of ` set addrs \<and> v4_of (hd addrs) = Some True
     then alternate (filter (\<lambda>a. v4_of a = Some False) addrs) (filter (\<lambda>a. v4_of a = Some True) addrs)
     else interleaveTCPAddresses ''tcp'' addrs)"
proof -
  let ?v4 = "filter (\<lambda>a. v4_of a = Some True) addrs" and ?v6 = "filter (\<lambda>a. v4_of a = Some False) addrs"
  have all: "pop_all 0 (newTCPFamilyFeed\<lparr>feed_v4 := ?v4, feed_v6 := ?v6\<rparr>) = alternate ?v6 ?v4"
    unfolding pop_all_first by (subst pop_all_alternate [THEN conjunct1]) auto
  have other: "filter (\<lambda>a. v4_of a \<noteq> Some v) addrs = filter (\<lambda>a. v4_of a = Some (\<not> v)) addrs" for v
    using assms by (intro filter_cong refl) (cases v; auto)
  consider "addrs = []" | "v4_of (hd addrs) = Some False" | "v4_of (hd addrs) = Some True"
    using assms v4_of_cases [of "hd addrs"] by (cases addrs) fastforce+
  then show ?thesis
  proof cases
    case 1
    with all show ?thesis by (simp add: interleave_eq)
  next
    case 3
    have none: "?v6 = []" if "Some False \<notin> v4_of ` set addrs"
      using that by (auto simp: filter_empty_conv image_iff)
    from 3 show ?thesis
      by (simp add: all interleave_parsed [OF assms] other [of True, simplified] none)
  qed (simp add: all interleave_parsed [OF assms] other [of False, simplified])
qed

theorem lazy_order_static_witness:
  "pop_all 0 (newTCPFamilyFeed\<lparr>feed_v4 := [''192.0.2.1:443''], feed_v6 := [''[2001:db8::1]:443'']\<rparr>) =
     interleaveTCPAddresses ''tcp'' [''[2001:db8::1]:443'', ''192.0.2.1:443'']"
  using lazy_order_static [of "[''[2001:db8::1]:443'', ''192.0.2.1:443'']"] by (auto simp: sample_addresses)

end
