(* ===== verification/Event_System.thy ===== *)
theory Event_System
  imports Prelude
begin

text \<open>
  Executions of a component as lists of events.  A step function says whether an event is
  possible in a state and which state follows; a trace is possible when each of its events is.
  An invariant that every step preserves holds along every trace.
\<close>

definition guarded :: "bool \<Rightarrow> 'a \<Rightarrow> 'a option" where
  "guarded b x = (if b then Some x else None)"

lemma guarded_Some [simp]: "guarded b x = Some y \<longleftrightarrow> b \<and> y = x"
  by (auto simp: guarded_def)

lemma guarded_None [simp]: "guarded b x = None \<longleftrightarrow> \<not> b"
  by (simp add: guarded_def)

fun run_trace :: "('e \<Rightarrow> 's \<Rightarrow> 's option) \<Rightarrow> 'e list \<Rightarrow> 's \<Rightarrow> 's option" where
  "run_trace step [] s = Some s"
| "run_trace step (ev # evs) s =
     (case step ev s of None \<Rightarrow> None | Some s' \<Rightarrow> run_trace step evs s')"

lemma run_trace_append:
  "run_trace step (a @ b) s =
     (case run_trace step a s of None \<Rightarrow> None | Some s' \<Rightarrow> run_trace step b s')"
  by (induction a arbitrary: s) (auto split: option.splits)

lemma run_trace_snoc:
  "run_trace step (evs @ [ev]) s = Some s'' \<longleftrightarrow>
     (\<exists>s'. run_trace step evs s = Some s' \<and> step ev s' = Some s'')"
  by (auto simp: run_trace_append split: option.splits)

locale preserved =
  fixes step :: "'e \<Rightarrow> 's \<Rightarrow> 's option" and invar :: "'s \<Rightarrow> bool"
  assumes step_invar: "step ev s = Some s' \<Longrightarrow> invar s \<Longrightarrow> invar s'"
begin

lemma trace_invar: "run_trace step evs s = Some s' \<Longrightarrow> invar s \<Longrightarrow> invar s'"
  by (induction evs arbitrary: s) (auto split: option.splits dest: step_invar)

lemma prefix_invar:
  assumes "run_trace step (a @ b) s = Some s'" and "invar s"
  obtains s1 where "run_trace step a s = Some s1" "invar s1" "run_trace step b s1 = Some s'"
  using assms that trace_invar by (auto simp: run_trace_append split: option.splits)

end

text \<open>A measure that drops along some possible event until a goal is reached bounds the way there.\<close>

locale progress = preserved +
  fixes goal :: "'s \<Rightarrow> bool" and good :: "'e \<Rightarrow> bool" and left :: "'s \<Rightarrow> nat" and active :: "'s \<Rightarrow> bool"
  assumes advance: "invar s \<Longrightarrow> active s \<Longrightarrow> \<not> goal s \<Longrightarrow>
    \<exists>ev s'. good ev \<and> step ev s = Some s' \<and> active s' \<and> left s' < left s"
begin

lemma reaches_goal:
  "invar s \<Longrightarrow> active s \<Longrightarrow>
     \<exists>evs s'. list_all good evs \<and> run_trace step evs s = Some s' \<and> goal s' \<and> active s' \<and> length evs \<le> left s"
proof (induction "left s" arbitrary: s rule: less_induct)
  case less
  show ?case
  proof (cases "goal s")
    case True
    with less.prems show ?thesis by (intro exI [of _ "[]"]) simp
  next
    case False
    from advance [OF less.prems this] obtain ev s' where
      ev: "good ev" "step ev s = Some s'" "active s'" "left s' < left s" by blast
    from less.hyps [OF ev(4) step_invar [OF ev(2) less.prems(1)] ev(3)] obtain evs s'' where
      "list_all good evs" "run_trace step evs s' = Some s''" "goal s''" "active s''" "length evs \<le> left s'" by blast
    with ev show ?thesis by (intro exI [of _ "ev # evs"] exI [of _ s'']) auto
  qed
qed

end

text \<open>
  A rank that idle events keep and every other event lowers: an infinite execution is idle from
  some point on.
\<close>

locale quiescent =
  fixes step :: "'e \<Rightarrow> 's \<Rightarrow> 's option" and idle :: "'e \<Rightarrow> bool" and rank :: "'s \<Rightarrow> 'r" and less :: "('r \<times> 'r) set"
  assumes wf_less: "wf less"
    and idle_rank: "step ev s = Some s' \<Longrightarrow> idle ev \<Longrightarrow> rank s' = rank s"
    and busy_rank: "step ev s = Some s' \<Longrightarrow> \<not> idle ev \<Longrightarrow> (rank s', rank s) \<in> less"
begin

lemma idle_prefix:
  assumes "\<And>n. step (e n) (f n) = Some (f (Suc n))"
  shows "(\<And>n. k \<le> n \<Longrightarrow> n < m \<Longrightarrow> idle (e n)) \<Longrightarrow> k \<le> m \<Longrightarrow> rank (f m) = rank (f k)"
proof (induction m)
  case (Suc m)
  show ?case
  proof (cases "k = Suc m")
    case False
    with Suc have "rank (f m) = rank (f k)" "idle (e m)" by simp_all
    with idle_rank [OF assms [of m]] show ?thesis by simp
  qed simp
qed simp

lemma eventually_idle:
  assumes "\<And>n. step (e n) (f n) = Some (f (Suc n))"
  shows "\<exists>N. \<forall>n \<ge> N. idle (e n)"
proof -
  have "\<exists>N. \<forall>n \<ge> N. idle (e n)" if "x = rank (f k)" for x k
    using wf_less that
  proof (induction x arbitrary: k rule: wf_induct_rule)
    case (less x)
    show ?case
    proof (cases "\<forall>n \<ge> k. idle (e n)")
      case False
      define m where "m = (LEAST n. k \<le> n \<and> \<not> idle (e n))"
      from False have m: "k \<le> m" "\<not> idle (e m)"
        using LeastI_ex [of "\<lambda>n. k \<le> n \<and> \<not> idle (e n)"] by (auto simp: m_def)
      have "\<And>n. k \<le> n \<Longrightarrow> n < m \<Longrightarrow> idle (e n)" using not_less_Least m_def by blast
      from idle_prefix [where e = e and f = f, OF assms this m(1)] have "rank (f m) = x" using less.prems by simp
      with busy_rank [OF assms [of m] m(2)] less.IH [of "rank (f (Suc m))"] show ?thesis by blast
    qed blast
  qed
  then show ?thesis by blast
qed

end

end
