(* ===== verification/Tcp_Pool.thy ===== *)
theory Tcp_Pool
  imports Go_Errors Go_Net_Roundtrip Event_System
begin

text \<open>
  The dial goroutines both TCP races start (the \<open>start\<close> closures of \<open>connect_dial.go\<close> and
  \<open>connect_dial_incremental.go\<close>).  Attempts are numbered in the order of their start, and the
  connection an attempt opens carries its number.  An attempt dials, offers its result on the
  unbuffered channel, and either hands it over or drops it when the race's context is done.
\<close>

section \<open>Attempts\<close>

text \<open>\<open>Offering None\<close> offers a connection, \<open>Offering (Some e)\<close> an error.\<close>

datatype attempt = Dialing | Offering "goerror option" | Delivered | Dropped

record pool =
  slots :: "attempt list"
  opened :: "nat set"
  closed_conns :: "nat set"

definition empty_pool :: pool where
  "empty_pool = \<lparr>slots = [], opened = {}, closed_conns = {}\<rparr>"

definition pool_start :: "pool \<Rightarrow> pool" where
  "pool_start p = p\<lparr>slots := slots p @ [Dialing]\<rparr>"

text \<open>
  \<open>dialContext\<close> has returned with or without a connection, with or without an error, and
  \<open>attemptCtx.Err()\<close> is \<open>attemptErr\<close>: the context error takes precedence, a connection that
  comes with an error is closed, and neither becomes \<open>errTCPDialFailed\<close>.
\<close>

definition pool_return :: "nat \<Rightarrow> bool \<Rightarrow> goerror option \<Rightarrow> goerror option \<Rightarrow> pool \<Rightarrow> pool option" where
  "pool_return i conn err attemptErr p =
     (let err' = (case attemptErr of Some e \<Rightarrow> Some e | None \<Rightarrow> err);
          closes = (err' \<noteq> None \<and> conn);
          offer = (if err' = None \<and> \<not> conn then Some ErrTCPDialFailed else err')
      in guarded (i < length (slots p) \<and> slots p ! i = Dialing)
           (p\<lparr>slots := (slots p)[i := Offering offer],
              opened := (if conn then insert i (opened p) else opened p),
              closed_conns := (if closes then insert i (closed_conns p) else closed_conns p)\<rparr>))"

text \<open>The context is done first: the attempt closes the connection it offers.\<close>

definition pool_drop :: "nat \<Rightarrow> pool \<Rightarrow> pool option" where
  "pool_drop i p =
     (if i < length (slots p) then
        (case slots p ! i of
           Offering r \<Rightarrow> Some (p\<lparr>slots := (slots p)[i := Dropped],
             closed_conns := (if r = None then insert i (closed_conns p) else closed_conns p)\<rparr>)
         | _ \<Rightarrow> None)
      else None)"

text \<open>The race receives what attempt \<open>i\<close> offers.\<close>

definition pool_take :: "nat \<Rightarrow> pool \<Rightarrow> (goerror option \<times> pool) option" where
  "pool_take i p =
     (if i < length (slots p) then
        (case slots p ! i of
           Offering r \<Rightarrow> Some (r, p\<lparr>slots := (slots p)[i := Delivered]\<rparr>)
         | _ \<Rightarrow> None)
      else None)"

definition pool_close :: "nat \<Rightarrow> pool \<Rightarrow> pool" where
  "pool_close i p = p\<lparr>closed_conns := insert i (closed_conns p)\<rparr>"

section \<open>Accounting for connections\<close>

definition slot :: "pool \<Rightarrow> nat \<Rightarrow> attempt option" where
  "slot p i = (if i < length (slots p) then Some (slots p ! i) else None)"

definition live :: "pool \<Rightarrow> nat set" where
  "live p = opened p - closed_conns p"

text \<open>What is known of connection \<open>i\<close> in each state of its attempt: whether the caller owns it,
  whether it was opened and whether it was closed.\<close>

fun conn_ok :: "bool \<Rightarrow> bool \<Rightarrow> bool \<Rightarrow> attempt option \<Rightarrow> bool" where
  "conn_ok own op cl (Some (Offering None)) \<longleftrightarrow> \<not> own \<and> op \<and> \<not> cl"
| "conn_ok own op cl (Some (Offering (Some e))) \<longleftrightarrow> \<not> own \<and> (op \<longrightarrow> cl)"
| "conn_ok own op cl (Some Delivered) \<longleftrightarrow> (own \<longleftrightarrow> op \<and> \<not> cl)"
| "conn_ok own op cl (Some Dropped) \<longleftrightarrow> \<not> own \<and> (op \<longrightarrow> cl)"
| "conn_ok own op cl _ \<longleftrightarrow> \<not> own \<and> \<not> op \<and> \<not> cl"

definition pool_ok :: "nat set \<Rightarrow> pool \<Rightarrow> bool" where
  "pool_ok owned p \<longleftrightarrow> (\<forall>i. conn_ok (i \<in> owned) (i \<in> opened p) (i \<in> closed_conns p) (slot p i))"

lemma slot_update:
  "i < length (slots p) \<Longrightarrow> slot (p\<lparr>slots := (slots p)[i := a], opened := op, closed_conns := cl\<rparr>) =
     (slot p)(i \<mapsto> a)"
  "i < length (slots p) \<Longrightarrow> slot (p\<lparr>slots := (slots p)[i := a], closed_conns := cl\<rparr>) = (slot p)(i \<mapsto> a)"
  "i < length (slots p) \<Longrightarrow> slot (p\<lparr>slots := (slots p)[i := a]\<rparr>) = (slot p)(i \<mapsto> a)"
  by (auto simp: slot_def fun_eq_iff nth_list_update)

lemma slot_start: "slot (pool_start p) = (slot p)(length (slots p) \<mapsto> Dialing)"
  by (auto simp: slot_def pool_start_def fun_eq_iff nth_append)

lemma pool_ok_empty [simp]: "pool_ok {} empty_pool"
  by (simp add: pool_ok_def empty_pool_def slot_def)

lemma pool_ok_start:
  assumes "pool_ok owned p"
  shows "pool_ok owned (pool_start p)"
proof -
  have "slot p (length (slots p)) = None" by (simp add: slot_def)
  then have "length (slots p) \<notin> owned \<union> opened p \<union> closed_conns p"
    using assms by (auto simp: pool_ok_def dest!: spec [of _ "length (slots p)"])
  with assms show ?thesis unfolding pool_ok_def slot_start by (simp add: pool_start_def)
qed

lemma pool_ok_return:
  assumes "pool_return i conn err aerr p = Some p'" and "pool_ok owned p"
  shows "pool_ok owned p'"
proof -
  from assms(1) have i: "i < length (slots p)" "slot p i = Some Dialing"
    by (auto simp: pool_return_def Let_def slot_def)
  with assms(2) have "i \<notin> owned" "i \<notin> opened p" "i \<notin> closed_conns p"
    by (auto simp: pool_ok_def dest!: spec [of _ i])
  with assms i show ?thesis
    by (auto simp: pool_return_def pool_ok_def slot_update Let_def split: option.splits)
qed

lemma pool_drop_Some:
  "pool_drop i p = Some p' \<longleftrightarrow> (\<exists>r. slot p i = Some (Offering r) \<and>
     p' = p\<lparr>slots := (slots p)[i := Dropped],
            closed_conns := (if r = None then insert i (closed_conns p) else closed_conns p)\<rparr>)"
  by (auto simp: pool_drop_def slot_def split: attempt.splits)

lemma pool_take_Some:
  "pool_take i p = Some (r, p') \<longleftrightarrow> slot p i = Some (Offering r) \<and> p' = p\<lparr>slots := (slots p)[i := Delivered]\<rparr>"
  by (auto simp: pool_take_def slot_def split: attempt.splits)

lemma slot_SomeD: "slot p i = Some a \<Longrightarrow> i < length (slots p)"
  by (simp add: slot_def split: if_splits)

lemma pool_ok_drop:
  assumes "pool_drop i p = Some p'" and "pool_ok owned p"
  shows "pool_ok owned p'"
proof -
  from assms(1) obtain r where r: "slot p i = Some (Offering r)"
    "p' = p\<lparr>slots := (slots p)[i := Dropped],
            closed_conns := (if r = None then insert i (closed_conns p) else closed_conns p)\<rparr>"
    by (auto simp: pool_drop_Some)
  from assms(2) r(1) have "conn_ok (i \<in> owned) (i \<in> opened p) (i \<in> closed_conns p) (Some (Offering r))"
    by (metis pool_ok_def)
  with assms(2) slot_SomeD [OF r(1)] show ?thesis
    unfolding r(2) pool_ok_def by (cases r) (simp_all add: slot_update)
qed

lemma pool_ok_take:
  assumes "pool_take i p = Some (r, p')" and "pool_ok owned p"
  shows "pool_ok (if r = None then insert i owned else owned) p' \<and> i \<notin> owned"
proof -
  from assms(1) have r: "slot p i = Some (Offering r)" "p' = p\<lparr>slots := (slots p)[i := Delivered]\<rparr>"
    by (auto simp: pool_take_Some)
  from assms(2) r(1) have "conn_ok (i \<in> owned) (i \<in> opened p) (i \<in> closed_conns p) (Some (Offering r))"
    by (metis pool_ok_def)
  with assms(2) slot_SomeD [OF r(1)] show ?thesis
    unfolding r(2) pool_ok_def by (cases r) (auto simp: slot_update)
qed

lemma pool_ok_close:
  assumes "pool_ok (insert i owned) p" and "i \<notin> owned" and "slot p i = Some Delivered"
  shows "pool_ok owned (pool_close i p)"
proof -
  have "slot (pool_close i p) = slot p" by (simp add: fun_eq_iff slot_def pool_close_def)
  moreover have "conn_ok (j \<in> owned) (j \<in> opened p) (j \<in> insert i (closed_conns p)) (slot p j)" for j
  proof (cases "j = i")
    case True
    with assms(2,3) show ?thesis by simp
  next
    case False
    have "conn_ok (j \<in> insert i owned) (j \<in> opened p) (j \<in> closed_conns p) (slot p j)"
      using assms(1) by (simp add: pool_ok_def)
    with False show ?thesis by simp
  qed
  ultimately show ?thesis by (simp add: pool_ok_def pool_close_def)
qed

text \<open>Attempts still dialing or offering; without any, the live connections are the owned ones.\<close>

definition unfinished :: "pool \<Rightarrow> nat set" where
  "unfinished p = {i. slot p i = Some Dialing \<or> (\<exists>r. slot p i = Some (Offering r))}"

lemma finite_unfinished [simp]: "finite (unfinished p)"
proof -
  have "unfinished p \<subseteq> {..<length (slots p)}" by (auto simp: unfinished_def dest: slot_SomeD)
  then show ?thesis by (rule finite_subset) simp
qed

lemma pool_ok_live:
  assumes "pool_ok owned p" and "unfinished p = {}"
  shows "live p = owned"
proof -
  have "i \<in> live p \<longleftrightarrow> i \<in> owned" for i
  proof -
    have "conn_ok (i \<in> owned) (i \<in> opened p) (i \<in> closed_conns p) (slot p i)"
      using assms(1) by (simp add: pool_ok_def)
    moreover have "slot p i \<noteq> Some Dialing" "\<And>r. slot p i \<noteq> Some (Offering r)"
      using assms(2) by (auto simp: unfinished_def)
    ultimately show ?thesis
      by (cases "slot p i"; cases "the (slot p i)") (auto simp: live_def)
  qed
  then show ?thesis by blast
qed

lemma conn_ok_owned: "conn_ok True op cl a \<Longrightarrow> op \<and> \<not> cl"
  by (cases "(True, op, cl, a)" rule: conn_ok.cases) auto

lemma pool_ok_owned: "pool_ok owned p \<Longrightarrow> i \<in> owned \<Longrightarrow> i \<in> opened p - closed_conns p"
  using conn_ok_owned [of "i \<in> opened p" "i \<in> closed_conns p" "slot p i"] by (simp add: pool_ok_def, metis)

lemma unfinished_start [simp]: "unfinished (pool_start p) = insert (length (slots p)) (unfinished p)"
  by (auto simp: unfinished_def slot_start)

lemma fresh_attempt [simp]: "length (slots p) \<notin> unfinished p"
  by (auto simp: unfinished_def slot_def)

lemma unfinished_return: "pool_return i conn err aerr p = Some p' \<Longrightarrow> unfinished p' = unfinished p"
  by (auto simp: pool_return_def unfinished_def slot_update Let_def) (simp_all add: slot_def)

lemma unfinished_drop: "pool_drop i p = Some p' \<Longrightarrow> unfinished p' = unfinished p - {i}"
  by (auto simp: pool_drop_Some unfinished_def slot_update slot_SomeD split: if_splits)

lemma unfinished_take:
  "pool_take i p = Some (r, p') \<Longrightarrow> i \<in> unfinished p \<and> unfinished p' = unfinished p - {i}"
  by (auto simp: pool_take_Some unfinished_def slot_update slot_SomeD split: if_splits)

lemma unfinished_close [simp]: "unfinished (pool_close i p) = unfinished p"
  by (simp add: unfinished_def pool_close_def slot_def)

end
