(* ===== verification/Tcp_Incremental.thy ===== *)
theory Tcp_Incremental
  imports Tcp_Feed Tcp_Pool
begin

text \<open>
  The incremental connection race \<open>dialTCPIncremental\<close> of \<open>connect_dial_incremental.go\<close>
  as a transition system.  Its goroutines are the scheduler loop, the two family lookups, the
  closer that waits for both, and one dial goroutine per attempt.  Every atomic action of one of
  them is an event: a lookup's critical section and its pulse are separate events, the scheduler
  reads the clock, takes the feed's lock, checks the context, starts the attempt and stamps the
  start in separate events, and the clock may advance between any two.  The answers of the
  resolver and the outcomes of the dials are arguments of their events, so a property of all
  traces holds for every resolver, every network and every schedule.
\<close>

section \<open>State\<close>

datatype resolver = Looking | Pulsing | Resolved

datatype closer = Waiting | ClosePulse | CloseDone

text \<open>The scheduler's control point: before the due check, after it, with a popped candidate, after
  \<open>start\<close>, in the \<open>select\<close>, and after the return (\<open>Inr i\<close>: the connection of attempt \<open>i\<close>).\<close>

datatype control = Top | Checked bool | Chosen string | Stamping string | Selecting | Returned "goerror + nat"

record race =
  feed :: tcpFamilyFeed
  lookup4 :: resolver
  lookup6 :: resolver
  closer :: closer
  conns :: pool
  begun :: "(string \<times> int) list"
  pending :: int
  lastStart :: int
  lastFamily :: nat
  lastErr :: "goerror option"
  nextReadyAt :: "int option"
  timer :: "int option"
  now :: int
  ctxErr :: "goerror option"
  control :: control

text \<open>The request: the handler's rules and the arguments of the call.\<close>

record race_env =
  env_rules :: "aclRule list"
  env_network :: string
  env_host :: string
  env_port :: string

definition tcpFallbackDelay :: int where "tcpFallbackDelay = 250 * millisecond"
definition tcpMinimumDelay :: int where "tcpMinimumDelay = 100 * millisecond"

text \<open>The new timer is stopped at once, so none is armed.\<close>

definition new_race :: "int \<Rightarrow> goerror option \<Rightarrow> race" where
  "new_race t err = \<lparr>feed = newTCPFamilyFeed, lookup4 = Looking, lookup6 = Looking, closer = Waiting,
     conns = empty_pool, begun = [], pending = 0, lastStart = 0, lastFamily = 0, lastErr = None,
     nextReadyAt = None, timer = None, now = t, ctxErr = err, control = Top\<rparr>"

section \<open>The lookups and the closer\<close>

definition lookup_of :: "bool \<Rightarrow> race \<Rightarrow> resolver" where
  "lookup_of isV6 s = (if isV6 then lookup6 s else lookup4 s)"

definition set_lookup :: "bool \<Rightarrow> resolver \<Rightarrow> race \<Rightarrow> race" where
  "set_lookup isV6 r s = (if isV6 then s\<lparr>lookup6 := r\<rparr> else s\<lparr>lookup4 := r\<rparr>)"

definition lookup_answer :: "race_env \<Rightarrow> bool \<Rightarrow> goerror + ip list \<Rightarrow> race \<Rightarrow> race option" where
  "lookup_answer env isV6 answer s =
     (let (f, added) = resolveFamily (env_rules env) (env_network env) (env_host env) (env_port env) isV6 answer (feed s)
      in guarded (lookup_of isV6 s = Looking)
           (set_lookup isV6 (if added then Pulsing else Resolved) (s\<lparr>feed := f\<rparr>)))"

definition lookup_pulse :: "bool \<Rightarrow> race \<Rightarrow> race option" where
  "lookup_pulse isV6 s =
     guarded (lookup_of isV6 s = Pulsing) (set_lookup isV6 Resolved (s\<lparr>feed := pulse (feed s)\<rparr>))"

definition feed_close :: "race \<Rightarrow> race option" where
  "feed_close s =
     guarded (lookup4 s = Resolved \<and> lookup6 s = Resolved \<and> closer s = Waiting)
       (s\<lparr>feed := (feed s)\<lparr>feed_closed := True\<rparr>, closer := ClosePulse\<rparr>)"

definition close_pulse :: "race \<Rightarrow> race option" where
  "close_pulse s = guarded (closer s = ClosePulse) (s\<lparr>feed := pulse (feed s), closer := CloseDone\<rparr>)"

section \<open>The dial goroutines\<close>

text \<open>The attempt's context is a child of the race's: it has an error once the race's has one.\<close>

definition dial_return :: "nat \<Rightarrow> bool \<Rightarrow> goerror option \<Rightarrow> goerror option \<Rightarrow> race \<Rightarrow> race option" where
  "dial_return i conn err attemptErr s =
     (if ctxErr s \<noteq> None \<and> attemptErr = None then None
      else map_option (\<lambda>p. s\<lparr>conns := p\<rparr>) (pool_return i conn err attemptErr (conns s)))"

definition dial_abandon :: "nat \<Rightarrow> race \<Rightarrow> race option" where
  "dial_abandon i s =
     (if ctxErr s = None then None else map_option (\<lambda>p. s\<lparr>conns := p\<rparr>) (pool_drop i (conns s)))"

section \<open>The scheduler\<close>

text \<open>A return runs the deferred \<open>timer.Stop\<close> and \<open>cancel\<close>.\<close>

definition return_race :: "goerror + nat \<Rightarrow> race \<Rightarrow> race" where
  "return_race r s = s\<lparr>control := Returned r, timer := None,
     ctxErr := (case ctxErr s of None \<Rightarrow> Some ContextCanceled | Some e \<Rightarrow> Some e)\<rparr>"

definition check_due :: "race \<Rightarrow> race option" where
  "check_due s = guarded (control s = Top)
     (s\<lparr>control := Checked (case nextReadyAt s of None \<Rightarrow> True | Some t \<Rightarrow> \<not> now s < t)\<rparr>)"

definition take_candidate :: "race \<Rightarrow> race option" where
  "take_candidate s =
     (case control s of
        Checked due \<Rightarrow>
          (case advance (feed s) due (lastFamily s) of
             (addr, closed, vacant, f) \<Rightarrow>
               Some (if addr \<noteq> [] then s\<lparr>feed := f, control := Chosen addr\<rparr>
                     else if closed \<and> vacant \<and> pending s = 0
                     then return_race (Inl (finalError f (length (begun s)) (lastErr s))) (s\<lparr>feed := f\<rparr>)
                     else s\<lparr>feed := f, control := Selecting\<rparr>))
      | _ \<Rightarrow> None)"

definition start_attempt :: "race \<Rightarrow> race option" where
  "start_attempt s =
     (case control s of
        Chosen addr \<Rightarrow>
          Some (case ctxErr s of
                  Some err \<Rightarrow> return_race (Inl err) s
                | None \<Rightarrow> s\<lparr>conns := pool_start (conns s), begun := begun s @ [(addr, now s)],
                            control := Stamping addr\<rparr>)
      | _ \<Rightarrow> None)"

definition stamp_start :: "race \<Rightarrow> race option" where
  "stamp_start s =
     (case control s of
        Stamping addr \<Rightarrow>
          Some (s\<lparr>pending := pending s + 1, lastStart := now s, lastFamily := familyByte addr,
                  nextReadyAt := Some (now s + tcpFallbackDelay), timer := Some (now s + tcpFallbackDelay),
                  control := Top\<rparr>)
      | _ \<Rightarrow> None)"

definition select_done :: "race \<Rightarrow> race option" where
  "select_done s =
     (case ctxErr s of
        None \<Rightarrow> None
      | Some err \<Rightarrow> guarded (control s = Selecting) (return_race (Inl err) s))"

text \<open>A failure brings the next start forward and re-arms the timer.\<close>

definition accelerate :: "race \<Rightarrow> race" where
  "accelerate s =
     (let ready = lastStart s + tcpMinimumDelay in
      case nextReadyAt s of
        None \<Rightarrow> s
      | Some t \<Rightarrow> if ready < t then s\<lparr>nextReadyAt := Some ready, timer := Some (now s + max 0 (ready - now s))\<rparr>
                  else s)"

definition select_result :: "nat \<Rightarrow> race \<Rightarrow> race option" where
  "select_result i s =
     (if control s = Selecting then
        (case pool_take i (conns s) of
           None \<Rightarrow> None
         | Some (r, p) \<Rightarrow>
             let s1 = s\<lparr>conns := p, pending := pending s - 1\<rparr> in
             Some (case r of
                     None \<Rightarrow>
                       (case ctxErr s1 of
                          Some err \<Rightarrow> return_race (Inl err) (s1\<lparr>conns := pool_close i p\<rparr>)
                        | None \<Rightarrow> return_race (Inr i) s1)
                   | Some err \<Rightarrow> accelerate (s1\<lparr>lastErr := Some err, control := Top\<rparr>)))
      else None)"

definition select_wake :: "race \<Rightarrow> race option" where
  "select_wake s = guarded (control s = Selecting \<and> feed_wake (feed s))
     (s\<lparr>feed := (feed s)\<lparr>feed_wake := False\<rparr>, control := Top\<rparr>)"

definition select_timer :: "race \<Rightarrow> race option" where
  "select_timer s =
     (case timer s of
        None \<Rightarrow> None
      | Some t \<Rightarrow> guarded (control s = Selecting \<and> t \<le> now s) (s\<lparr>timer := None, control := Top\<rparr>))"

section \<open>The transition system\<close>

datatype race_event =
    Tick nat
  | ContextDone goerror
  | Answer bool "goerror + ip list"
  | Pulse bool
  | CloseFeed
  | PulseClose
  | DialReturn nat bool "goerror option" "goerror option"
  | Abandon nat
  | CheckDue
  | Advance
  | Start
  | Stamp
  | SelectDone
  | SelectResult nat
  | SelectWake
  | SelectTimer

fun race_step :: "race_env \<Rightarrow> race_event \<Rightarrow> race \<Rightarrow> race option" where
  "race_step env (Tick d) s = Some (s\<lparr>now := now s + int d\<rparr>)"
| "race_step env (ContextDone e) s = guarded (ctxErr s = None) (s\<lparr>ctxErr := Some e\<rparr>)"
| "race_step env (Answer isV6 answer) s = lookup_answer env isV6 answer s"
| "race_step env (Pulse isV6) s = lookup_pulse isV6 s"
| "race_step env CloseFeed s = feed_close s"
| "race_step env PulseClose s = close_pulse s"
| "race_step env (DialReturn i conn err attemptErr) s = dial_return i conn err attemptErr s"
| "race_step env (Abandon i) s = dial_abandon i s"
| "race_step env CheckDue s = check_due s"
| "race_step env Advance s = take_candidate s"
| "race_step env Start s = start_attempt s"
| "race_step env Stamp s = stamp_start s"
| "race_step env SelectDone s = select_done s"
| "race_step env (SelectResult i) s = select_result i s"
| "race_step env SelectWake s = select_wake s"
| "race_step env SelectTimer s = select_timer s"

lemmas race_defs =
  lookup_answer_def lookup_pulse_def feed_close_def close_pulse_def dial_return_def dial_abandon_def
  check_due_def take_candidate_def start_attempt_def stamp_start_def select_done_def select_result_def
  select_wake_def select_timer_def

lemma popLocked_None: "popLocked f n = None \<longleftrightarrow> feed_v4 f = [] \<and> feed_v6 f = []"
  by (simp add: popLocked_def Let_def)

lemma popLocked_fields:
  "popLocked f n = Some (addr, f') \<Longrightarrow>
     feed_seen f' = feed_seen f \<and> feed_closed f' = feed_closed f \<and> feed_wake f' = feed_wake f \<and>
     errV4 f' = errV4 f \<and> errV6 f' = errV6 f \<and> passedACL f' = passedACL f"
  by (auto simp: popLocked_def Let_def split: if_splits)

lemma popLocked_SomeE:
  assumes "popLocked f n = Some (addr, f')"
  obtains (V6) "feed_v6 f = addr # feed_v6 f'" "feed_v4 f' = feed_v4 f"
  | (V4) "feed_v4 f = addr # feed_v4 f'" "feed_v6 f' = feed_v6 f"
proof -
  from assms consider "feed_v6 f \<noteq> []" "addr = hd (feed_v6 f)" "f' = f\<lparr>feed_v6 := tl (feed_v6 f)\<rparr>"
    | "feed_v4 f \<noteq> []" "addr = hd (feed_v4 f)" "f' = f\<lparr>feed_v4 := tl (feed_v4 f)\<rparr>"
    by (auto simp: popLocked_def Let_def split: if_splits)
  then show ?thesis by cases (simp_all add: that)
qed

text \<open>What each event requires and the state it leads to.\<close>

lemma race_step_cases:
  assumes "race_step env ev s = Some s'"
  obtains
    (Tick) d where "ev = Tick d" "s' = s\<lparr>now := now s + int d\<rparr>"
  | (Done) e where "ev = ContextDone e" "ctxErr s = None" "s' = s\<lparr>ctxErr := Some e\<rparr>"
  | (Answer) v answer f added where "ev = Answer v answer" "lookup_of v s = Looking"
      "resolveFamily (env_rules env) (env_network env) (env_host env) (env_port env) v answer (feed s) = (f, added)"
      "s' = set_lookup v (if added then Pulsing else Resolved) (s\<lparr>feed := f\<rparr>)"
  | (Pulse) v where "ev = Pulse v" "lookup_of v s = Pulsing" "s' = set_lookup v Resolved (s\<lparr>feed := pulse (feed s)\<rparr>)"
  | (Close) "ev = CloseFeed" "lookup4 s = Resolved" "lookup6 s = Resolved" "closer s = Waiting"
      "s' = s\<lparr>feed := (feed s)\<lparr>feed_closed := True\<rparr>, closer := ClosePulse\<rparr>"
  | (PulseClose) "ev = PulseClose" "closer s = ClosePulse" "s' = s\<lparr>feed := pulse (feed s), closer := CloseDone\<rparr>"
  | (Return) i c e a p where "ev = DialReturn i c e a" "ctxErr s \<noteq> None \<longrightarrow> a \<noteq> None"
      "pool_return i c e a (conns s) = Some p" "s' = s\<lparr>conns := p\<rparr>"
  | (Abandon) i p where "ev = Abandon i" "ctxErr s \<noteq> None" "pool_drop i (conns s) = Some p" "s' = s\<lparr>conns := p\<rparr>"
  | (Check) "ev = CheckDue" "control s = Top"
      "s' = s\<lparr>control := Checked (case nextReadyAt s of None \<Rightarrow> True | Some t \<Rightarrow> \<not> now s < t)\<rparr>"
  | (Pop) addr f where "ev = Advance" "control s = Checked True" "popLocked (feed s) (lastFamily s) = Some (addr, f)"
      "s' = (if addr \<noteq> [] then s\<lparr>feed := f, control := Chosen addr\<rparr> else s\<lparr>feed := f, control := Selecting\<rparr>)"
  | (Final) due where "ev = Advance" "control s = Checked due" "feed_closed (feed s)" "feed_v4 (feed s) = []"
      "feed_v6 (feed s) = []" "pending s = 0"
      "s' = return_race (Inl (finalError (feed s) (length (begun s)) (lastErr s))) s"
  | (Wait) due where "ev = Advance" "control s = Checked due"
      "due \<longrightarrow> feed_v4 (feed s) = [] \<and> feed_v6 (feed s) = []"
      "\<not> (feed_closed (feed s) \<and> feed_v4 (feed s) = [] \<and> feed_v6 (feed s) = [] \<and> pending s = 0)"
      "s' = s\<lparr>control := Selecting\<rparr>"
  | (Refuse) addr err where "ev = Start" "control s = Chosen addr" "ctxErr s = Some err" "s' = return_race (Inl err) s"
  | (Start) addr where "ev = Start" "control s = Chosen addr" "ctxErr s = None"
      "s' = s\<lparr>conns := pool_start (conns s), begun := begun s @ [(addr, now s)], control := Stamping addr\<rparr>"
  | (Stamp) addr where "ev = Stamp" "control s = Stamping addr"
      "s' = s\<lparr>pending := pending s + 1, lastStart := now s, lastFamily := familyByte addr,
         nextReadyAt := Some (now s + tcpFallbackDelay), timer := Some (now s + tcpFallbackDelay), control := Top\<rparr>"
  | (Context) err where "ev = SelectDone" "control s = Selecting" "ctxErr s = Some err" "s' = return_race (Inl err) s"
  | (Late) i p err where "ev = SelectResult i" "control s = Selecting" "pool_take i (conns s) = Some (None, p)"
      "ctxErr s = Some err" "s' = return_race (Inl err) (s\<lparr>pending := pending s - 1, conns := pool_close i p\<rparr>)"
  | (Win) i p where "ev = SelectResult i" "control s = Selecting" "pool_take i (conns s) = Some (None, p)"
      "ctxErr s = None" "s' = return_race (Inr i) (s\<lparr>conns := p, pending := pending s - 1\<rparr>)"
  | (Fail) i p e where "ev = SelectResult i" "control s = Selecting" "pool_take i (conns s) = Some (Some e, p)"
      "s' = accelerate (s\<lparr>conns := p, pending := pending s - 1, lastErr := Some e, control := Top\<rparr>)"
  | (Wake) "ev = SelectWake" "control s = Selecting" "feed_wake (feed s)"
      "s' = s\<lparr>feed := (feed s)\<lparr>feed_wake := False\<rparr>, control := Top\<rparr>"
  | (Timer) t where "ev = SelectTimer" "control s = Selecting" "timer s = Some t" "t \<le> now s"
      "s' = s\<lparr>timer := None, control := Top\<rparr>"
proof (cases ev)
  case (Tick d)
  with assms that(1) show ?thesis by simp
next
  case (ContextDone e)
  with assms that(2) show ?thesis by simp
next
  case (Answer v answer)
  with assms that(3) show ?thesis by (auto simp: lookup_answer_def split: prod.splits)
next
  case (Pulse v)
  with assms that(4) show ?thesis by (simp add: lookup_pulse_def)
next
  case CloseFeed
  with assms that(5) show ?thesis by (simp add: feed_close_def)
next
  case PulseClose
  with assms that(6) show ?thesis by (simp add: close_pulse_def)
next
  case (DialReturn i c e a)
  with assms that(7) show ?thesis by (auto simp: dial_return_def split: if_splits)
next
  case (Abandon i)
  with assms that(8) show ?thesis by (auto simp: dial_abandon_def split: if_splits)
next
  case CheckDue
  with assms that(9) show ?thesis by (simp add: check_due_def)
next
  case Start
  with assms that(13,14) show ?thesis
    by (cases "control s"; cases "ctxErr s") (simp_all add: start_attempt_def)
next
  case Stamp
  with assms that(15) show ?thesis by (cases "control s") (simp_all add: stamp_start_def)
next
  case SelectDone
  with assms that(16) show ?thesis by (cases "ctxErr s") (simp_all add: select_done_def)
next
  case SelectWake
  with assms that(20) show ?thesis by (simp add: select_wake_def)
next
  case SelectTimer
  with assms that(21) show ?thesis by (cases "timer s") (simp_all add: select_timer_def)
next
  case Advance
  with assms obtain due where due: "control s = Checked due" by (auto simp: take_candidate_def split: control.splits)
  show ?thesis
  proof (cases "due \<and> (feed_v4 (feed s) \<noteq> [] \<or> feed_v6 (feed s) \<noteq> [])")
    case True
    then obtain addr f where p: "popLocked (feed s) (lastFamily s) = Some (addr, f)"
      using popLocked_None [of "feed s"] by (cases "popLocked (feed s) (lastFamily s)") auto
    with True Advance due assms have
      "s' = (if addr \<noteq> [] then s\<lparr>feed := f, control := Chosen addr\<rparr> else s\<lparr>feed := f, control := Selecting\<rparr>)"
      by (auto simp: take_candidate_def advance_def Let_def)
    with True due show ?thesis by (intro Pop [OF Advance _ p]) auto
  next
    case False
    with Advance due assms show ?thesis
      using Final [OF Advance due] Wait [OF Advance due]
      by (auto simp: take_candidate_def advance_def Let_def split: if_splits)
  qed
next
  case (SelectResult i)
  with assms obtain r p where "control s = Selecting" "pool_take i (conns s) = Some (r, p)"
    by (auto simp: select_result_def split: if_splits option.splits)
  with SelectResult assms show ?thesis
    using Late [OF SelectResult] Win [OF SelectResult] Fail [OF SelectResult]
    by (cases r; cases "ctxErr s") (simp_all add: select_result_def Let_def)
qed

section \<open>Ownership of the connections\<close>

definition owner :: "race \<Rightarrow> nat set" where
  "owner s = (case control s of Returned (Inr i) \<Rightarrow> {i} | _ \<Rightarrow> {})"

definition race_pool_ok :: "race \<Rightarrow> bool" where
  "race_pool_ok s \<longleftrightarrow> pool_ok (owner s) (conns s)"

lemma owner_simps [simp]:
  "owner (return_race (Inl e) s) = {}" "owner (return_race (Inr i) s) = {i}"
  "control s = Selecting \<Longrightarrow> owner s = {}" "control s = Top \<Longrightarrow> owner s = {}"
  "control s = Checked due \<Longrightarrow> owner s = {}" "control s = Chosen addr \<Longrightarrow> owner s = {}"
  "control s = Stamping addr \<Longrightarrow> owner s = {}"
  by (simp_all add: owner_def return_race_def)

lemma return_race_fields [simp]:
  "control (return_race r s) = Returned r" "conns (return_race r s) = conns s" "begun (return_race r s) = begun s"
  "feed (return_race r s) = feed s" "pending (return_race r s) = pending s" "lastErr (return_race r s) = lastErr s"
  "nextReadyAt (return_race r s) = nextReadyAt s" "lastStart (return_race r s) = lastStart s"
  "now (return_race r s) = now s" "ctxErr (return_race r s) \<noteq> None" "timer (return_race r s) = None"
  "lookup4 (return_race r s) = lookup4 s" "lookup6 (return_race r s) = lookup6 s" "closer (return_race r s) = closer s"
  by (simp_all add: return_race_def split: option.splits)

lemma accelerate_fields [simp]:
  "control (accelerate s) = control s" "conns (accelerate s) = conns s" "begun (accelerate s) = begun s"
  "feed (accelerate s) = feed s" "pending (accelerate s) = pending s" "lastErr (accelerate s) = lastErr s"
  "lastStart (accelerate s) = lastStart s" "now (accelerate s) = now s" "ctxErr (accelerate s) = ctxErr s"
  "lookup4 (accelerate s) = lookup4 s" "lookup6 (accelerate s) = lookup6 s" "closer (accelerate s) = closer s"
  by (simp_all add: accelerate_def Let_def split: option.splits)

lemma set_lookup_fields [simp]:
  "control (set_lookup v r s) = control s" "conns (set_lookup v r s) = conns s" "begun (set_lookup v r s) = begun s"
  "feed (set_lookup v r s) = feed s" "pending (set_lookup v r s) = pending s" "lastErr (set_lookup v r s) = lastErr s"
  "nextReadyAt (set_lookup v r s) = nextReadyAt s" "lastStart (set_lookup v r s) = lastStart s"
  "now (set_lookup v r s) = now s" "ctxErr (set_lookup v r s) = ctxErr s" "timer (set_lookup v r s) = timer s"
  "closer (set_lookup v r s) = closer s"
  by (simp_all add: set_lookup_def)

lemma owner_cong: "control s' = control s \<Longrightarrow> owner s' = owner s"
  by (simp add: owner_def)

lemma slot_take: "pool_take i p = Some (r, p') \<Longrightarrow> slot p' i = Some Delivered"
  by (auto simp: pool_take_Some slot_update slot_SomeD)

lemma race_pool_step:
  assumes "race_step env ev s = Some s'" and "race_pool_ok s"
  shows "race_pool_ok s'"
  using assms(1)
proof (cases rule: race_step_cases)
  case (Late i p err)
  with assms(2) pool_ok_take [of i "conns s" None p "{}"] have "pool_ok {i} p"
    by (simp add: race_pool_ok_def)
  then have "pool_ok {} (pool_close i p)" using Late(3) by (intro pool_ok_close) (simp_all add: slot_take)
  with Late show ?thesis by (simp add: race_pool_ok_def)
next
  case (Win i p)
  with assms(2) pool_ok_take [of i "conns s" None p "{}"] show ?thesis by (simp add: race_pool_ok_def)
next
  case (Fail i p e)
  with assms(2) pool_ok_take [of i "conns s" "Some e" p "{}"] show ?thesis by (simp add: race_pool_ok_def)
next
  case (Start addr)
  with assms(2) show ?thesis by (simp add: race_pool_ok_def pool_ok_start)
qed (use assms(2) in \<open>auto simp: race_pool_ok_def owner_def split: if_splits
      intro: pool_ok_return pool_ok_drop cong: control.case_cong\<close>)

section \<open>The count of pending attempts\<close>

definition outstanding :: "race \<Rightarrow> int" where
  "outstanding s = pending s + (case control s of Stamping _ \<Rightarrow> 1 | _ \<Rightarrow> 0)"

definition pending_ok :: "race \<Rightarrow> bool" where
  "pending_ok s \<longleftrightarrow> (\<forall>r. control s \<noteq> Returned r) \<longrightarrow>
     int (card (unfinished (conns s))) \<le> outstanding s \<and>
     (ctxErr s = None \<longrightarrow> int (card (unfinished (conns s))) = outstanding s)"

lemma card_unfinished_start: "int (card (unfinished (pool_start p))) = int (card (unfinished p)) + 1"
  by simp

lemma card_unfinished_take:
  assumes "pool_take i p = Some (r, p')"
  shows "int (card (unfinished p')) = int (card (unfinished p)) - 1"
proof -
  from unfinished_take [OF assms] have u: "i \<in> unfinished p" "unfinished p' = unfinished p - {i}" by simp_all
  from card_Suc_Diff1 [OF finite_unfinished u(1)] show ?thesis unfolding u(2) by linarith
qed

lemma card_unfinished_drop: "pool_drop i p = Some p' \<Longrightarrow> card (unfinished p') \<le> card (unfinished p)"
  by (simp add: unfinished_drop card_Diff1_le)

lemma pending_step:
  assumes "race_step env ev s = Some s'" and "pending_ok s"
  shows "pending_ok s'"
  using assms(1)
proof (cases rule: race_step_cases)
  case (Start addr)
  with assms(2) card_unfinished_start [of "conns s"] show ?thesis
    by (simp add: pending_ok_def outstanding_def del: unfinished_start)
next
  case (Fail i p e)
  with assms(2) card_unfinished_take [OF Fail(3)] show ?thesis by (simp add: pending_ok_def outstanding_def)
next
  case (Abandon i p)
  with assms(2) card_unfinished_drop [OF Abandon(3)] show ?thesis
    by (cases "control s") (auto simp: pending_ok_def outstanding_def)
next
  case (Return i c e a p)
  with assms(2) unfinished_return [OF Return(3)] show ?thesis
    by (simp add: pending_ok_def outstanding_def)
next
  case (Done e)
  with assms(2) show ?thesis by (cases "control s") (simp_all add: pending_ok_def outstanding_def)
qed (use assms(2) in \<open>simp_all add: pending_ok_def outstanding_def\<close>)

section \<open>The candidates that are dialed\<close>

text \<open>Of the candidates used so far and those a feed still holds, none repeats, all are recorded as
  seen, and all that are recorded satisfy \<open>ok\<close>.\<close>

definition feed_ok :: "(string \<Rightarrow> bool) \<Rightarrow> string list \<Rightarrow> tcpFamilyFeed \<Rightarrow> bool" where
  "feed_ok ok used f \<longleftrightarrow>
     distinct (used @ feed_v4 f @ feed_v6 f) \<and> set (used @ feed_v4 f @ feed_v6 f) \<subseteq> feed_seen f \<and>
     (\<forall>addr \<in> feed_seen f. ok addr)"

lemma feed_ok_cong:
  "feed_v4 g = feed_v4 f \<Longrightarrow> feed_v6 g = feed_v6 f \<Longrightarrow> feed_seen g = feed_seen f \<Longrightarrow> feed_ok ok used g = feed_ok ok used f"
  by (simp add: feed_ok_def)

lemma feed_ok_new [simp]: "feed_ok ok [] newTCPFamilyFeed"
  by (simp add: feed_ok_def newTCPFamilyFeed_def)

lemma feed_ok_resolve:
  assumes "feed_ok ok used f"
    and "\<And>as a. answer = Inr as \<Longrightarrow> a \<in> set as \<Longrightarrow> keeps rules network host v a \<Longrightarrow> ok (JoinHostPort (IP_String a) port)"
  shows "feed_ok ok used (fst (resolveFamily rules network host port v answer f))"
proof (cases answer)
  case (Inl e)
  with assms(1) show ?thesis by (cases v) (simp_all add: resolveFamily_def feed_ok_def)
next
  case (Inr as)
  let ?c = "candidates rules network host port v as"
  let ?new = "first_occurrences (feed_seen f) ?c"
  have new: "distinct ?new" "set ?new = set ?c - feed_seen f"
    by (simp_all add: distinct_first_occurrences set_first_occurrences)
  have "\<forall>addr \<in> set ?c. ok addr" using assms(2) [OF Inr] by auto
  with new assms(1) Inr show ?thesis
    by (cases v) (simp_all add: resolveFamily_def feed_ok_def feed_simps del: set_map set_filter, blast+)
qed

lemma feed_ok_pop:
  assumes "feed_ok ok used f" and "popLocked f n = Some (addr, f')"
  shows "feed_ok ok (used @ [addr]) f' \<and> ok addr"
proof -
  from popLocked_fields [OF assms(2)] have "feed_seen f' = feed_seen f" by simp
  with assms(2) show ?thesis
    by (cases rule: popLocked_SomeE) (use assms(1) in \<open>auto simp: feed_ok_def\<close>)
qed

definition chosen :: "race \<Rightarrow> string list" where
  "chosen s = (case control s of Chosen addr \<Rightarrow> [addr] | _ \<Rightarrow> [])"

definition known_ok :: "(string \<Rightarrow> bool) \<Rightarrow> race \<Rightarrow> bool" where
  "known_ok ok s \<longleftrightarrow> feed_ok (\<lambda>addr. ok addr \<and> addr \<noteq> []) (map fst (begun s) @ chosen s) (feed s)"

text \<open>The candidates a lookup may add: addresses of its answer, of its family and of the requested
  network, that the access list allows.\<close>

definition admissible :: "race_env \<Rightarrow> race_event \<Rightarrow> string \<Rightarrow> bool" where
  "admissible env ev addr \<longleftrightarrow> (\<exists>v6 as. ev = Answer v6 (Inr as) \<and>
     (\<exists>a \<in> set as. keeps (env_rules env) (env_network env) (env_host env) v6 a \<and>
        addr = JoinHostPort (IP_String a) (env_port env)))"

lemma JoinHostPort_nonempty [simp]: "JoinHostPort h p \<noteq> []"
  by (simp add: JoinHostPort_def)

lemma chosen_simps [simp]:
  "chosen (return_race r s) = []" "control s = Chosen addr \<Longrightarrow> chosen s = [addr]" "control s = Selecting \<Longrightarrow> chosen s = []"
  "control s = Top \<Longrightarrow> chosen s = []" "control s = Checked due \<Longrightarrow> chosen s = []" "control s = Stamping addr \<Longrightarrow> chosen s = []"
  by (simp_all add: chosen_def)

lemma chosen_updates [simp]:
  "chosen (s\<lparr>now := t\<rparr>) = chosen s" "chosen (s\<lparr>ctxErr := e\<rparr>) = chosen s" "chosen (s\<lparr>conns := p\<rparr>) = chosen s"
  "chosen (s\<lparr>feed := f\<rparr>) = chosen s" "chosen (s\<lparr>closer := c\<rparr>) = chosen s" "chosen (set_lookup v r s) = chosen s"
  by (simp_all add: chosen_def)

lemma known_step:
  assumes "race_step env ev s = Some s'" and "known_ok ok s" and "\<And>addr. admissible env ev addr \<Longrightarrow> ok addr"
  shows "known_ok ok s'"
  using assms(1)
proof (cases rule: race_step_cases)
  case (Answer v answer f added)
  have "feed_ok (\<lambda>addr. ok addr \<and> addr \<noteq> []) (map fst (begun s) @ chosen s)
      (fst (resolveFamily (env_rules env) (env_network env) (env_host env) (env_port env) v answer (feed s)))"
    using assms(2) by (intro feed_ok_resolve) (auto simp: known_ok_def Answer(1) admissible_def intro!: assms(3))
  with Answer(3,4) show ?thesis by (simp add: known_ok_def)
next
  case (Pop addr f)
  with assms(2) feed_ok_pop [of "\<lambda>addr. ok addr \<and> addr \<noteq> []" "map fst (begun s)" "feed s" _ addr f]
  show ?thesis by (auto simp: known_ok_def)
next
  case (Pulse v)
  with assms(2) show ?thesis by (simp add: known_ok_def pulse_def feed_ok_def)
next
  case Close
  with assms(2) show ?thesis by (simp add: known_ok_def feed_ok_def)
next
  case PulseClose
  with assms(2) show ?thesis by (simp add: known_ok_def pulse_def feed_ok_def)
next
  case Wake
  with assms(2) show ?thesis by (simp add: known_ok_def feed_ok_def)
next
  case (Refuse addr err)
  with assms(2) show ?thesis by (simp add: known_ok_def feed_ok_def)
qed (use assms(2) in \<open>simp_all add: known_ok_def\<close>)

lemma known_mono: "known_ok ok s \<Longrightarrow> (\<And>addr. ok addr \<Longrightarrow> ok' addr) \<Longrightarrow> known_ok ok' s"
  by (auto simp: known_ok_def feed_ok_def)

lemma known_new: "known_ok ok (new_race t err)"
  by (simp add: known_ok_def new_race_def)

lemma known_trace:
  "run_trace (race_step env) evs (new_race t err) = Some s \<Longrightarrow>
     known_ok (\<lambda>addr. \<exists>ev \<in> set evs. admissible env ev addr) s"
proof (induction evs arbitrary: s rule: rev_induct)
  case Nil
  then show ?case using known_new [of _ t err] by simp
next
  case (snoc ev evs)
  then obtain s1 where "run_trace (race_step env) evs (new_race t err) = Some s1" "race_step env ev s1 = Some s"
    by (auto simp: run_trace_snoc)
  with snoc.IH [of s1] show ?case by (intro known_step [of env ev s1 s]) (auto elim: known_mono)
qed

section \<open>Spacing of the starts\<close>

definition spaced :: "int \<Rightarrow> (string \<times> int) list \<Rightarrow> bool" where
  "spaced d = successively (\<lambda>p q. snd p + d \<le> snd q)"

lemma spaced_Nil [simp]: "spaced d []"
  by (simp add: spaced_def)

lemma spaced_snoc: "spaced d (xs @ [p]) \<longleftrightarrow> spaced d xs \<and> (xs \<noteq> [] \<longrightarrow> snd (last xs) + d \<le> snd p)"
  by (auto simp: spaced_def successively_append_iff)

text \<open>The gap the scheduler keeps: the minimum after a failed dial, the fallback delay otherwise.\<close>

definition gap :: "race \<Rightarrow> int" where
  "gap s = (if lastErr s = None then tcpFallbackDelay else tcpMinimumDelay)"

definition ready_ok :: "race \<Rightarrow> bool" where
  "ready_ok s \<longleftrightarrow> snd (last (begun s)) \<le> lastStart s \<and>
     (case nextReadyAt s of
        None \<Rightarrow> False
      | Some t \<Rightarrow> snd (last (begun s)) + gap s \<le> t \<and>
          (control s = Checked True \<or> chosen s \<noteq> [] \<longrightarrow> t \<le> now s))"

definition timing_ok :: "race \<Rightarrow> bool" where
  "timing_ok s \<longleftrightarrow> spaced (gap s) (begun s) \<and> (begun s \<noteq> [] \<longrightarrow> snd (last (begun s)) \<le> now s) \<and>
     (begun s \<noteq> [] \<and> (\<forall>addr. control s \<noteq> Stamping addr) \<longrightarrow> ready_ok s)"

lemma spaced_mono: "spaced d xs \<Longrightarrow> e \<le> d \<Longrightarrow> spaced e xs"
  unfolding spaced_def by (erule successively_mono) auto

lemma gap_bounds: "tcpMinimumDelay \<le> gap s" "gap s \<le> tcpFallbackDelay"
  by (simp_all add: gap_def tcpMinimumDelay_def tcpFallbackDelay_def)

lemma gap_updates [simp]:
  "gap (return_race r s) = gap s" "gap (set_lookup v rv s) = gap s" "gap (s\<lparr>control := c\<rparr>) = gap s"
  "gap (s\<lparr>now := t\<rparr>) = gap s" "gap (s\<lparr>ctxErr := e\<rparr>) = gap s" "gap (s\<lparr>conns := p\<rparr>) = gap s"
  "gap (s\<lparr>feed := f\<rparr>) = gap s" "gap (s\<lparr>pending := k\<rparr>) = gap s" "gap (s\<lparr>timer := d\<rparr>) = gap s"
  "gap (s\<lparr>closer := c'\<rparr>) = gap s" "gap (s\<lparr>begun := b\<rparr>) = gap s" "gap (s\<lparr>nextReadyAt := d\<rparr>) = gap s"
  "gap (s\<lparr>lastFamily := n\<rparr>) = gap s" "gap (s\<lparr>lastStart := t\<rparr>) = gap s"
  "gap (s\<lparr>lastErr := Some err\<rparr>) = tcpMinimumDelay"
  by (simp_all add: gap_def)

lemma timing_fail:
  assumes "timing_ok s" and "control s = Selecting"
  shows "timing_ok (accelerate (s\<lparr>conns := p, pending := k, lastErr := Some e, control := Top\<rparr>))" (is "timing_ok ?s")
proof -
  have g: "gap ?s = tcpMinimumDelay" by (simp add: gap_def)
  have "spaced tcpMinimumDelay (begun s)"
    using assms(1) gap_bounds(1) [of s] by (auto simp: timing_ok_def intro: spaced_mono)
  moreover have "ready_ok ?s" if "begun s \<noteq> []"
    using that assms gap_bounds(1) [of s]
    by (auto simp: timing_ok_def ready_ok_def g accelerate_def Let_def split: option.splits)
  ultimately show ?thesis using assms(1) unfolding timing_ok_def g by simp
qed

lemma timing_step:
  assumes "race_step env ev s = Some s'" and "timing_ok s"
  shows "timing_ok s'"
  using assms(1)
proof (cases rule: race_step_cases)
  case (Fail i p e)
  with timing_fail [OF assms(2)] show ?thesis by simp
next
  case (Start addr)
  with assms(2) show ?thesis
    by (auto simp: timing_ok_def ready_ok_def spaced_snoc split: option.splits)
next
  case (Stamp addr)
  with assms(2) gap_bounds(2) [of s] show ?thesis
    by (auto simp: timing_ok_def ready_ok_def)
qed (use assms(2) in \<open>auto simp: timing_ok_def ready_ok_def split: option.splits if_splits\<close>)

section \<open>No wakeup is lost\<close>

definition vacant :: "race \<Rightarrow> bool" where
  "vacant s \<longleftrightarrow> feed_v4 (feed s) = [] \<and> feed_v6 (feed s) = []"

text \<open>A scheduler that waits has a reason to: for every condition it could act on there is a wake
  signal, a pulse still to come, or an armed timer.\<close>

definition wait_ok :: "race \<Rightarrow> bool" where
  "wait_ok s \<longleftrightarrow>
     (\<not> vacant s \<longrightarrow> feed_wake (feed s) \<or> lookup4 s = Pulsing \<or> lookup6 s = Pulsing \<or> timer s \<noteq> None) \<and>
     (feed_closed (feed s) \<and> vacant s \<and> pending s = 0 \<longrightarrow> feed_wake (feed s) \<or> closer s = ClosePulse)"

definition timer_ok :: "race \<Rightarrow> bool" where
  "timer_ok s \<longleftrightarrow> (\<forall>t. nextReadyAt s = Some t \<longrightarrow> (timer s = None \<longrightarrow> t \<le> now s) \<and> (\<forall>d. timer s = Some d \<longrightarrow> t \<le> d))"

definition wake_ok :: "race \<Rightarrow> bool" where
  "wake_ok s \<longleftrightarrow> (feed_closed (feed s) \<longleftrightarrow> closer s \<noteq> Waiting) \<and>
     (closer s \<noteq> Waiting \<longrightarrow> lookup4 s = Resolved \<and> lookup6 s = Resolved) \<and>
     (case control s of
        Returned _ \<Rightarrow> True
      | Selecting \<Rightarrow> timer_ok s \<and> wait_ok s
      | Checked due \<Rightarrow> timer_ok s \<and> (due \<or> timer s \<noteq> None)
      | _ \<Rightarrow> timer_ok s)"

lemma resolve_not_added:
  assumes "resolveFamily rules network host port v answer f = (f', False)"
  shows "feed_v4 f' = feed_v4 f \<and> feed_v6 f' = feed_v6 f"
proof (cases answer)
  case (Inl e)
  with assms show ?thesis by (cases v) (auto simp: resolveFamily_def)
next
  case (Inr as)
  let ?r = "admitAddresses rules network host port v as f False"
  from Inr assms have r: "f' = fst ?r" "\<not> snd ?r" by (simp_all add: resolveFamily_def)
  from r(2) have "first_occurrences (feed_seen f) (candidates rules network host port v as) = []"
    unfolding feed_simps by simp
  then show ?thesis unfolding r(1) by (cases v) (simp_all add: feed_simps)
qed

lemma timer_ok_accelerate: "timer_ok s \<Longrightarrow> timer_ok (accelerate s)"
  by (auto simp: timer_ok_def accelerate_def Let_def split: option.splits)

lemma wake_answer:
  assumes "wake_ok s"
    and "resolveFamily rules network host port v answer (feed s) = (f, added)" and "lookup_of v s = Looking"
  shows "wake_ok (set_lookup v (if added then Pulsing else Resolved) (s\<lparr>feed := f\<rparr>))"
proof -
  from assms(2) resolveFamily_fields [of rules network host port v answer "feed s"]
  have "feed_closed f = feed_closed (feed s)" "feed_wake f = feed_wake (feed s)" by simp_all
  moreover have "feed_v4 f = feed_v4 (feed s) \<and> feed_v6 f = feed_v6 (feed s)" if "\<not> added"
    using that assms(2) resolve_not_added [of rules network host port v answer "feed s" f] by simp
  ultimately show ?thesis using assms(1,3)
    by (cases added; cases v; cases "control s"; cases "closer s")
      (simp_all add: wake_ok_def timer_ok_def wait_ok_def vacant_def set_lookup_def lookup_of_def)
qed

lemma wake_step:
  assumes "race_step env ev s = Some s'" and "known_ok ok s" and "wake_ok s"
  shows "wake_ok s'"
  using assms(1)
proof (cases rule: race_step_cases)
  case (Tick d)
  with assms(3) show ?thesis
    by (cases "control s") (auto simp: wake_ok_def wait_ok_def timer_ok_def vacant_def split: option.splits)
next
  case (Answer v answer f added)
  with wake_answer [OF assms(3)] show ?thesis by simp
next
  case (Pulse v)
  with assms(3) show ?thesis
    by (cases "control s"; cases v) (simp_all add: wake_ok_def wait_ok_def timer_ok_def vacant_def pulse_def set_lookup_def lookup_of_def)
next
  case Close
  with assms(3) show ?thesis
    by (cases "control s") (simp_all add: wake_ok_def wait_ok_def timer_ok_def vacant_def)
next
  case PulseClose
  with assms(3) show ?thesis
    by (cases "control s") (simp_all add: wake_ok_def wait_ok_def timer_ok_def vacant_def pulse_def)
next
  case Check
  with assms(3) show ?thesis
    by (auto simp: wake_ok_def timer_ok_def split: option.splits)
next
  case (Pop addr f)
  with assms(2) feed_ok_pop [of "\<lambda>addr. ok addr \<and> addr \<noteq> []" "map fst (begun s)" "feed s" _ addr f] have "addr \<noteq> []"
    by (auto simp: known_ok_def)
  with Pop assms(3) popLocked_fields [OF Pop(3)] show ?thesis by (simp add: wake_ok_def timer_ok_def)
next
  case (Wait due)
  with assms(3) show ?thesis by (auto simp: wake_ok_def wait_ok_def timer_ok_def vacant_def)
next
  case (Fail i p e)
  with assms(3) timer_ok_accelerate [of "s\<lparr>conns := p, pending := pending s - 1, lastErr := Some e, control := Top\<rparr>"]
  show ?thesis by (simp add: wake_ok_def timer_ok_def)
next
  case (Timer t)
  with assms(3) show ?thesis by (auto simp: wake_ok_def timer_ok_def)
next
  case (Done e)
  with assms(3) show ?thesis by (cases "control s") (simp_all add: wake_ok_def wait_ok_def timer_ok_def vacant_def)
next
  case (Return i c e a p)
  with assms(3) show ?thesis by (cases "control s") (simp_all add: wake_ok_def wait_ok_def timer_ok_def vacant_def)
next
  case (Abandon i p)
  with assms(3) show ?thesis by (cases "control s") (simp_all add: wake_ok_def wait_ok_def timer_ok_def vacant_def)
qed (use assms(3) in \<open>simp_all add: wake_ok_def timer_ok_def\<close>)

text \<open>The invariants together.\<close>

definition race_ok :: "race \<Rightarrow> bool" where
  "race_ok s \<longleftrightarrow> race_pool_ok s \<and> pending_ok s \<and> known_ok (\<lambda>_. True) s \<and> timing_ok s \<and> wake_ok s"

interpretation tcp_race: preserved "race_step env" race_ok for env
  by unfold_locales
    (auto simp: race_ok_def intro: race_pool_step pending_step known_step timing_step wake_step)

lemma race_ok_new: "race_ok (new_race t err)"
  by (simp add: race_ok_def new_race_def race_pool_ok_def pending_ok_def outstanding_def unfinished_def
      empty_pool_def slot_def known_ok_def timing_ok_def wake_ok_def timer_ok_def owner_def pool_ok_def
      newTCPFamilyFeed_def feed_ok_def)

lemma race_trace_ok: "run_trace (race_step env) evs (new_race t err) = Some s \<Longrightarrow> race_ok s"
  by (rule tcp_race.trace_invar [OF _ race_ok_new])

end
