(* ===== verification/Tcp_Race.thy ===== *)
theory Tcp_Race
  imports Tcp_Incremental
begin

text \<open>
  What the incremental race guarantees in every execution: which addresses it dials and how the
  starts are spaced, who owns the connections, which errors it returns, that it cannot be stuck,
  and that only finitely many of its steps are not the passing of time.
\<close>

section \<open>An execution\<close>

text \<open>Two addresses, the second tried when the fallback timer fires; the second attempt wins and the
  first one, which connects too late, closes its connection.\<close>

definition sample_race_env :: race_env where
  "sample_race_env = \<lparr>env_rules = [aclAllRule True], env_network = ''tcp'', env_host = ''a.b'', env_port = ''443''\<rparr>"

definition sample_start_events :: "race_event list" where
  "sample_start_events =
     [Answer False (Inr [[192, 0, 2, 1], [192, 0, 2, 2]]), Pulse False, CheckDue, Advance, Start, Stamp]"

definition sample_second_events :: "race_event list" where
  "sample_second_events =
     [CheckDue, Advance, SelectWake, CheckDue, Advance, Tick 250000000, SelectTimer, CheckDue, Advance, Start, Stamp]"

definition sample_end_events :: "race_event list" where
  "sample_end_events =
     [CheckDue, Advance, DialReturn 1 True None None, SelectResult 1,
      DialReturn 0 True None (Some ContextCanceled), Abandon 0]"

definition sample_started :: race where
  "sample_started = \<lparr>
     feed = newTCPFamilyFeed\<lparr>feed_v4 := [''192.0.2.2:443''], feed_seen := {''192.0.2.2:443'', ''192.0.2.1:443''},
       feed_wake := True, passedACL := 2\<rparr>,
     lookup4 = Resolved, lookup6 = Looking, closer = Waiting,
     conns = \<lparr>slots = [Dialing], opened = {}, closed_conns = {}\<rparr>, begun = [(''192.0.2.1:443'', 0)], pending = 1,
     lastStart = 0, lastFamily = 4, lastErr = None, nextReadyAt = Some 250000000, timer = Some 250000000, now = 0,
     ctxErr = None, control = Top\<rparr>"

lemma familyByte_samples: "familyByte ''192.0.2.1:443'' = 4" "familyByte ''192.0.2.2:443'' = 4"
  by (simp_all add: familyByte_def policy_eval go_eval)

lemma sample_start: "run_trace (race_step sample_race_env) sample_start_events (new_race 0 None) = Some sample_started"
  by (simp add: sample_start_events_def new_race_def race_defs sample_race_env_def resolveFamily_def newTCPFamilyFeed_def
      lookup_of_def set_lookup_def pulse_def guarded_def advance_def popLocked_def pool_start_def empty_pool_def
      sample_started_def tcpFallbackDelay_def familyByte_samples policy_eval go_eval)

definition sample_second :: race where
  "sample_second = sample_started\<lparr>
     feed := newTCPFamilyFeed\<lparr>feed_seen := {''192.0.2.2:443'', ''192.0.2.1:443''}, passedACL := 2\<rparr>,
     conns := \<lparr>slots = [Dialing, Dialing], opened = {}, closed_conns = {}\<rparr>,
     begun := [(''192.0.2.1:443'', 0), (''192.0.2.2:443'', 250000000)], pending := 2,
     lastStart := 250000000, nextReadyAt := Some 500000000, timer := Some 500000000, now := 250000000\<rparr>"

lemma sample_continue:
  "run_trace (race_step sample_race_env) sample_second_events sample_started = Some sample_second"
  by (simp add: sample_second_events_def sample_started_def sample_second_def race_defs newTCPFamilyFeed_def
      guarded_def advance_def popLocked_def pool_start_def tcpFallbackDelay_def familyByte_samples)

definition sample_finished :: race where
  "sample_finished = sample_second\<lparr>
     conns := \<lparr>slots = [Dropped, Delivered], opened = {0, 1}, closed_conns = {0}\<rparr>, pending := 1,
     timer := None, ctxErr := Some ContextCanceled, control := Returned (Inr 1)\<rparr>"

lemma sample_finish: "run_trace (race_step sample_race_env) sample_end_events sample_second = Some sample_finished"
  by (simp add: sample_end_events_def sample_started_def sample_second_def sample_finished_def race_defs newTCPFamilyFeed_def
      guarded_def advance_def pool_return_def pool_take_def pool_drop_def return_race_def numeral_eq_Suc)

definition sample_events :: "race_event list" where
  "sample_events = sample_start_events @ sample_second_events @ sample_end_events"

lemma sample_trace: "run_trace (race_step sample_race_env) sample_events (new_race 0 None) = Some sample_finished"
  by (simp add: sample_events_def run_trace_append sample_start sample_continue sample_finish)

lemma sample_fields:
  "begun sample_finished = [(''192.0.2.1:443'', 0), (''192.0.2.2:443'', 250000000)]"
  "lastErr sample_finished = None" "control sample_finished = Returned (Inr 1)"
  "conns sample_finished = \<lparr>slots = [Dropped, Delivered], opened = {0, 1}, closed_conns = {0}\<rparr>"
  by (simp_all add: sample_finished_def sample_second_def sample_started_def)

section \<open>Dialed addresses\<close>

text \<open>
  (C2) The race dials only checked addresses, and none twice: in every execution, whatever the
  resolver answers and however the goroutines interleave, the started addresses are distinct, and
  each is the printed form of an address of one of the two lookup answers that the access list
  allows for the host and that belongs to the family asked for and to the requested network.
\<close>

theorem race_dials_approved:
  assumes "run_trace (race_step env) evs (new_race t err) = Some s"
  shows "distinct (map fst (begun s)) \<and>
    (\<forall>(addr, u) \<in> set (begun s). \<exists>v6 as a. Answer v6 (Inr as) \<in> set evs \<and> a \<in> set as \<and>
       hostIsAllowed (env_rules env) (env_host env) a \<and> a \<noteq> [] \<and> (To4 a = []) = v6 \<and>
       (env_network env = ''tcp4'' \<longrightarrow> \<not> v6) \<and> (env_network env = ''tcp6'' \<longrightarrow> v6) \<and>
       addr = JoinHostPort (IP_String a) (env_port env))"
proof -
  let ?ok = "\<lambda>addr. \<exists>ev \<in> set evs. admissible env ev addr"
  from known_trace [OF assms] have k: "distinct (map fst (begun s))" "\<forall>addr \<in> set (map fst (begun s)). ?ok addr"
    by (auto simp: known_ok_def feed_ok_def)
  have "\<exists>v6 as a. Answer v6 (Inr as) \<in> set evs \<and> a \<in> set as \<and>
       hostIsAllowed (env_rules env) (env_host env) a \<and> a \<noteq> [] \<and> (To4 a = []) = v6 \<and>
       (env_network env = ''tcp4'' \<longrightarrow> \<not> v6) \<and> (env_network env = ''tcp6'' \<longrightarrow> v6) \<and>
       addr = JoinHostPort (IP_String a) (env_port env)" if "?ok addr" for addr
  proof -
    from that obtain v6 as a where a: "Answer v6 (Inr as) \<in> set evs" "a \<in> set as"
        "keeps (env_rules env) (env_network env) (env_host env) v6 a" "addr = JoinHostPort (IP_String a) (env_port env)"
      by (auto simp: admissible_def)
    show ?thesis by (rule exI [of _ v6], rule exI [of _ as], rule exI [of _ a]) (use a in \<open>auto simp: keeps_def\<close>)
  qed
  with k show ?thesis by fastforce
qed

theorem race_dials_approved_witness:
  "distinct (map fst (begun sample_finished)) \<and> ''192.0.2.2:443'' \<in> set (map fst (begun sample_finished)) \<and>
   (\<exists>v6 as a. Answer v6 (Inr as) \<in> set sample_events \<and> a \<in> set as \<and>
      hostIsAllowed [aclAllRule True] ''a.b'' a \<and> ''192.0.2.2:443'' = JoinHostPort (IP_String a) ''443'')"
  using race_dials_approved [OF sample_trace] by (auto simp: sample_fields sample_race_env_def)

text \<open>
  (C19) Starts are spaced: in every execution, however late the scheduler runs and whatever DNS
  signals arrive, two consecutive dial starts are at least 100 ms apart, and at least 250 ms
  apart as long as no dial has failed.
\<close>

theorem race_spacing:
  assumes "run_trace (race_step env) evs (new_race t err) = Some s" and "Suc i < length (begun s)"
  shows "snd (begun s ! i) + 100 * millisecond \<le> snd (begun s ! Suc i) \<and>
    (lastErr s = None \<longrightarrow> snd (begun s ! i) + 250 * millisecond \<le> snd (begun s ! Suc i))"
proof -
  from race_trace_ok [OF assms(1)] have "spaced (gap s) (begun s)" by (simp add: race_ok_def timing_ok_def)
  with assms(2) have "snd (begun s ! i) + gap s \<le> snd (begun s ! Suc i)"
    by (simp add: spaced_def successively_conv_nth)
  then show ?thesis by (auto simp: gap_def tcpMinimumDelay_def tcpFallbackDelay_def split: if_splits)
qed

theorem race_spacing_witness:
  "snd (begun sample_finished ! 0) + 250 * millisecond \<le> snd (begun sample_finished ! 1)"
  using race_spacing [OF sample_trace, of 0] by (simp add: sample_fields)

section \<open>Ownership\<close>

lemma slot_in_set: "slot p i = Some a \<Longrightarrow> a \<in> set (slots p)"
  by (auto simp: slot_def split: if_splits)

text \<open>
  (C9) One winner and no leak: in every execution a connection the race returns is open, and once
  every started attempt has delivered or dropped its result the open connections are exactly the
  returned one, or none if the race returned an error; a loser that connects late is closed.
\<close>

theorem race_no_leak:
  assumes "run_trace (race_step env) evs (new_race t err) = Some s"
  shows "(\<forall>i. control s = Returned (Inr i) \<longrightarrow> i \<in> opened (conns s) - closed_conns (conns s)) \<and>
    ((\<forall>a \<in> set (slots (conns s)). a = Delivered \<or> a = Dropped) \<longrightarrow>
     opened (conns s) - closed_conns (conns s) = (case control s of Returned (Inr i) \<Rightarrow> {i} | _ \<Rightarrow> {}))"
proof -
  from race_trace_ok [OF assms] have ok: "pool_ok (owner s) (conns s)" by (simp add: race_ok_def race_pool_ok_def)
  have "i \<in> opened (conns s) - closed_conns (conns s)" if "i \<in> owner s" for i
    using ok that by (rule pool_ok_owned)
  moreover have "unfinished (conns s) = {}" if "\<forall>a \<in> set (slots (conns s)). a = Delivered \<or> a = Dropped"
    using that by (auto simp: unfinished_def dest: slot_in_set)
  ultimately show ?thesis
    using pool_ok_live [OF ok] by (auto simp: owner_def live_def)
qed

theorem race_no_leak_witness:
  "opened (conns sample_finished) - closed_conns (conns sample_finished) = {1}"
  using race_no_leak [OF sample_trace] by (simp add: sample_fields)

section \<open>Errors\<close>

text \<open>What the feed holds of the lookup answers of an execution.\<close>

definition allowed_answer :: "race_env \<Rightarrow> race_event list \<Rightarrow> bool" where
  "allowed_answer env evs \<longleftrightarrow> (\<exists>v6 as. Answer v6 (Inr as) \<in> set evs \<and>
     (\<exists>a \<in> set as. a \<noteq> [] \<and> hostIsAllowed (env_rules env) (env_host env) a))"

definition answers_ok :: "race_env \<Rightarrow> race_event list \<Rightarrow> tcpFamilyFeed \<Rightarrow> bool" where
  "answers_ok env evs f \<longleftrightarrow> (\<forall>e. errV4 f = Some e \<longrightarrow> Answer False (Inl e) \<in> set evs) \<and>
     (\<forall>e. errV6 f = Some e \<longrightarrow> Answer True (Inl e) \<in> set evs) \<and> (passedACL f = 0 \<longleftrightarrow> \<not> allowed_answer env evs)"

lemma allowed_answer_snoc:
  "allowed_answer env (evs @ [Answer v (Inr as)]) \<longleftrightarrow>
     allowed_answer env evs \<or> (\<exists>a \<in> set as. a \<noteq> [] \<and> hostIsAllowed (env_rules env) (env_host env) a)"
  "(\<And>v6 as. ev \<noteq> Answer v6 (Inr as)) \<Longrightarrow> allowed_answer env (evs @ [ev]) = allowed_answer env evs"
proof -
  show "allowed_answer env (evs @ [Answer v (Inr as)]) \<longleftrightarrow>
      allowed_answer env evs \<or> (\<exists>a \<in> set as. a \<noteq> [] \<and> hostIsAllowed (env_rules env) (env_host env) a)"
    unfolding allowed_answer_def by force
  show "allowed_answer env (evs @ [ev]) = allowed_answer env evs" if "\<And>v6 as. ev \<noteq> Answer v6 (Inr as)"
    using that [symmetric] unfolding allowed_answer_def by simp
qed

lemma answers_resolve:
  assumes "answers_ok env evs f"
  shows "answers_ok env (evs @ [Answer v answer])
    (fst (resolveFamily (env_rules env) (env_network env) (env_host env) (env_port env) v answer f))"
proof (cases answer)
  case (Inl e)
  with assms show ?thesis by (cases v) (auto simp: resolveFamily_def answers_ok_def allowed_answer_snoc(2))
next
  case (Inr as)
  with assms show ?thesis
    by (auto simp: resolveFamily_def answers_ok_def allowed_answer_snoc(1) feed_simps filter_empty_conv)
qed

lemma answers_other:
  assumes "answers_ok env evs f" and "\<And>v6 answer. ev \<noteq> Answer v6 answer"
    and "errV4 g = errV4 f" "errV6 g = errV6 f" "passedACL g = passedACL f"
  shows "answers_ok env (evs @ [ev]) g"
  using assms by (auto simp: answers_ok_def allowed_answer_snoc(2))

lemma answers_step:
  assumes "race_step env ev s = Some s'" and "answers_ok env evs (feed s)"
  shows "answers_ok env (evs @ [ev]) (feed s')"
  using assms(1)
proof (cases rule: race_step_cases)
  case (Answer v answer f added)
  with answers_resolve [OF assms(2), of v answer] show ?thesis by simp
next
  case (Pop addr f)
  with answers_other [OF assms(2), of ev f] popLocked_fields [OF Pop(3)] show ?thesis by simp
qed (use answers_other [OF assms(2), of ev "feed s'"] in \<open>simp_all add: pulse_def\<close>)

lemma answers_trace:
  "run_trace (race_step env) evs (new_race t err) = Some s \<Longrightarrow> answers_ok env evs (feed s)"
proof (induction evs arbitrary: s rule: rev_induct)
  case Nil
  then show ?case by (auto simp: answers_ok_def allowed_answer_def new_race_def newTCPFamilyFeed_def)
next
  case (snoc ev evs)
  then show ?case by (auto simp: run_trace_snoc intro: answers_step)
qed

text \<open>Without a failure every started attempt is pending; the error of a race that gives up.\<close>

definition gave_up :: "race \<Rightarrow> goerror \<Rightarrow> bool" where
  "gave_up s e \<longleftrightarrow> feed_closed (feed s) \<and> vacant s \<and> (begun s \<noteq> [] \<longrightarrow> lastErr s = Some e) \<and>
     (begun s = [] \<longrightarrow> e = finalError (feed s) 0 (lastErr s))"

definition result_ok :: "race \<Rightarrow> bool" where
  "result_ok s \<longleftrightarrow> (\<forall>r. control s = Returned r \<longrightarrow> ctxErr s \<noteq> None) \<and>
     (\<forall>e. control s = Returned (Inl e) \<longrightarrow> ctxErr s = Some e \<or> gave_up s e) \<and>
     ((\<forall>r. control s \<noteq> Returned r) \<and> lastErr s = None \<longrightarrow> outstanding s = int (length (begun s)))"

lemma ctxErr_return [simp]: "ctxErr s = Some e \<Longrightarrow> ctxErr (return_race r s) = Some e"
  by (simp add: return_race_def)

lemma finalError_flags [simp]:
  "finalError (f\<lparr>feed_wake := b\<rparr>) n e = finalError f n e" "finalError (f\<lparr>feed_closed := b\<rparr>) n e = finalError f n e"
  by (simp_all add: finalError_def)

lemma result_new: "result_ok (new_race t err)"
  by (simp add: result_ok_def new_race_def outstanding_def)

lemma result_step:
  assumes "race_step env ev s = Some s'" and "wake_ok s" and "result_ok s"
  shows "result_ok s'"
  using assms(1)
proof (cases rule: race_step_cases)
  case (Answer v answer f added)
  with assms(2) have "closer s = Waiting" by (auto simp: wake_ok_def lookup_of_def split: if_splits)
  with assms(2) have "\<not> feed_closed (feed s)" by (simp add: wake_ok_def)
  with Answer assms(3) show ?thesis by (simp add: result_ok_def outstanding_def gave_up_def)
next
  case Close
  with assms(3) show ?thesis by (auto simp: result_ok_def outstanding_def gave_up_def vacant_def)
next
  case (Final due)
  have "begun s \<noteq> [] \<Longrightarrow> lastErr s \<noteq> None"
    using Final(2,6) assms(3) by (auto simp: result_ok_def outstanding_def)
  with Final show ?thesis by (auto simp: result_ok_def gave_up_def vacant_def finalError_def)
qed (use assms(3) in \<open>simp_all add: result_ok_def outstanding_def gave_up_def vacant_def pulse_def\<close>)

lemma result_trace: "run_trace (race_step env) evs (new_race t err) = Some s \<Longrightarrow> result_ok s"
proof (induction evs arbitrary: s rule: rev_induct)
  case Nil
  then show ?case using result_new [of t err] by simp
next
  case (snoc ev evs)
  then obtain s1 where s1: "run_trace (race_step env) evs (new_race t err) = Some s1" "race_step env ev s1 = Some s"
    by (auto simp: run_trace_snoc)
  from race_trace_ok [OF s1(1)] have "wake_ok s1" by (simp add: race_ok_def)
  from result_step [OF s1(2) this snoc.IH [OF s1(1)]] show ?case .
qed

lemma finalError_unstarted:
  assumes "answers_ok env evs f"
  shows "(\<exists>e4 e6. Answer False (Inl e4) \<in> set evs \<and> Answer True (Inl e6) \<in> set evs \<and>
       finalError f 0 le = TargetPolicyFailure targetPolicyLookupFailed (Some e4)) \<or>
     \<not> allowed_answer env evs \<and> finalError f 0 le = TargetPolicyFailure targetPolicyNoAllowedAddress None \<or>
     allowed_answer env evs \<and> finalError f 0 le = ErrTCPDialFailed"
proof (cases "errV4 f = None \<or> errV6 f = None")
  case True
  then have "finalError f 0 le = (if passedACL f = 0 then TargetPolicyFailure targetPolicyNoAllowedAddress None
      else ErrTCPDialFailed)" by (auto simp: finalError_def)
  with assms show ?thesis by (auto simp: answers_ok_def)
next
  case False
  then obtain e4 e6 where "errV4 f = Some e4" "errV6 f = Some e6" by auto
  with assms show ?thesis by (auto simp: answers_ok_def finalError_def)
qed

text \<open>
  The error of a failed race tells why it failed, in every execution.  It is the error of the
  request context, or both lookups have answered, no candidate is left, and: if a dial was
  started it is the error of the last dial that failed; otherwise it is the lookup failure
  carrying the IPv4 lookup's error when both lookups failed, the access-list refusal when no
  address of any answer was allowed, and the generic dial failure when some address was allowed
  but none was of the requested family.
\<close>

theorem race_errors:
  assumes "run_trace (race_step env) evs (new_race t err) = Some s" and "control s = Returned (Inl e)"
  shows "ctxErr s = Some e \<or>
    (lookup4 s = Resolved \<and> lookup6 s = Resolved \<and> feed_v4 (feed s) = [] \<and> feed_v6 (feed s) = [] \<and>
     (if begun s \<noteq> [] then lastErr s = Some e
      else (\<exists>e4 e6. Answer False (Inl e4) \<in> set evs \<and> Answer True (Inl e6) \<in> set evs \<and>
              e = TargetPolicyFailure targetPolicyLookupFailed (Some e4)) \<or>
           \<not> allowed_answer env evs \<and> e = TargetPolicyFailure targetPolicyNoAllowedAddress None \<or>
           allowed_answer env evs \<and> e = ErrTCPDialFailed))"
proof -
  from result_trace [OF assms(1)] assms(2) have "ctxErr s = Some e \<or> gave_up s e" by (simp add: result_ok_def)
  moreover from race_trace_ok [OF assms(1)] have "wake_ok s" by (simp add: race_ok_def)
  moreover note finalError_unstarted [OF answers_trace [OF assms(1)], of "lastErr s"]
  ultimately show ?thesis by (cases "begun s = []") (auto simp: gave_up_def vacant_def wake_ok_def)
qed

definition denied_events :: "race_event list" where
  "denied_events = [Answer False (Inr [[192, 0, 2, 1]]), Answer True (Inl (NetError False)), CloseFeed, PulseClose,
     CheckDue, Advance]"

lemma denied_trace:
  "\<exists>s. run_trace (race_step (sample_race_env\<lparr>env_rules := []\<rparr>)) denied_events (new_race 0 None) = Some s \<and>
     control s = Returned (Inl (TargetPolicyFailure targetPolicyNoAllowedAddress None)) \<and>
     ctxErr s = Some ContextCanceled \<and> begun s = []"
  by (simp add: denied_events_def new_race_def race_defs resolveFamily_def newTCPFamilyFeed_def
      lookup_of_def set_lookup_def pulse_def guarded_def advance_def return_race_def finalError_def empty_pool_def)

theorem race_errors_witness:
  "\<exists>s. run_trace (race_step (sample_race_env\<lparr>env_rules := []\<rparr>)) denied_events (new_race 0 None) = Some s \<and>
     lookup4 s = Resolved \<and> \<not> allowed_answer (sample_race_env\<lparr>env_rules := []\<rparr>) denied_events"
proof -
  from denied_trace obtain s where s:
    "run_trace (race_step (sample_race_env\<lparr>env_rules := []\<rparr>)) denied_events (new_race 0 None) = Some s"
    "control s = Returned (Inl (TargetPolicyFailure targetPolicyNoAllowedAddress None))"
    "ctxErr s = Some ContextCanceled" "begun s = []" by blast
  from race_errors [OF s(1,2)] s show ?thesis by auto
qed

section \<open>Progress\<close>

text \<open>Events the environment supplies: time, the request context, lookup answers and dial outcomes.\<close>

fun external :: "race_event \<Rightarrow> bool" where
  "external (Tick d) = True"
| "external (ContextDone e) = True"
| "external (Answer v answer) = True"
| "external (DialReturn i c e a) = True"
| "external _ = False"

definition enabled :: "race_env \<Rightarrow> race \<Rightarrow> bool" where
  "enabled env s \<longleftrightarrow> (\<exists>ev. \<not> external ev \<and> race_step env ev s \<noteq> None)"

lemma enabledI: "race_step env ev s = Some s' \<Longrightarrow> \<not> external ev \<Longrightarrow> enabled env s"
  by (auto simp: enabled_def)

lemma running_enabled:
  assumes "\<forall>r. control s \<noteq> Returned r" and "control s \<noteq> Selecting"
  shows "enabled env s"
proof (cases "control s")
  case Top
  then show ?thesis by (intro enabledI [of env CheckDue]) (simp_all add: check_due_def)
next
  case (Checked due)
  then have "race_step env Advance s \<noteq> None" by (auto simp: take_candidate_def split: prod.splits)
  then show ?thesis unfolding enabled_def by (intro exI [of _ Advance]) simp
next
  case (Chosen addr)
  then show ?thesis by (intro enabledI [of env Start]) (simp_all add: start_attempt_def)
next
  case (Stamping addr)
  then show ?thesis by (intro enabledI [of env Stamp]) (simp_all add: stamp_start_def)
qed (use assms in auto)

lemma lookups_enabled:
  assumes "\<not> enabled env s" and "lookup4 s \<noteq> Looking" and "lookup6 s \<noteq> Looking"
  shows "lookup4 s = Resolved \<and> lookup6 s = Resolved \<and> closer s = CloseDone"
proof -
  have off: "race_step env ev s = None" if "\<not> external ev" for ev
    using assms(1) that by (auto simp: enabled_def)
  from off [of "Pulse False"] off [of "Pulse True"] assms(2,3) have r: "lookup4 s = Resolved" "lookup6 s = Resolved"
    by (cases "lookup4 s"; cases "lookup6 s"; simp add: lookup_pulse_def lookup_of_def)+
  with off [of CloseFeed] off [of PulseClose] show ?thesis
    by (cases "closer s") (simp_all add: feed_close_def close_pulse_def)
qed

lemma select_enabled:
  assumes "\<not> enabled env s" and "control s = Selecting"
  shows "ctxErr s = None \<and> \<not> feed_wake (feed s) \<and> (\<forall>d. timer s = Some d \<longrightarrow> now s < d) \<and>
    (\<forall>i r. slot (conns s) i \<noteq> Some (Offering r))"
proof -
  have off: "race_step env ev s = None" if "\<not> external ev" for ev
    using assms(1) that by (auto simp: enabled_def)
  have "slot (conns s) i \<noteq> Some (Offering r)" for i r
    using off [of "SelectResult i"] assms(2) by (auto simp: select_result_def pool_take_def slot_def Let_def split: if_splits)
  with off [of SelectDone] off [of SelectWake] off [of SelectTimer] assms(2) show ?thesis
    by (cases "ctxErr s") (auto simp: select_done_def select_wake_def select_timer_def)
qed

text \<open>
  (C18) The race is never stuck: in every reachable state that has not returned, some goroutine of
  the race can take a step, or the race waits for its environment: for a lookup that has not
  answered, for a dial that has not returned, or for the armed timer to expire.  In particular no
  wake signal is lost: a queued candidate or the end of the last attempt is always noticed.
\<close>

theorem race_not_stuck:
  assumes "run_trace (race_step env) evs (new_race t err) = Some s" and "\<forall>r. control s \<noteq> Returned r"
  shows "(\<exists>ev. \<not> external ev \<and> race_step env ev s \<noteq> None) \<or> lookup4 s = Looking \<or> lookup6 s = Looking \<or>
    Dialing \<in> set (slots (conns s)) \<or> (\<exists>d. timer s = Some d \<and> now s < d)"
proof (rule ccontr)
  assume no: "\<not> ?thesis"
  then have off: "\<not> enabled env s" by (simp add: enabled_def)
  have sel: "control s = Selecting"
    using off assms(2) running_enabled by blast
  from race_trace_ok [OF assms(1)] have ok: "wake_ok s" "pending_ok s" by (simp_all add: race_ok_def)
  note l = lookups_enabled [OF off] and q = select_enabled [OF off sel]
  from no q have t: "timer s = None" by (cases "timer s") auto
  from no l ok(1) q t sel have "pending s \<noteq> 0" by (auto simp: wake_ok_def wait_ok_def)
  with ok(2) sel q have "card (unfinished (conns s)) \<noteq> 0" by (auto simp: pending_ok_def outstanding_def)
  then obtain i where "i \<in> unfinished (conns s)" by (auto simp: card_eq_0_iff)
  with q no show False by (auto simp: unfinished_def dest: slot_in_set)
qed

theorem race_not_stuck_witness:
  "(\<forall>r. control sample_started \<noteq> Returned r) \<and>
   ((\<exists>ev. \<not> external ev \<and> race_step sample_race_env ev sample_started \<noteq> None) \<or> lookup6 sample_started = Looking \<or>
    Dialing \<in> set (slots (conns sample_started)) \<or> (\<exists>d. timer sample_started = Some d \<and> now sample_started < d))"
  using race_not_stuck [OF sample_start] by (auto simp: sample_started_def)

section \<open>Quiescence\<close>

fun control_work :: "control \<Rightarrow> nat" where
  "control_work Selecting = 1"
| "control_work (Checked due) = 2"
| "control_work Top = 3"
| "control_work (Stamping addr) = 7"
| "control_work (Chosen addr) = 16"
| "control_work (Returned r) = 0"

fun attempt_work :: "attempt \<Rightarrow> nat" where
  "attempt_work Dialing = 8"
| "attempt_work (Offering r) = 7"
| "attempt_work _ = 0"

definition pool_work :: "pool \<Rightarrow> nat" where
  "pool_work p = sum_list (map attempt_work (slots p))"

fun resolver_work :: "resolver \<Rightarrow> nat" where
  "resolver_work Pulsing = 4"
| "resolver_work _ = 0"

fun closer_work :: "closer \<Rightarrow> nat" where
  "closer_work Waiting = 5"
| "closer_work ClosePulse = 4"
| "closer_work CloseDone = 0"

definition feed_work :: "tcpFamilyFeed \<Rightarrow> nat" where
  "feed_work f = 15 * (length (feed_v4 f) + length (feed_v6 f)) + (if feed_wake f then 3 else 0)"

definition race_work :: "race \<Rightarrow> nat" where
  "race_work s = feed_work (feed s) + pool_work (conns s) + resolver_work (lookup4 s) + resolver_work (lookup6 s) +
     closer_work (closer s) + control_work (control s) + (if timer s = None then 0 else 3) +
     (if ctxErr s = None then 1 else 0)"

definition looking :: "race \<Rightarrow> nat" where
  "looking s = (if lookup4 s = Looking then 1 else 0) + (if lookup6 s = Looking then 1 else 0)"

lemma pool_work_update:
  assumes "slot p i = Some a"
  shows "sum_list (map attempt_work ((slots p)[i := b])) + attempt_work a = pool_work p + attempt_work b"
proof -
  from assms have i: "i < length (slots p)" "slots p ! i = a" by (auto simp: slot_def split: if_splits)
  then have "attempt_work a \<le> pool_work p"
    unfolding pool_work_def by (auto intro!: member_le_sum_list)
  with i show ?thesis by (simp add: map_update sum_list_update pool_work_def)
qed

lemma pool_work_start: "pool_work (pool_start p) = pool_work p + 8"
  by (simp add: pool_work_def pool_start_def)

lemma pool_work_return:
  assumes "pool_return i c e a p = Some p'"
  shows "pool_work p' + 1 = pool_work p"
proof -
  from assms obtain r where "slots p' = (slots p)[i := Offering r]" "slot p i = Some Dialing"
    by (auto simp: pool_return_def Let_def slot_def)
  with pool_work_update [of p i Dialing "Offering r"] show ?thesis by (simp add: pool_work_def)
qed

lemma pool_work_drop: "pool_drop i p = Some p' \<Longrightarrow> pool_work p' + 7 = pool_work p"
  using pool_work_update [of p i _ Dropped] by (fastforce simp: pool_drop_Some pool_work_def)

lemma pool_work_take: "pool_take i p = Some (r, p') \<Longrightarrow> pool_work p' + 7 = pool_work p"
  using pool_work_update [of p i _ Delivered] by (fastforce simp: pool_take_Some pool_work_def)

lemma pool_work_close [simp]: "pool_work (pool_close i p) = pool_work p"
  by (simp add: pool_work_def pool_close_def)

lemma feed_work_pop: "popLocked f n = Some (addr, f') \<Longrightarrow> feed_work f' + 15 = feed_work f"
  using popLocked_fields [of f n addr f'] by (auto simp: feed_work_def elim!: popLocked_SomeE)

lemma feed_work_pulse: "feed_work (pulse f) \<le> feed_work f + 3"
  by (simp add: feed_work_def pulse_def)

definition race_rank :: "race \<Rightarrow> nat \<times> nat" where
  "race_rank s = (looking s, race_work s)"

lemma looking_fields [simp]:
  "looking (return_race r s) = looking s" "looking (accelerate s) = looking s"
  "looking (s\<lparr>feed := f\<rparr>) = looking s" "looking (s\<lparr>conns := p\<rparr>) = looking s" "looking (s\<lparr>control := c\<rparr>) = looking s"
  "looking (s\<lparr>pending := k\<rparr>) = looking s" "looking (s\<lparr>timer := d\<rparr>) = looking s" "looking (s\<lparr>ctxErr := x\<rparr>) = looking s"
  "looking (s\<lparr>now := n\<rparr>) = looking s" "looking (s\<lparr>closer := cl\<rparr>) = looking s" "looking (s\<lparr>lastErr := x\<rparr>) = looking s"
  "looking (s\<lparr>begun := b\<rparr>) = looking s" "looking (s\<lparr>lastStart := n\<rparr>) = looking s"
  "looking (s\<lparr>lastFamily := m\<rparr>) = looking s" "looking (s\<lparr>nextReadyAt := d\<rparr>) = looking s"
  by (simp_all add: looking_def)

lemma work_accelerate: "race_work (accelerate s) \<le> race_work s + 3"
  by (simp add: race_work_def)

lemma rank_step:
  assumes "race_step env ev s = Some s'"
  shows "looking s' < looking s \<or> looking s' = looking s \<and>
    (if \<exists>d. ev = Tick d then race_work s' = race_work s else race_work s' < race_work s)"
  using assms
proof (cases rule: race_step_cases)
  case (Answer v answer f added)
  then show ?thesis by (cases v) (auto simp: looking_def lookup_of_def set_lookup_def)
next
  case (Pulse v)
  with feed_work_pulse [of "feed s"] show ?thesis
    by (cases v) (auto simp: looking_def race_work_def lookup_of_def set_lookup_def)
next
  case PulseClose
  with feed_work_pulse [of "feed s"] show ?thesis by (auto simp: race_work_def)
next
  case (Pop addr f)
  with feed_work_pop [OF Pop(3)] show ?thesis by (auto simp: race_work_def)
next
  case (Return i c e a p)
  with pool_work_return [OF Return(3)] show ?thesis by (auto simp: race_work_def)
next
  case (Abandon i p)
  with pool_work_drop [OF Abandon(3)] show ?thesis by (auto simp: race_work_def)
next
  case (Late i p err)
  with pool_work_take [OF Late(3)] show ?thesis by (auto simp: race_work_def)
next
  case (Win i p)
  with pool_work_take [OF Win(3)] show ?thesis by (auto simp: race_work_def)
next
  case (Fail i p e)
  with pool_work_take [OF Fail(3)]
    work_accelerate [of "s\<lparr>conns := p, pending := pending s - 1, lastErr := Some e, control := Top\<rparr>"]
  show ?thesis by (auto simp: race_work_def)
next
  case (Start addr)
  then show ?thesis by (simp add: race_work_def pool_work_start)
qed (auto simp: race_work_def feed_work_def)

interpretation tcp_race: quiescent "race_step env" "\<lambda>ev. \<exists>d. ev = Tick d" race_rank "less_than <*lex*> less_than" for env
proof
  show "wf (less_than <*lex*> less_than)" by auto
qed (use rank_step in \<open>fastforce simp: race_rank_def\<close>)+

text \<open>
  (C17) The race does finite work: in every infinite execution, from some point on only time
  passes.  The scheduler loop, the lookups and the dial goroutines together take finitely many
  steps, so signals and timers cannot keep the loop spinning.
\<close>

theorem race_quiescent:
  assumes "\<And>n. race_step env (e n) (f n) = Some (f (Suc n))"
  shows "\<exists>N. \<forall>n \<ge> N. \<exists>d. e n = Tick d"
  using assms by (rule tcp_race.eventually_idle)

text \<open>The sample execution, after which only the clock is read.\<close>

definition sample_schedule :: "nat \<Rightarrow> race_event" where
  "sample_schedule n = (if n < length sample_events then sample_events ! n else Tick 0)"

definition sample_state :: "nat \<Rightarrow> race" where
  "sample_state n = the (run_trace (race_step sample_race_env) (take n sample_events) (new_race 0 None))"

lemma sample_schedule_step: "race_step sample_race_env (sample_schedule n) (sample_state n) = Some (sample_state (Suc n))"
proof (cases "n < length sample_events")
  case True
  let ?run = "\<lambda>evs. run_trace (race_step sample_race_env) evs (new_race 0 None)"
  from sample_trace have "?run (take (Suc n) sample_events @ drop (Suc n) sample_events) \<noteq> None" by simp
  then obtain s2 where s2: "?run (take (Suc n) sample_events) = Some s2"
    unfolding run_trace_append by (auto split: option.splits)
  with True obtain s1 where "?run (take n sample_events) = Some s1" "race_step sample_race_env (sample_events ! n) s1 = Some s2"
    by (auto simp: take_Suc_conv_app_nth run_trace_snoc)
  with True s2 show ?thesis by (simp add: sample_schedule_def sample_state_def)
next
  case False
  then show ?thesis by (simp add: sample_schedule_def sample_state_def sample_trace)
qed

theorem race_quiescent_witness:
  "sample_schedule 0 = Answer False (Inr [[192, 0, 2, 1], [192, 0, 2, 2]]) \<and> (\<exists>N. \<forall>n \<ge> N. \<exists>d. sample_schedule n = Tick d)"
  using race_quiescent [of sample_race_env sample_schedule sample_state, OF sample_schedule_step]
  by (simp add: sample_schedule_def sample_events_def sample_start_events_def)

end
