(* ===== verification/Tcp_Connect.thy ===== *)
theory Tcp_Connect
  imports Tcp_Race
begin

text \<open>
  \<open>dialContextCheckACL\<close> of \<open>forwardproxy.go\<close>: the target policy, the race, and the mapping of their
  failures to HTTP errors.  \<open>dial\<close> is the dialer of an upstream proxy, \<open>cerr\<close> the context's error
  after it returned, and \<open>race\<close> the outcome of \<open>dialTCPIncremental\<close> for a network, host and port.
\<close>

definition dialContextCheckACL ::
  "handler \<Rightarrow> (string \<Rightarrow> string \<Rightarrow> 'c option \<times> goerror option) \<Rightarrow> goerror option \<Rightarrow>
   (string \<Rightarrow> string \<Rightarrow> string \<Rightarrow> goerror + 'c) \<Rightarrow> string \<Rightarrow> string \<Rightarrow> goerror + 'c" where
  "dialContextCheckACL h dial cerr race network hostPort =
     (if network \<noteq> ''tcp'' \<and> network \<noteq> ''tcp4'' \<and> network \<noteq> ''tcp6''
      then Inl (HandlerError StatusBadRequest (ErrorString (''network '' @ network @ '' is not supported'')))
      else if upstream h \<noteq> None then
        (case dial network hostPort of
           (conn, err) \<Rightarrow>
             if err \<noteq> None \<or> conn = None \<or> cerr \<noteq> None
             then Inl (tcpDialError (if cerr \<noteq> None then cerr else err))
             else Inr (the conn))
      else
        (case prepareTargetPolicy h hostPort of
           (host, port, Some failure) \<Rightarrow> Inl (legacyTargetPolicyError failure host port)
         | (host, port, None) \<Rightarrow>
             (case race network host port of
                Inr conn \<Rightarrow> Inr conn
              | Inl err \<Rightarrow>
                  (case As_policyFailure err of
                     Some policy \<Rightarrow>
                       if fst policy = targetPolicyLookupFailed then Inl (tcpDialError (snd policy))
                       else Inl (legacyTargetPolicyError policy host port)
                   | None \<Rightarrow> Inl (tcpDialError (Some err))))))"

lemma tcpDialError_status: "error_status (tcpDialError e) \<in> {Some StatusBadGateway, Some StatusGatewayTimeout}"
  by (simp add: tcpDialError_def)

lemma legacy_status: "\<exists>s \<in> {StatusBadRequest, StatusForbidden, StatusBadGateway}. error_status (legacyTargetPolicyError f host port) = Some s"
  by (cases "fst f") (auto simp: legacyTargetPolicyError_def Let_def)

text \<open>Attempt \<open>i\<close> dials the \<open>i\<close>-th started address.\<close>

definition attempts_ok :: "race \<Rightarrow> bool" where
  "attempts_ok s \<longleftrightarrow> length (slots (conns s)) = length (begun s)"

lemma attempts_step:
  assumes "race_step env ev s = Some s'" and "attempts_ok s"
  shows "attempts_ok s'"
  using assms(1)
proof (cases rule: race_step_cases)
  case (Return i c e a p)
  with assms(2) show ?thesis by (auto simp: attempts_ok_def pool_return_def Let_def)
next
  case (Abandon i p)
  with assms(2) show ?thesis by (auto simp: attempts_ok_def pool_drop_Some)
next
  case (Late i p err)
  with assms(2) show ?thesis by (auto simp: attempts_ok_def pool_take_Some pool_close_def)
next
  case (Win i p)
  with assms(2) show ?thesis by (auto simp: attempts_ok_def pool_take_Some)
next
  case (Fail i p e)
  with assms(2) show ?thesis by (auto simp: attempts_ok_def pool_take_Some)
qed (use assms(2) in \<open>simp_all add: attempts_ok_def pool_start_def\<close>)

interpretation tcp_attempts: preserved "race_step env" attempts_ok for env
  by unfold_locales (rule attempts_step)

lemma attempts_trace: "run_trace (race_step env) evs (new_race t err) = Some s \<Longrightarrow> attempts_ok s"
  by (erule tcp_attempts.trace_invar) (simp add: attempts_ok_def new_race_def empty_pool_def)

lemma conn_ok_slot: "conn_ok True op cl a \<Longrightarrow> a \<noteq> None"
  by (cases "(True, op, cl, a)" rule: conn_ok.cases) auto

lemma known_dialed:
  assumes "known_ok ok s" and "addr \<in> fst ` set (begun s)"
  shows "ok addr"
proof -
  from assms have "addr \<in> feed_seen (feed s)" by (auto simp: known_ok_def feed_ok_def)
  with assms(1) show ?thesis by (simp add: known_ok_def feed_ok_def)
qed

lemma winner_address:
  assumes "run_trace (race_step env) evs (new_race t err) = Some s" and "control s = Returned (Inr i)"
  shows "i < length (begun s) \<and> i \<in> opened (conns s) - closed_conns (conns s) \<and>
    (\<exists>a. hostIsAllowed (env_rules env) (env_host env) a \<and> fst (begun s ! i) = JoinHostPort (IP_String a) (env_port env))"
proof -
  have own: "i \<in> owner s" using assms(2) by (simp add: owner_def)
  from race_trace_ok [OF assms(1)] have ok: "pool_ok (owner s) (conns s)" by (simp add: race_ok_def race_pool_ok_def)
  from ok own have "slot (conns s) i \<noteq> None" using conn_ok_slot unfolding pool_ok_def by metis
  then have i: "i < length (begun s)"
    using attempts_trace [OF assms(1)] by (auto simp: attempts_ok_def slot_def split: if_splits)
  then have "fst (begun s ! i) \<in> fst ` set (begun s)" by simp
  from known_dialed [OF known_trace [OF assms(1)] this] obtain ev where "admissible env ev (fst (begun s ! i))" by blast
  then have "\<exists>a. hostIsAllowed (env_rules env) (env_host env) a \<and> fst (begun s ! i) = JoinHostPort (IP_String a) (env_port env)"
    by (auto simp: admissible_def keeps_def)
  with i pool_ok_owned [OF ok own] show ?thesis by blast
qed

text \<open>The race of a request to \<open>host\<close> and \<open>port\<close>.\<close>

definition env_of :: "handler \<Rightarrow> string \<Rightarrow> string \<Rightarrow> string \<Rightarrow> race_env" where
  "env_of h network host port = \<lparr>env_rules = aclRules h, env_network = network, env_host = host, env_port = port\<rparr>"



end
