(* ===== verification/Quic_Varint.thy ===== *)
theory Quic_Varint
  imports Go_Errors
begin

text \<open>
  The contract of the \<open>quicvarint\<close> package the datagram framing relies on, and the
  variable-length integer encoding of RFC 9000, section 16, which satisfies it.  The two high
  bits of the first byte give the length 1, 2, 4 or 8; the rest is the value, big endian.
\<close>

section \<open>The contract\<close>

locale quicvarint =
  fixes Parse :: "bytes \<Rightarrow> goerror + 64 word \<times> nat"
    and Len :: "64 word \<Rightarrow> nat"
    and Append :: "bytes \<Rightarrow> 64 word \<Rightarrow> bytes"
  assumes Append_append: "v < 2 ^ 62 \<Longrightarrow> Append b v = b @ Append [] v"
    and Append_length: "v < 2 ^ 62 \<Longrightarrow> length (Append [] v) = Len v"
    and Append_small: "v < 64 \<Longrightarrow> Append [] v = [ucast v]"
    and Parse_Append: "v < 2 ^ 62 \<Longrightarrow> Parse (Append [] v @ r) = Inr (v, Len v)"
    and Parse_minimal: "Parse d = Inr (v, Len v) \<Longrightarrow> \<exists>r. d = Append [] v @ r"
    and Parse_range: "Parse d = Inr (v, n) \<Longrightarrow> v < 2 ^ 62 \<and> n \<le> length d"
begin

lemma Append_zero: "Append [] 0 = [0]"
  using Append_small [of 0] by simp

lemma Len_zero: "Len 0 = 1"
  using Append_length [of 0] Append_zero by simp

lemma Parse_zero: "Parse (0 # r) = Inr (0, 1)"
  using Parse_Append [of 0 r] by (simp add: Append_zero Len_zero)

lemma Parse_zero_iff: "Parse d = Inr (0, Len 0) \<longleftrightarrow> (\<exists>r. d = 0 # r)"
  using Parse_minimal [of d 0] Parse_zero by (auto simp: Append_zero Len_zero)

end

section \<open>Big-endian numbers\<close>

fun be_bytes :: "nat \<Rightarrow> nat \<Rightarrow> bytes" where
  "be_bytes 0 n = []"
| "be_bytes (Suc k) n = of_nat (n div 256 ^ k) # be_bytes k (n mod 256 ^ k)"

fun be_val :: "bytes \<Rightarrow> nat" where
  "be_val [] = 0"
| "be_val (b # bs) = unat b * 256 ^ length bs + be_val bs"

lemma be_bytes_length [simp]: "length (be_bytes k n) = k"
  by (induction k arbitrary: n) auto

lemma unat_byte_less [simp]: "unat (b :: byte) < 256"
  using unsigned_less [of b] by simp

lemma be_val_less: "be_val bs < 256 ^ length bs"
proof (induction bs)
  case (Cons b bs)
  have "unat b + 1 \<le> 256" using unat_byte_less [of b] by linarith
  then have "(unat b + 1) * 256 ^ length bs \<le> 256 * 256 ^ length bs" by (rule mult_le_mono1)
  then have "unat b * 256 ^ length bs + 256 ^ length bs \<le> 256 * 256 ^ length bs"
    by (simp only: add_mult_distrib mult_1)
  with Cons have "unat b * 256 ^ length bs + be_val bs < 256 * 256 ^ length bs" by linarith
  then show ?case by simp
qed simp

lemma be_val_be_bytes: "n < 256 ^ k \<Longrightarrow> be_val (be_bytes k n) = n"
proof (induction k arbitrary: n)
  case (Suc k)
  then have "n div 256 ^ k < 256" by (simp add: less_mult_imp_div_less)
  then have "unat (of_nat (n div 256 ^ k) :: byte) = n div 256 ^ k" by (simp add: unat_of_nat)
  with Suc.IH show ?case by (simp add: div_mult_mod_eq)
qed simp

lemma be_bytes_be_val: "be_bytes (length bs) (be_val bs) = bs"
  by (induction bs) (simp_all add: be_val_less)

lemma be_val_append: "be_val (a @ b) = be_val a * 256 ^ length b + be_val b"
  by (induction a) (simp_all add: power_add algebra_simps)

section \<open>RFC 9000\<close>

definition rfc_Len :: "64 word \<Rightarrow> nat" where
  "rfc_Len v =
     (if v < 64 then 1 else if v < 16384 then 2 else if v < 1073741824 then 4 else 8)"

fun rfc_class :: "nat \<Rightarrow> nat" where
  "rfc_class k = (if k = 1 then 0 else if k = 2 then 1 else if k = 4 then 2 else 3)"

definition rfc_Append :: "bytes \<Rightarrow> 64 word \<Rightarrow> bytes" where
  "rfc_Append b v = b @ (let k = rfc_Len v in be_bytes k (rfc_class k * 2 ^ (8 * k - 2) + unat v))"

definition rfc_Parse :: "bytes \<Rightarrow> goerror + 64 word \<times> nat" where
  "rfc_Parse d =
     (case d of
        [] \<Rightarrow> Inl ErrUnexpectedEOF
      | b # _ \<Rightarrow>
          let k = 2 ^ (unat b div 64) in
          if length d < k then Inl ErrUnexpectedEOF
          else Inr (of_nat (be_val (take k d) mod 2 ^ (8 * k - 2)), k))"

lemma rfc_Len_cases: "rfc_Len v \<in> {1, 2, 4, 8}"
  by (simp add: rfc_Len_def)

lemma rfc_Len_fits:
  assumes "v < 2 ^ 62"
  shows "unat v < 2 ^ (8 * rfc_Len v - 2)"
proof -
  have "unat v < unat (w :: 64 word)" if "v < w" for w using that by (simp add: word_less_nat_alt)
  from this [of 64] this [of 16384] this [of 1073741824] this [of "2 ^ 62"] assms
  show ?thesis by (auto simp: rfc_Len_def)
qed

lemma pow256: "256 ^ k = (2 :: nat) ^ (8 * k)"
  by (simp add: power_mult)

lemma head_bits:
  assumes "0 < k"
  shows "(n :: nat) div 256 ^ (k - 1) div 64 = n div 2 ^ (8 * k - 2)"
proof -
  have "(256 :: nat) ^ (k - 1) * 64 = 2 ^ (8 * (k - 1) + 6)"
    by (simp add: pow256 power_add)
  also have "8 * (k - 1) + 6 = 8 * k - 2" using assms(1) by simp
  finally show ?thesis by (simp add: div_mult2_eq [symmetric])
qed

lemma be_val_head:
  assumes "bs \<noteq> []"
  shows "unat (hd bs) div 64 = be_val bs div 2 ^ (8 * length bs - 2)"
proof -
  obtain b r where bs: "bs = b # r" using assms by (cases bs) auto
  have "be_val bs div 256 ^ length r = unat b" by (simp add: bs be_val_less)
  with head_bits [of "length bs" "be_val bs"] show ?thesis by (simp add: bs)
qed

lemma class_power: "k \<in> {1, 2, 4, 8} \<Longrightarrow> 2 ^ rfc_class k = k"
  by auto

lemma rfc_Append_val:
  assumes "v < 2 ^ 62"
  shows "be_val (rfc_Append [] v) = rfc_class (rfc_Len v) * 2 ^ (8 * rfc_Len v - 2) + unat v"
proof -
  let ?k = "rfc_Len v"
  have "rfc_class ?k < 4" by simp
  then have "(rfc_class ?k + 1) * 2 ^ (8 * ?k - 2) \<le> 4 * (2 :: nat) ^ (8 * ?k - 2)"
    by (intro mult_le_mono1) simp
  also have "4 * (2 :: nat) ^ (8 * ?k - 2) = 256 ^ ?k"
    using rfc_Len_cases [of v] by (auto simp: pow256)
  finally have "rfc_class ?k * 2 ^ (8 * ?k - 2) + unat v < 256 ^ ?k"
    using rfc_Len_fits [OF assms] by (simp del: rfc_class.simps)
  then show ?thesis by (simp add: rfc_Append_def Let_def be_val_be_bytes del: rfc_class.simps)
qed

lemma rfc_Append_length [simp]: "length (rfc_Append b v) = length b + rfc_Len v"
  by (simp add: rfc_Append_def Let_def)

lemma rfc_Append_nonempty [simp]: "rfc_Append [] v \<noteq> []"
  using rfc_Append_length [of "[]" v] rfc_Len_cases [of v] by (metis insertE length_0_conv list.size(3) add_0 zero_neq_numeral zero_neq_one emptyE)

lemma rfc_Append_head:
  assumes "v < 2 ^ 62"
  shows "2 ^ (unat (hd (rfc_Append [] v)) div 64) = rfc_Len v"
proof -
  have "unat (hd (rfc_Append [] v)) div 64 = rfc_class (rfc_Len v)"
    using be_val_head [of "rfc_Append [] v"] rfc_Append_val [OF assms] rfc_Len_fits [OF assms]
    by (simp del: rfc_class.simps)
  then show ?thesis using class_power [OF rfc_Len_cases] by (simp del: rfc_class.simps)
qed

lemma rfc_Parse_Append:
  assumes "v < 2 ^ 62"
  shows "rfc_Parse (rfc_Append [] v @ r) = Inr (v, rfc_Len v)"
proof -
  obtain b bs where b: "rfc_Append [] v = b # bs" by (cases "rfc_Append [] v") auto
  have k: "2 ^ (unat b div 64) = rfc_Len v" using rfc_Append_head [OF assms] b by simp
  have "be_val (take (rfc_Len v) (rfc_Append [] v @ r)) mod 2 ^ (8 * rfc_Len v - 2) = unat v"
    using rfc_Append_val [OF assms] rfc_Len_fits [OF assms] by (simp del: rfc_class.simps)
  moreover have "rfc_Len v \<le> length (rfc_Append [] v @ r)" by simp
  ultimately show ?thesis by (simp add: rfc_Parse_def b k Let_def)
qed

lemma rfc_Parse_Inr:
  assumes "rfc_Parse d = Inr (v, n)"
  shows "n \<le> length d \<and> n \<in> {1, 2, 4, 8} \<and> unat v < 2 ^ (8 * n - 2) \<and>
    be_val (take n d) = rfc_class n * 2 ^ (8 * n - 2) + unat v"
proof -
  obtain b bs where d: "d = b # bs" using assms by (cases d) (auto simp: rfc_Parse_def)
  have c: "unat b div 64 < 4" using unat_byte_less [of b] by (simp add: less_mult_imp_div_less)
  then have n: "n = 2 ^ (unat b div 64)" "n \<le> length d"
    and v: "v = of_nat (be_val (take n d) mod 2 ^ (8 * n - 2))"
    using assms by (auto simp: rfc_Parse_def d Let_def split: if_splits)
  from c have "unat b div 64 \<in> {0, 1, 2, 3}" by auto
  then have cls: "rfc_class n = unat b div 64" "n \<in> {1, 2, 4, 8}" by (auto simp: n(1))
  have "be_val (take n d) mod 2 ^ (8 * n - 2) < 2 ^ (8 * n - 2)" by simp
  also have "(2 :: nat) ^ (8 * n - 2) \<le> 2 ^ 62" using cls(2) by (intro power_increasing) auto
  finally have u: "unat v = be_val (take n d) mod 2 ^ (8 * n - 2)"
    by (simp add: v unat_of_nat)
  have "be_val (take n d) div 2 ^ (8 * n - 2) = rfc_class n"
    using be_val_head [of "take n d"] n(2) cls by (auto simp: d)
  then have "be_val (take n d) = rfc_class n * 2 ^ (8 * n - 2) + unat v"
    using div_mult_mod_eq [of "be_val (take n d)" "2 ^ (8 * n - 2)"] u by simp
  moreover have "unat v < 2 ^ (8 * n - 2)" by (simp add: u)
  ultimately show ?thesis using n(2) cls(2) by blast
qed

lemma rfc_Parse_minimal:
  assumes "rfc_Parse d = Inr (v, rfc_Len v)"
  shows "\<exists>r. d = rfc_Append [] v @ r"
proof -
  let ?k = "rfc_Len v"
  note * = rfc_Parse_Inr [OF assms]
  then have "be_bytes ?k (be_val (take ?k d)) = take ?k d"
    using be_bytes_be_val [of "take ?k d"] by simp
  then have "rfc_Append [] v = take ?k d"
    using * by (simp add: rfc_Append_def Let_def del: rfc_class.simps)
  then have "d = rfc_Append [] v @ drop ?k d" by simp
  then show ?thesis by blast
qed

lemma rfc_Parse_range: "rfc_Parse d = Inr (v, n) \<Longrightarrow> v < 2 ^ 62 \<and> n \<le> length d"
proof -
  assume a: "rfc_Parse d = Inr (v, n)"
  note * = rfc_Parse_Inr [OF a]
  have "(2 :: nat) ^ (8 * n - 2) \<le> 2 ^ 62" using * by (intro power_increasing) auto
  with * have "unat v < unat (2 ^ 62 :: 64 word)" by simp
  with * show ?thesis by (simp add: word_less_nat_alt)
qed

interpretation rfc: quicvarint rfc_Parse rfc_Len rfc_Append
proof
  fix v :: "64 word" assume "v < 64"
  then have "rfc_Len v = 1" by (simp add: rfc_Len_def)
  then show "rfc_Append [] v = [ucast v]" by (simp add: rfc_Append_def)
next
  fix b and v :: "64 word"
  show "rfc_Append b v = b @ rfc_Append [] v" by (simp add: rfc_Append_def)
qed (simp_all only: rfc_Append_length list.size add_0 rfc_Parse_Append rfc_Parse_minimal rfc_Parse_range)

end
