(* ===== verification/Udp_Protocol.thy ===== *)
theory Udp_Protocol
  imports Target_Policy Quic_Varint
begin

text \<open>
  The CONNECT-UDP request syntax (\<open>native_udp_protocol.go\<close>, \<open>native_udp_contract.go\<close>):
  recognising the request, parsing its target out of the path, redacting the path, and the
  framing of datagrams.  The operations of other packages are parameters: \<open>toASCII\<close> is
  \<open>idna.Lookup.ToASCII\<close>, \<open>lower\<close> and \<open>eqfold\<close> are the Unicode parts of \<open>strings.ToLower\<close>
  and \<open>strings.EqualFold\<close>, \<open>Parse\<close>, \<open>Len\<close> and \<open>Append\<close> are \<open>quicvarint\<close>.
\<close>

section \<open>Requests and targets\<close>

definition connectUDPProtocol :: string where
  "connectUDPProtocol = ''connect-udp''"

definition connectUDPURIPrefix :: string where
  "connectUDPURIPrefix = ''/.well-known/masque/udp/''"

definition connectUDPRedactedPath :: string where
  "connectUDPRedactedPath = ''/.well-known/masque/udp/redacted/0/''"

record connectUDPTarget =
  udp_host :: string
  udp_port :: string
  hostPort :: string

definition isConnectUDPRequest :: "request \<Rightarrow> bool" where
  "isConnectUDPRequest r \<longleftrightarrow> Method r = ''CONNECT'' \<and> ProtoMajor r = 3 \<and> Proto r = connectUDPProtocol"

definition isUnsupportedExtendedConnect :: "request \<Rightarrow> bool" where
  "isUnsupportedExtendedConnect r \<longleftrightarrow> Method r = ''CONNECT'' \<and> ProtoMajor r = 3 \<and>
     Proto r \<noteq> ''HTTP/3.0'' \<and> Proto r \<noteq> connectUDPProtocol"

definition allASCIIDigits :: "string \<Rightarrow> bool" where
  "allASCIIDigits s \<longleftrightarrow> s \<noteq> [] \<and> list_all is_digit s"

text \<open>The checks of \<open>canonicalDomain\<close> on one label and on the whole name.\<close>

definition canonical_label :: "string \<Rightarrow> bool" where
  "canonical_label l \<longleftrightarrow>
     length l \<noteq> 0 \<and> length l \<le> 63 \<and> hd l \<noteq> CHR ''-'' \<and> last l \<noteq> CHR ''-'' \<and>
     list_all (\<lambda>c. is_lower c \<or> is_digit c \<or> c = CHR ''-'') l"

definition canonical_name :: "string \<Rightarrow> bool" where
  "canonical_name s \<longleftrightarrow>
     length s \<noteq> 0 \<and> length s \<le> 253 \<and> \<not> HasSuffix s ''.'' \<and>
     list_all canonical_label (Split s CHR ''.'')"

definition canonicalDomain ::
  "(string \<Rightarrow> string) \<Rightarrow> (string \<Rightarrow> goerror + string) \<Rightarrow> string \<Rightarrow> goerror + string" where
  "canonicalDomain lower toASCII host =
     (case toASCII host of
        Inl err \<Rightarrow> Inl err
      | Inr asc \<Rightarrow>
          let s = ToLower lower asc in
          if canonical_name s then Inr s else Inl ErrConnectUDPMalformed)"

definition malformed_connect :: "(string \<Rightarrow> string \<Rightarrow> bool) \<Rightarrow> request \<Rightarrow> url \<Rightarrow> bool" where
  "malformed_connect eqfold r u \<longleftrightarrow>
     Scheme u \<noteq> ''https'' \<or> Host r = [] \<or> url_Host u = [] \<or> \<not> EqualFold eqfold (Host r) (url_Host u) \<or>
     User u \<noteq> None \<or> RawQuery u \<noteq> [] \<or> ForceQuery u \<or> Fragment u \<noteq> [] \<or>
     Header_Get (Header r) ''Capsule-Protocol'' \<noteq> ''?1''"

text \<open>The part of \<open>parseConnectUDPTarget\<close> after the path is split: host and port segments.\<close>

definition parseTargetSegments ::
  "(string \<Rightarrow> string) \<Rightarrow> (string \<Rightarrow> goerror + string) \<Rightarrow> string \<Rightarrow> string \<Rightarrow>
   goerror + connectUDPTarget" where
  "parseTargetSegments lower toASCII rawHost rawPort =
     (if Contains (ToLower lower rawHost) ''%2f'' \<or> Contains (ToLower lower rawHost) ''%5c''
      then Inl ErrConnectUDPMalformed
      else case PathUnescape rawHost of
        None \<Rightarrow> Inl ErrConnectUDPMalformed
      | Some host \<Rightarrow>
          if host = [] \<or> ContainsAny host (''/'' @ [CHR 0x5C] @ ''%@[]'')
          then Inl ErrConnectUDPMalformed
          else if Contains rawPort ''%'' \<or> \<not> allASCIIDigits rawPort then Inl ErrConnectUDPMalformed
          else case Atoi rawPort of
            None \<Rightarrow> Inl ErrConnectUDPMalformed
          | Some n \<Rightarrow>
              if n < 1 \<or> 65535 < n then Inl ErrConnectUDPMalformed
              else
                let target = (\<lambda>h. Inr \<lparr>udp_host = h, udp_port = Itoa n,
                      hostPort = JoinHostPort h (Itoa n)\<rparr>)
                in if ParseIP host \<noteq> [] then target (IP_String (ParseIP host))
                   else (case canonicalDomain lower toASCII host of
                       Inl _ \<Rightarrow> Inl ErrConnectUDPMalformed
                     | Inr h \<Rightarrow> target h))"

definition parseConnectUDPTarget ::
  "(string \<Rightarrow> string) \<Rightarrow> (string \<Rightarrow> string \<Rightarrow> bool) \<Rightarrow> (string \<Rightarrow> goerror + string) \<Rightarrow> request \<Rightarrow>
   goerror + connectUDPTarget" where
  "parseConnectUDPTarget lower eqfold toASCII r =
     (case URL r of
        None \<Rightarrow> Inl ErrConnectUDPMalformed
      | Some u \<Rightarrow>
          if \<not> isConnectUDPRequest r \<or> malformed_connect eqfold r u then Inl ErrConnectUDPMalformed
          else if \<not> HasPrefix (EscapedPath u) connectUDPURIPrefix then Inl ErrConnectUDPMalformed
          else case Split (TrimPrefix (EscapedPath u) connectUDPURIPrefix) CHR ''/'' of
            [rawHost, rawPort, trailer] \<Rightarrow>
              if rawHost = [] \<or> rawPort = [] \<or> trailer \<noteq> [] then Inl ErrConnectUDPMalformed
              else parseTargetSegments lower toASCII rawHost rawPort
          | _ \<Rightarrow> Inl ErrConnectUDPMalformed)"

definition redactConnectUDPRequest :: "request \<Rightarrow> request" where
  "redactConnectUDPRequest r =
     (case URL r of
        None \<Rightarrow> r
      | Some u \<Rightarrow> r\<lparr>
          URL := Some (u\<lparr>Path := connectUDPRedactedPath, RawPath := [], RawQuery := [],
            ForceQuery := False, Fragment := []\<rparr>),
          RequestURI := connectUDPRedactedPath\<rparr>)"

section \<open>Datagrams\<close>

definition decodeConnectUDPDatagram ::
  "(bytes \<Rightarrow> goerror + 64 word \<times> nat) \<Rightarrow> (64 word \<Rightarrow> nat) \<Rightarrow> bytes \<Rightarrow> goerror + bytes" where
  "decodeConnectUDPDatagram Parse Len datagram =
     (case Parse datagram of
        Inl _ \<Rightarrow> Inl ErrConnectUDPMalformed
      | Inr (contextID, consumed) \<Rightarrow>
          if consumed \<noteq> Len contextID \<or> contextID \<noteq> 0 then Inl ErrConnectUDPMalformed
          else Inr (drop consumed datagram))"

definition encodeConnectUDPDatagram :: "(bytes \<Rightarrow> 64 word \<Rightarrow> bytes) \<Rightarrow> bytes \<Rightarrow> bytes" where
  "encodeConnectUDPDatagram Append payload = Append [] 0 @ payload"

section \<open>Character classes\<close>

text \<open>Hosts that the parser returns consist of unreserved characters and colons.\<close>

definition host_char :: "char \<Rightarrow> bool" where
  "host_char c \<longleftrightarrow> unreserved c \<or> c = CHR '':''"

lemma host_char_specials:
  "host_char c \<Longrightarrow> c \<noteq> CHR ''%'' \<and> c \<noteq> CHR ''/'' \<and> c \<noteq> CHR ''@'' \<and> c \<noteq> CHR ''['' \<and>
     c \<noteq> CHR '']'' \<and> c \<noteq> CHR 0x5C \<and> is_ascii c \<and> \<not> shouldEscape c"
  by (auto simp: host_char_def unreserved_def is_digit_def is_lower_def is_upper_def byte_of_def
      is_ascii_def shouldEscape_def)

lemma ascii_lower_percent: "ascii_lower c = CHR ''%'' \<Longrightarrow> c = CHR ''%''"
proof (cases "is_upper c")
  case True
  then have "byte_of (ascii_lower c) = byte_of c + 32" by (simp add: ascii_lower_def is_upper_def)
  moreover have "byte_of CHR ''%'' = 37" by (simp add: byte_of_def)
  moreover assume "ascii_lower c = CHR ''%''"
  ultimately show ?thesis using True by (simp add: is_upper_def)
qed (simp add: ascii_lower_def)

lemma digit_host_char: "is_digit c \<Longrightarrow> host_char c"
  by (simp add: host_char_def unreserved_def)

lemma set_Join: "c \<in> set (Join ws d) \<Longrightarrow> c = d \<or> (\<exists>w \<in> set ws. c \<in> set w)"
  by (induction ws d rule: Join.induct) auto

lemma hex_host_char: "hex_val c \<noteq> None \<Longrightarrow> host_char c"
  by (auto simp: hex_val_def host_char_def unreserved_def is_lower_def is_upper_def split: if_splits)

lemma IP_String_host_char:
  assumes "length a = 16" and "c \<in> set (IP_String a)"
  shows "host_char c"
proof (cases "length (To4 a) = 4")
  case True
  with assms have "c \<in> set (ipv4_string (To4 a))" by (auto simp: IP_String_def split: if_splits)
  then have "c = CHR ''.'' \<or> is_digit c"
    unfolding ipv4_string_def by (auto dest!: set_Join dest: nat_digits_chars)
  then show ?thesis by (auto simp: digit_host_char host_char_def unreserved_def)
next
  case False
  with assms have "c \<in> set (ipv6_string a)" by (auto simp: IP_String_def split: if_splits)
  then show ?thesis using ipv6_string_chars [of c a] hex_host_char [of c]
    by (auto simp: host_char_def)
qed

lemma canonical_name_host_char:
  assumes "canonical_name s" and "c \<in> set s"
  shows "host_char c \<and> c \<noteq> CHR '':'' \<and> ascii_lower c = c"
proof -
  have "c = CHR ''.'' \<or> (\<exists>w \<in> set (Split s CHR ''.''). c \<in> set w)"
    using assms(2) Join_Split [of s "CHR ''.''"] set_Join [of c "Split s CHR ''.''" "CHR ''.''"] by simp
  with assms(1) have "c = CHR ''.'' \<or> is_lower c \<or> is_digit c \<or> c = CHR ''-''"
    by (auto simp: canonical_name_def canonical_label_def list_all_iff)
  then show ?thesis
    by (auto simp: host_char_def unreserved_def ascii_lower_def is_upper_def is_lower_def
        is_digit_def byte_of_def)
qed

lemma ToLower_canonical: "canonical_name s \<Longrightarrow> ToLower lower s = s"
  using canonical_name_host_char [of s] host_char_specials
  by (auto simp: ToLower_def list_all_iff intro!: map_idI)

lemma Contains_hd: "Contains s (c # p) \<Longrightarrow> c \<in> set s"
  by (induction s) (auto simp: HasPrefix_def)

lemma PathUnescape_plain: "CHR ''%'' \<notin> set s \<Longrightarrow> PathUnescape s = Some s"
  by (induction s) auto

lemma escape_plain: "\<forall>c \<in> set s. \<not> shouldEscape c \<Longrightarrow> escape s = s"
  by (induction s) (auto simp: escape_def)

section \<open>Shape of a parsed target\<close>

definition good_host :: "string \<Rightarrow> bool" where
  "good_host h \<longleftrightarrow> (\<exists>a. length a = 16 \<and> ParseIP h = a \<and> h = IP_String a) \<or> canonical_name h"

lemma canonicalDomain_Inr: "canonicalDomain lower toASCII host = Inr h \<Longrightarrow> canonical_name h"
  by (auto simp: canonicalDomain_def Let_def split: sum.splits if_splits)

lemma parseTargetSegments_Inr:
  assumes "parseTargetSegments lower toASCII rawHost rawPort = Inr t"
  shows "good_host (udp_host t) \<and> hostPort t = JoinHostPort (udp_host t) (udp_port t) \<and>
    (\<exists>n. 1 \<le> n \<and> n \<le> 65535 \<and> Atoi rawPort = Some n \<and> udp_port t = Itoa n)"
proof -
  have "good_host (IP_String (ParseIP host))" if "ParseIP host \<noteq> []" for host
    using that ParseIP_length [of host] ParseIP_IP_String [of "ParseIP host"]
    by (auto simp: good_host_def To16_def)
  moreover have "good_host h" if "canonicalDomain lower toASCII host = Inr h" for host h
    using canonicalDomain_Inr [OF that] by (simp add: good_host_def)
  ultimately show ?thesis
    using assms by (auto simp: parseTargetSegments_def Let_def split: if_splits option.splits sum.splits)
qed

lemma parseConnectUDPTarget_Inr:
  assumes "parseConnectUDPTarget lower eqfold toASCII r = Inr t"
  obtains u rawHost rawPort where "URL r = Some u" "isConnectUDPRequest r"
    "\<not> malformed_connect eqfold r u" "EscapedPath u = connectUDPURIPrefix @ rawHost @ ''/'' @ rawPort @ ''/''"
    "parseTargetSegments lower toASCII rawHost rawPort = Inr t"
proof -
  from assms obtain u rawHost rawPort where *: "URL r = Some u" "isConnectUDPRequest r"
    "\<not> malformed_connect eqfold r u" "HasPrefix (EscapedPath u) connectUDPURIPrefix"
    "Split (TrimPrefix (EscapedPath u) connectUDPURIPrefix) CHR ''/'' = [rawHost, rawPort, []]"
    "parseTargetSegments lower toASCII rawHost rawPort = Inr t"
    by (auto simp: parseConnectUDPTarget_def split: option.splits if_splits list.splits)
  from *(4) obtain rest where rest: "EscapedPath u = connectUDPURIPrefix @ rest"
    by (auto simp: HasPrefix_iff)
  with *(5) have "Split rest CHR ''/'' = [rawHost, rawPort, []]" by simp
  with Join_Split [of rest "CHR ''/''"] have "rest = rawHost @ ''/'' @ rawPort @ ''/''" by simp
  with * rest that show ?thesis by simp
qed

lemma good_host_char: "good_host h \<Longrightarrow> c \<in> set h \<Longrightarrow> host_char c"
  by (auto simp: good_host_def dest: IP_String_host_char canonical_name_host_char)

lemma Itoa_digits: "0 \<le> n \<Longrightarrow> c \<in> set (Itoa n) \<Longrightarrow> is_digit c"
  by (auto simp: Itoa_def dest: nat_digits_chars)

lemma good_host_split:
  assumes "good_host h" and "0 \<le> n"
  shows "SplitHostPort (JoinHostPort h (Itoa n)) = Inr (h, Itoa n)"
proof -
  have "CHR ''['' \<notin> set h \<and> CHR '']'' \<notin> set h"
    using good_host_char [OF assms(1)] host_char_specials by blast
  moreover have "CHR '':'' \<notin> set (Itoa n) \<and> CHR ''['' \<notin> set (Itoa n) \<and> CHR '']'' \<notin> set (Itoa n)"
    using Itoa_digits [OF assms(2)] digit_not_special by blast
  ultimately show ?thesis by (simp add: SplitHostPort_JoinHostPort)
qed

lemma parsed_target_splits:
  assumes "parseConnectUDPTarget lower eqfold toASCII r = Inr t"
  shows "SplitHostPort (hostPort t) = Inr (udp_host t, udp_port t)"
  using assms
  by (rule parseConnectUDPTarget_Inr) (auto dest!: parseTargetSegments_Inr simp: good_host_split)

text \<open>
  (C28) What \<open>parseConnectUDPTarget\<close> accepts is a CONNECT-UDP request over https whose path is
  the masque prefix followed by two segments; the port of the result is the decimal form of
  a number from 1 to 65535, its host is either the printed form of the address it parses to
  or a lower-case name of well-formed labels, and its \<open>hostPort\<close> splits back into the two.
\<close>

theorem parsed_target_shape:
  assumes "parseConnectUDPTarget lower eqfold toASCII r = Inr t"
  shows "(\<exists>u rawHost rawPort. URL r = Some u \<and> Scheme u = ''https'' \<and> isConnectUDPRequest r \<and>
      EscapedPath u = connectUDPURIPrefix @ rawHost @ ''/'' @ rawPort @ ''/'') \<and>
    (\<exists>n. 1 \<le> n \<and> n \<le> 65535 \<and> udp_port t = Itoa n) \<and>
    SplitHostPort (hostPort t) = Inr (udp_host t, udp_port t) \<and>
    (length (ParseIP (udp_host t)) = 16 \<and> udp_host t = IP_String (ParseIP (udp_host t)) \<or>
     canonical_name (udp_host t))"
proof -
  from assms obtain u rawHost rawPort where u: "URL r = Some u" "isConnectUDPRequest r"
    "\<not> malformed_connect eqfold r u" "EscapedPath u = connectUDPURIPrefix @ rawHost @ ''/'' @ rawPort @ ''/''"
    "parseTargetSegments lower toASCII rawHost rawPort = Inr t"
    by (rule parseConnectUDPTarget_Inr)
  from parseTargetSegments_Inr [OF u(5)] obtain n where
    n: "good_host (udp_host t)" "hostPort t = JoinHostPort (udp_host t) (udp_port t)"
      "1 \<le> n" "n \<le> 65535" "udp_port t = Itoa n" by auto
  have "SplitHostPort (hostPort t) = Inr (udp_host t, udp_port t)"
    using assms by (rule parsed_target_splits)
  moreover from u(3) have "Scheme u = ''https''" by (simp add: malformed_connect_def)
  ultimately show ?thesis using u n by (auto simp: good_host_def)
qed

section \<open>Round trip of the target\<close>

definition target_path :: "string \<Rightarrow> string \<Rightarrow> string" where
  "target_path host port = connectUDPURIPrefix @ host @ ''/'' @ port @ ''/''"

text \<open>The request for a host and port, with the other fields of a given one.\<close>

definition request_for :: "request \<Rightarrow> string \<Rightarrow> string \<Rightarrow> request" where
  "request_for r host port =
     r\<lparr>URL := map_option (\<lambda>u. u\<lparr>Path := target_path host port, RawPath := []\<rparr>) (URL r)\<rparr>"

lemma prefix_plain: "\<forall>c \<in> set connectUDPURIPrefix. \<not> shouldEscape c"
  by (simp add: connectUDPURIPrefix_def shouldEscape_def unreserved_def is_lower_def byte_of_def)

lemma EscapedPath_target:
  assumes "good_host h" and "0 \<le> n"
  shows "EscapedPath (u\<lparr>Path := target_path h (Itoa n), RawPath := []\<rparr>) = target_path h (Itoa n)"
proof -
  have "\<not> shouldEscape c" if "c \<in> set (target_path h (Itoa n))" for c
  proof -
    from that consider "c \<in> set connectUDPURIPrefix" | "c \<in> set h" | "c = CHR ''/''" | "c \<in> set (Itoa n)"
      by (auto simp: target_path_def)
    then show ?thesis
    proof cases
      case 2
      then show ?thesis using good_host_char [OF assms(1)] host_char_specials by blast
    next
      case 4
      then show ?thesis using Itoa_digits [OF assms(2)] digit_host_char host_char_specials by blast
    qed (use prefix_plain in \<open>auto simp: shouldEscape_def\<close>)
  qed
  then have "escape (target_path h (Itoa n)) = target_path h (Itoa n)" by (simp add: escape_plain)
  moreover have "target_path h (Itoa n) \<noteq> ''*''" by (simp add: target_path_def connectUDPURIPrefix_def)
  ultimately show ?thesis by (simp add: EscapedPath_def)
qed

lemma good_host_nonempty: "good_host h \<Longrightarrow> h \<noteq> []"
  using ParseIP_def by (auto simp: good_host_def canonical_name_def ParseAddr_def)

lemma good_host_literal: "good_host h \<Longrightarrow> ParseIP h \<noteq> [] \<Longrightarrow> IP_String (ParseIP h) = h"
  using ParseIP_dotted [of h] canonical_name_host_char [of h] by (auto simp: good_host_def)

lemma parseTargetSegments_good:
  assumes "good_host h" and "1 \<le> n" "n \<le> 65535" and "ParseIP h = [] \<Longrightarrow> toASCII h = Inr h"
  shows "parseTargetSegments lower toASCII h (Itoa n) =
    Inr \<lparr>udp_host = h, udp_port = Itoa n, hostPort = JoinHostPort h (Itoa n)\<rparr>"
proof -
  have ch: "c \<in> set h \<Longrightarrow> host_char c" for c using good_host_char [OF assms(1)] .
  have ascii: "ToLower lower h = map ascii_lower h"
    using ch host_char_specials by (simp add: ToLower_def list_all_iff)
  have "ascii_lower c \<noteq> CHR ''%''" if "c \<in> set h" for c
    using ch [OF that] host_char_specials [of c] ascii_lower_percent by blast
  then have "CHR ''%'' \<notin> set (ToLower lower h)" unfolding ascii set_map by (metis imageE)
  then have "\<not> Contains (ToLower lower h) (CHR ''%'' # p)" for p
    using Contains_hd [of "ToLower lower h" "CHR ''%''" p] by blast
  moreover have "CHR ''%'' \<notin> set h" using ch host_char_specials by blast
  moreover have "\<not> ContainsAny h (''/'' @ [CHR 0x5C] @ ''%@[]'')"
    using ch host_char_specials by (auto simp: ContainsAny_def list_ex_iff)
  moreover have "CHR ''%'' \<notin> set (Itoa n)" "allASCIIDigits (Itoa n)"
    using Itoa_digits [of n] digit_not_special assms(2)
    by (auto simp: allASCIIDigits_def list_all_iff Itoa_def)
  moreover have "Atoi (Itoa n) = Some n" using assms(2,3) by (simp add: Atoi_Itoa max_int_def)
  moreover have "canonicalDomain lower toASCII h = Inr h" if "ParseIP h = []"
    using that assms(1,4) by (auto simp: canonicalDomain_def good_host_def ToLower_canonical Let_def)
  moreover have "\<not> Contains (Itoa n) ''%''"
    using Contains_hd [of "Itoa n" "CHR ''%''" "[]"] calculation(4) by blast
  ultimately show ?thesis
    using assms(2,3) good_host_nonempty [OF assms(1)] good_host_literal [OF assms(1)]
    by (simp add: parseTargetSegments_def PathUnescape_plain Let_def)
qed

lemma parse_request_for:
  assumes "good_host h" and "1 \<le> n" "n \<le> 65535" and "ParseIP h = [] \<Longrightarrow> toASCII h = Inr h"
    and "URL r = Some u" "isConnectUDPRequest r" "\<not> malformed_connect eqfold r u"
  shows "parseConnectUDPTarget lower eqfold toASCII (request_for r h (Itoa n)) =
    Inr \<lparr>udp_host = h, udp_port = Itoa n, hostPort = JoinHostPort h (Itoa n)\<rparr>"
proof -
  have "CHR ''/'' \<notin> set h" using good_host_char [OF assms(1)] host_char_specials by blast
  moreover have "CHR ''/'' \<notin> set (Itoa n)" using Itoa_digits [of n] digit_not_special assms(2) by fastforce
  ultimately have "Split (h @ ''/'' @ Itoa n @ ''/'') CHR ''/'' = [h, Itoa n, []]"
    by (simp add: Split_append)
  moreover have "Itoa n \<noteq> []" by (simp add: Itoa_def)
  moreover have "isConnectUDPRequest (request_for r h (Itoa n))"
    "\<not> malformed_connect eqfold (request_for r h (Itoa n)) (u\<lparr>Path := target_path h (Itoa n), RawPath := []\<rparr>)"
    using assms(6,7) by (simp_all add: request_for_def isConnectUDPRequest_def malformed_connect_def)
  ultimately show ?thesis
    using assms(2,5) good_host_nonempty [OF assms(1)] EscapedPath_target [OF assms(1), of n u]
      parseTargetSegments_good [of h n toASCII lower, OF assms(1-4)]
    by (simp add: parseConnectUDPTarget_def request_for_def target_path_def)
qed


section \<open>A concrete request\<close>

definition sample_url :: url where
  "sample_url = \<lparr>Scheme = ''https'', User = None, url_Host = ''p.example'', Path = [], RawPath = [],
     RawQuery = [], ForceQuery = False, Fragment = []\<rparr>"

definition sample_request :: request where
  "sample_request = \<lparr>Method = ''CONNECT'', URL = Some sample_url, Proto = ''connect-udp'',
     ProtoMajor = 3, ProtoMinor = 0, Header = [''Capsule-Protocol'' \<mapsto> [''?1'']],
     Host = ''P.example'', RemoteAddr = ''192.0.2.1:1'', RequestURI = []\<rparr>"

lemma capsule_key: "CanonicalHeaderKey ''Capsule-Protocol'' = ''Capsule-Protocol''"
  by code_simp

lemma sample_hosts: "EqualFold (=) ''P.example'' ''p.example''"
  by code_simp

lemma sample_request_ok:
  "URL sample_request = Some sample_url" "isConnectUDPRequest sample_request"
  "\<not> malformed_connect (=) sample_request sample_url"
  by (simp_all add: sample_request_def sample_url_def isConnectUDPRequest_def connectUDPProtocol_def
      malformed_connect_def Header_Get_def capsule_key sample_hosts)

lemma sample_name: "good_host ''dns.example''"
proof -
  have "canonical_name ''dns.example''" by code_simp
  then show ?thesis by (simp add: good_host_def)
qed

lemma Itoa_443: "Itoa 443 = ''443''"
  by (simp add: Itoa_def nat_digits_3 go_eval)

lemma sample_parse:
  "parseConnectUDPTarget id (=) Inr (request_for sample_request ''dns.example'' ''443'') =
     Inr \<lparr>udp_host = ''dns.example'', udp_port = ''443'', hostPort = ''dns.example:443''\<rparr>"
  using parse_request_for [OF sample_name, of 443 Inr, OF _ _ _ sample_request_ok, of id]
  by (simp add: Itoa_443 JoinHostPort_def)

theorem parsed_target_shape_witness:
  "SplitHostPort ''dns.example:443'' = Inr (''dns.example'', ''443'')"
  using parsed_target_shape [OF sample_parse] by simp


section \<open>Redaction\<close>

lemma redacted_segments: "parseTargetSegments lower toASCII ''redacted'' ''0'' = Inl ErrConnectUDPMalformed"
proof -
  have "Atoi ''0'' = Some 0" by code_simp
  then show ?thesis by (simp add: parseTargetSegments_def split: option.splits)
qed

lemma redacted_path:
  "Path u = connectUDPRedactedPath \<Longrightarrow> RawPath u = [] \<Longrightarrow>
     EscapedPath u = connectUDPURIPrefix @ ''redacted/0/''"
proof -
  assume "Path u = connectUDPRedactedPath" "RawPath u = []"
  moreover
  have "escape connectUDPRedactedPath = connectUDPRedactedPath" by code_simp
  ultimately show ?thesis
    by (simp add: EscapedPath_def connectUDPRedactedPath_def connectUDPURIPrefix_def)
qed

text \<open>
  A redacted request carries nothing of its target: requests that differ only in path, query,
  fragment and request URI become equal, and the target parser refuses every redacted
  request, so that it cannot be served a second time.
\<close>

theorem redaction_hides_target:
  "redactConnectUDPRequest (r\<lparr>URL := Some (u\<lparr>Path := p, RawPath := rp, RawQuery := q,
       ForceQuery := fq, Fragment := fr\<rparr>), RequestURI := ru\<rparr>) =
     redactConnectUDPRequest (r\<lparr>URL := Some u\<rparr>) \<and>
   parseConnectUDPTarget lower eqfold toASCII (redactConnectUDPRequest r') = Inl ErrConnectUDPMalformed"
proof (intro conjI, simp add: redactConnectUDPRequest_def, cases "URL r'")
  case None
  then show "parseConnectUDPTarget lower eqfold toASCII (redactConnectUDPRequest r') = Inl ErrConnectUDPMalformed"
    by (simp add: parseConnectUDPTarget_def redactConnectUDPRequest_def)
next
  case (Some v)
  have "Split ''redacted/0/'' CHR ''/'' = [''redacted'', ''0'', []]" by simp
  moreover have "EscapedPath (v\<lparr>Path := connectUDPRedactedPath, RawPath := [], RawQuery := [],
      ForceQuery := False, Fragment := []\<rparr>) = connectUDPURIPrefix @ ''redacted/0/''"
    by (rule redacted_path) simp_all
  ultimately show "parseConnectUDPTarget lower eqfold toASCII (redactConnectUDPRequest r') = Inl ErrConnectUDPMalformed"
    using Some by (simp add: parseConnectUDPTarget_def redactConnectUDPRequest_def redacted_segments)
qed

section \<open>Datagrams\<close>

lemma decode_eq:
  assumes "quicvarint Parse Len Append"
  shows "decodeConnectUDPDatagram Parse Len d =
    (if \<exists>r. d = 0 # r then Inr (tl d) else Inl ErrConnectUDPMalformed)"
  using quicvarint.Parse_zero_iff [OF assms, of d] quicvarint.Len_zero [OF assms]
  by (auto simp: decodeConnectUDPDatagram_def split: sum.splits prod.splits)

text \<open>
  (C27) Framing and unframing are inverse: a datagram decodes to a payload exactly when it is the
  encoding of that payload, so a datagram is accepted only with the context identifier zero
  in its shortest form, and the payload is passed on unchanged.
\<close>

theorem datagram_roundtrip:
  assumes "quicvarint Parse Len Append"
  shows "(decodeConnectUDPDatagram Parse Len d = Inr p \<longleftrightarrow> d = encodeConnectUDPDatagram Append p) \<and>
    encodeConnectUDPDatagram Append p = 0 # p \<and>
    decodeConnectUDPDatagram Parse Len d \<in> {Inl ErrConnectUDPMalformed, Inr (tl d)}"
proof -
  have enc: "encodeConnectUDPDatagram Append p = 0 # p" for p
    by (simp add: encodeConnectUDPDatagram_def quicvarint.Append_zero [OF assms])
  show ?thesis by (auto simp: enc decode_eq [OF assms])
qed

theorem datagram_roundtrip_witness:
  "decodeConnectUDPDatagram rfc_Parse rfc_Len [0, 7, 8] = Inr [7, 8] \<and>
   decodeConnectUDPDatagram rfc_Parse rfc_Len [64, 0, 7] = Inl ErrConnectUDPMalformed"
  using datagram_roundtrip [OF rfc.quicvarint_axioms, of "[0, 7, 8]" "[7, 8]"]
    datagram_roundtrip [OF rfc.quicvarint_axioms, of "[64, 0, 7]" "[0, 7]"] by auto

end
