(* ===== verification/Udp_Admission.thy ===== *)
theory Udp_Admission
  imports Udp_Protocol
begin

text \<open>
  Admission of CONNECT-UDP associations (\<open>acquireConnectUDP\<close> and the release closure in
  \<open>native_udp_association.go\<close>) with the metrics they record (\<open>native_udp_metrics.go\<close>).
  The sections under \<open>connectUDPMu\<close> are single transitions; the metric updates outside the
  lock, among them the compare-and-swap loop for the peak, are transitions of their own, so
  that requests interleave where the code lets them.  A collector of the metrics library is
  represented by the calls it receives.
\<close>

section \<open>Metrics\<close>

datatype metric_call =
    ActiveInc
  | ActiveDec
  | AssociationsInc
  | RejectionsInc string
  | PeakSet "64 word"
  | ClosuresInc string
  | DurationObserve int

text \<open>\<open>ready\<close> says that the collectors exist, that is, that \<open>initConnectUDPMetrics\<close> ran.\<close>

record udpMetrics =
  ready :: bool
  activePeakValue :: "64 word"
  calls :: "metric_call list"

definition record_calls :: "metric_call list \<Rightarrow> udpMetrics \<Rightarrow> udpMetrics" where
  "record_calls cs m = m\<lparr>calls := calls m @ cs\<rparr>"

definition recordConnectUDPAdmission :: "string \<Rightarrow> udpMetrics \<Rightarrow> udpMetrics" where
  "recordConnectUDPAdmission limit m = (if ready m then record_calls [RejectionsInc limit] m else m)"

text \<open>\<open>recordConnectUDPAdmissionAccepted\<close> without interference: the swap succeeds at once.\<close>

definition recordConnectUDPAdmissionAccepted :: "64 word \<Rightarrow> udpMetrics \<Rightarrow> udpMetrics" where
  "recordConnectUDPAdmissionAccepted active m =
     (if ready m then
        let m1 = record_calls [ActiveInc, AssociationsInc] m; peak = activePeakValue m1 in
        if active \<le> peak then m1 else record_calls [PeakSet active] (m1\<lparr>activePeakValue := active\<rparr>)
      else m)"

definition recordConnectUDPAdmissionReleased :: "string \<Rightarrow> int \<Rightarrow> udpMetrics \<Rightarrow> udpMetrics" where
  "recordConnectUDPAdmissionReleased reason duration m =
     (if ready m then record_calls [ActiveDec, ClosuresInc reason, DurationObserve duration] m else m)"

section \<open>The counters under the lock\<close>

abbreviation connectUDPMaxAssociations :: int where "connectUDPMaxAssociations \<equiv> 512"
abbreviation connectUDPMaxPerClient :: int where "connectUDPMaxPerClient \<equiv> 128"

definition maxActive :: "handler \<Rightarrow> int" where
  "maxActive h = (if connectUDPMaxActive h \<le> 0 then connectUDPMaxAssociations else connectUDPMaxActive h)"

definition maxClient :: "handler \<Rightarrow> int" where
  "maxClient h = (if connectUDPMaxClientActive h \<le> 0 then connectUDPMaxPerClient else connectUDPMaxClientActive h)"

text \<open>Reading a Go map: an absent key has the zero value.\<close>

definition byClient :: "handler \<Rightarrow> string \<Rightarrow> int" where
  "byClient h c = (case connectUDPByClient h c of None \<Rightarrow> 0 | Some n \<Rightarrow> n)"

datatype admission = RejectedGlobal | RejectedSource | Accepted "64 word" "64 word"

definition acquire_locked :: "string \<Rightarrow> handler \<Rightarrow> admission \<times> handler" where
  "acquire_locked client h =
     (if connectUDPActive h \<ge> maxActive h then (RejectedGlobal, h)
      else if byClient h client \<ge> maxClient h then (RejectedSource, h)
      else
        let h' = h\<lparr>connectUDPActive := connectUDPActive h + 1,
                   connectUDPByClient := (connectUDPByClient h)(client \<mapsto> byClient h client + 1),
                   connectUDPNextID := connectUDPNextID h + 1\<rparr>
        in (Accepted (connectUDPNextID h') (of_int (connectUDPActive h')), h'))"

definition release_locked :: "string \<Rightarrow> handler \<Rightarrow> handler" where
  "release_locked client h =
     (let n = byClient h client - 1 in
      h\<lparr>connectUDPActive := connectUDPActive h - 1,
        connectUDPByClient := (if n = 0 then (connectUDPByClient h)(client := None)
                               else (connectUDPByClient h)(client \<mapsto> n))\<rparr>)"

text \<open>The two operations as a caller without competitors sees them; \<open>done\<close> is the state of the
  \<open>sync.Once\<close> of the release closure.\<close>

definition acquireConnectUDP ::
  "string \<Rightarrow> handler \<Rightarrow> udpMetrics \<Rightarrow> 64 word option \<times> handler \<times> udpMetrics" where
  "acquireConnectUDP client h m =
     (case acquire_locked client h of
        (RejectedGlobal, h') \<Rightarrow> (None, h', recordConnectUDPAdmission ''global'' m)
      | (RejectedSource, h') \<Rightarrow> (None, h', recordConnectUDPAdmission ''source'' m)
      | (Accepted aid active, h') \<Rightarrow> (Some aid, h', recordConnectUDPAdmissionAccepted active m))"

definition releaseReason :: "string list \<Rightarrow> string" where
  "releaseReason reason = (case reason of r # _ \<Rightarrow> if r \<noteq> [] then r else ''request_end'' | [] \<Rightarrow> ''request_end'')"

definition releaseConnectUDP ::
  "string \<Rightarrow> string list \<Rightarrow> int \<Rightarrow> bool \<Rightarrow> handler \<Rightarrow> udpMetrics \<Rightarrow> bool \<times> handler \<times> udpMetrics" where
  "releaseConnectUDP client reason duration once_done h m =
     (if once_done then (True, h, m)
      else (True, release_locked client h,
            recordConnectUDPAdmissionReleased (releaseReason reason) duration m))"

text \<open>The key under which a client is counted; \<open>lower\<close> is the Unicode part of \<open>strings.ToLower\<close>.\<close>

definition clientAddressKey :: "(string \<Rightarrow> string) \<Rightarrow> string \<Rightarrow> string" where
  "clientAddressKey lower remoteAddress =
     (case SplitHostPort remoteAddress of
        Inl _ \<Rightarrow> ''unknown''
      | Inr (host, _) \<Rightarrow>
          if host = [] then ''unknown''
          else if ParseIP host \<noteq> [] then IP_String (ParseIP host)
          else ToLower lower host)"

section \<open>Interleaved requests\<close>

text \<open>
  Where a request is inside \<open>acquireConnectUDP\<close> and its release closure: before the call,
  refused, admitted with the metrics still to record, at the head of the peak loop, between
  load and compare-and-swap, between a won swap and the update of the gauge, holding its
  slot, with the closure's metrics recorded and the counters still to decrement, released.
\<close>

datatype request_state =
    Idle
  | Refused
  | Admitted "64 word" "64 word"
  | PeakLoop "64 word" "64 word"
  | PeakLoaded "64 word" "64 word" "64 word"
  | PeakWon "64 word" "64 word"
  | Serving "64 word" "64 word"
  | Closing "64 word"
  | Released

fun request_step ::
  "string \<Rightarrow> string list \<Rightarrow> int \<Rightarrow> request_state \<Rightarrow> handler \<Rightarrow> udpMetrics \<Rightarrow>
   request_state \<times> handler \<times> udpMetrics" where
  "request_step c reason d Idle h m =
     (case acquire_locked c h of
        (RejectedGlobal, h') \<Rightarrow> (Refused, h', recordConnectUDPAdmission ''global'' m)
      | (RejectedSource, h') \<Rightarrow> (Refused, h', recordConnectUDPAdmission ''source'' m)
      | (Accepted aid active, h') \<Rightarrow> (Admitted aid active, h', m))"
| "request_step c reason d (Admitted aid active) h m =
     (if ready m then (PeakLoop aid active, h, record_calls [ActiveInc, AssociationsInc] m)
      else (Serving aid active, h, m))"
| "request_step c reason d (PeakLoop aid active) h m =
     (if active \<le> activePeakValue m then (Serving aid active, h, m)
      else (PeakLoaded aid active (activePeakValue m), h, m))"
| "request_step c reason d (PeakLoaded aid active peak) h m =
     (if activePeakValue m = peak then (PeakWon aid active, h, m\<lparr>activePeakValue := active\<rparr>)
      else (PeakLoop aid active, h, m))"
| "request_step c reason d (PeakWon aid active) h m =
     (Serving aid active, h, record_calls [PeakSet active] m)"
| "request_step c reason d (Serving aid active) h m =
     (Closing aid, h, recordConnectUDPAdmissionReleased (releaseReason reason) d m)"
| "request_step c reason d (Closing aid) h m = (Released, release_locked c h, m)"
| "request_step c reason d Refused h m = (Refused, h, m)"
| "request_step c reason d Released h m = (Released, h, m)"

record admission_system =
  sys_handler :: handler
  sys_metrics :: udpMetrics
  requests :: "nat \<Rightarrow> request_state"

text \<open>Request \<open>i\<close> comes from client \<open>client i\<close>; any request may take the next step.\<close>

definition step_of ::
  "(nat \<Rightarrow> string) \<Rightarrow> nat \<Rightarrow> string list \<Rightarrow> int \<Rightarrow> admission_system \<Rightarrow> admission_system" where
  "step_of client i reason d s =
     (case request_step (client i) reason d (requests s i) (sys_handler s) (sys_metrics s) of
        (t, h, m) \<Rightarrow> \<lparr>sys_handler = h, sys_metrics = m, requests = (requests s)(i := t)\<rparr>)"

inductive reachable :: "(nat \<Rightarrow> string) \<Rightarrow> admission_system \<Rightarrow> admission_system \<Rightarrow> bool"
  for client :: "nat \<Rightarrow> string" and s0 :: admission_system where
  start: "reachable client s0 s0"
| step: "reachable client s0 s \<Longrightarrow> reachable client s0 (step_of client i reason d s)"

text \<open>A freshly provisioned handler: no association, no request under way.\<close>

definition fresh :: "admission_system \<Rightarrow> bool" where
  "fresh s \<longleftrightarrow> connectUDPActive (sys_handler s) = 0 \<and> connectUDPByClient (sys_handler s) = Map.empty \<and>
     connectUDPNextID (sys_handler s) = 0 \<and> activePeakValue (sys_metrics s) = 0 \<and>
     calls (sys_metrics s) = [] \<and> requests s = (\<lambda>_. Idle)"

section \<open>The counters count the holders\<close>

fun holds :: "request_state \<Rightarrow> bool" where
  "holds Idle = False"
| "holds Refused = False"
| "holds Released = False"
| "holds _ = True"

definition holders :: "admission_system \<Rightarrow> nat set" where
  "holders s = {i. holds (requests s i)}"

definition client_holders :: "(nat \<Rightarrow> string) \<Rightarrow> admission_system \<Rightarrow> string \<Rightarrow> nat set" where
  "client_holders client s c = {i \<in> holders s. client i = c}"

definition admit :: "string \<Rightarrow> handler \<Rightarrow> handler" where
  "admit c h = h\<lparr>connectUDPActive := connectUDPActive h + 1,
     connectUDPByClient := (connectUDPByClient h)(c \<mapsto> byClient h c + 1),
     connectUDPNextID := connectUDPNextID h + 1\<rparr>"

lemma acquire_locked_cases:
  "acquire_locked c h =
     (if connectUDPActive h \<ge> maxActive h then (RejectedGlobal, h)
      else if byClient h c \<ge> maxClient h then (RejectedSource, h)
      else (Accepted (connectUDPNextID h + 1) (of_int (connectUDPActive h + 1)), admit c h))"
  by (simp add: acquire_locked_def admit_def Let_def)

text \<open>The three effects a step can have on the counters.\<close>

lemma request_step_effect:
  assumes "request_step c reason d t h m = (t', h', m')"
  obtains (keep) "h' = h" "holds t' = holds t"
  | (admitted) aid active where "t = Idle" "t' = Admitted aid active" "h' = admit c h"
      "connectUDPActive h < maxActive h" "byClient h c < maxClient h"
      "aid = connectUDPNextID h + 1" "active = of_int (connectUDPActive h + 1)"
  | (released) aid where "t = Closing aid" "t' = Released" "h' = release_locked c h"
  using assms
  by (cases "(c, reason, d, t, h, m)" rule: request_step.cases)
    (auto simp: acquire_locked_cases split: if_splits)

lemma holders_step:
  "holders (s\<lparr>requests := (requests s)(i := t)\<rparr>) =
     (if holds t then insert i (holders s) else holders s - {i})"
  by (auto simp: holders_def)

definition counted :: "(nat \<Rightarrow> string) \<Rightarrow> admission_system \<Rightarrow> bool" where
  "counted client s \<longleftrightarrow> finite (holders s) \<and>
     connectUDPActive (sys_handler s) = int (card (holders s)) \<and>
     (\<forall>c. connectUDPByClient (sys_handler s) c =
        (if client_holders client s c = {} then None
         else Some (int (card (client_holders client s c)))))"

lemma counted_byClient:
  "counted client s \<Longrightarrow> byClient (sys_handler s) c = int (card (client_holders client s c))"
  by (simp add: counted_def byClient_def)

lemma counted_finite: "counted client s \<Longrightarrow> finite (client_holders client s c)"
  by (simp add: counted_def client_holders_def)

lemma counted_admit:
  assumes "counted client s" and "\<not> holds (requests s i)" and "holds t"
  shows "counted client \<lparr>sys_handler = admit (client i) (sys_handler s), sys_metrics = m,
    requests = (requests s)(i := t)\<rparr>" (is "counted client ?s")
proof -
  have h: "holders ?s = insert i (holders s)" "i \<notin> holders s"
    using assms(2,3) by (auto simp: holders_def)
  then have c: "client_holders client ?s c =
      (if c = client i then insert i (client_holders client s c) else client_holders client s c)" for c
    by (auto simp: client_holders_def)
  have "i \<notin> client_holders client s (client i)" using h(2) by (simp add: client_holders_def)
  with assms(1) counted_finite [OF assms(1)] h c counted_byClient [OF assms(1), of "client i"]
  show ?thesis by (simp add: counted_def admit_def)
qed

lemma card_remove_int: "finite A \<Longrightarrow> i \<in> A \<Longrightarrow> int (card (A - {i})) = int (card A) - 1"
  by (simp add: of_nat_diff card_gt_0_iff Suc_leI) (metis card_gt_0_iff empty_iff of_nat_1 of_nat_diff Suc_leI One_nat_def)

lemma counted_release:
  assumes "counted client s" and "holds (requests s i)" and "\<not> holds t"
  shows "counted client \<lparr>sys_handler = release_locked (client i) (sys_handler s), sys_metrics = m,
    requests = (requests s)(i := t)\<rparr>" (is "counted client ?s")
proof -
  have h: "holders ?s = holders s - {i}" "i \<in> holders s"
    using assms(2,3) by (auto simp: holders_def)
  then have c: "client_holders client ?s c =
      (if c = client i then client_holders client s c - {i} else client_holders client s c)" for c
    by (auto simp: client_holders_def)
  let ?A = "client_holders client s (client i)"
  have i: "i \<in> ?A" "finite ?A" using h(2) counted_finite [OF assms(1)] by (auto simp: client_holders_def)
  then have n: "byClient (sys_handler s) (client i) - 1 = int (card (?A - {i}))"
    using counted_byClient [OF assms(1), of "client i"] card_remove_int [OF i(2,1)] by linarith
  have e: "int (card (?A - {i})) = 0 \<longleftrightarrow> ?A - {i} = {}" using i(2) by (simp only: of_nat_eq_0_iff card_eq_0_iff) simp
  have "connectUDPByClient (sys_handler ?s) x =
      (if client_holders client ?s x = {} then None else Some (int (card (client_holders client ?s x))))" for x
  proof (cases "x = client i")
    case True
    then show ?thesis
      unfolding c by (simp only: release_locked_def Let_def n e admission_system.simps handler.simps if_True) simp
  next
    case False
    with assms(1) show ?thesis unfolding c by (simp add: release_locked_def Let_def counted_def)
  qed
  moreover have "connectUDPActive (sys_handler ?s) = int (card (holders ?s))"
    using assms(1) card_remove_int [OF _ h(2)] unfolding h(1) counted_def by (simp add: release_locked_def Let_def)
  ultimately show ?thesis using assms(1) h(1) unfolding counted_def by simp
qed

lemma counted_keep:
  assumes "counted client s" and "holds t = holds (requests s i)"
  shows "counted client \<lparr>sys_handler = sys_handler s, sys_metrics = m, requests = (requests s)(i := t)\<rparr>"
proof -
  have "holders \<lparr>sys_handler = sys_handler s, sys_metrics = m, requests = (requests s)(i := t)\<rparr> = holders s"
    using assms(2) by (auto simp: holders_def)
  with assms(1) show ?thesis by (simp add: counted_def client_holders_def)
qed

lemma counted_step: "counted client s \<Longrightarrow> counted client (step_of client i reason d s)"
proof -
  assume inv: "counted client s"
  obtain t h m where e: "request_step (client i) reason d (requests s i) (sys_handler s) (sys_metrics s) = (t, h, m)"
    by (metis prod_cases3)
  then show ?thesis
  proof (cases rule: request_step_effect)
    case keep
    with e inv show ?thesis by (simp add: step_of_def counted_keep)
  next
    case admitted
    with e inv show ?thesis by (simp add: step_of_def counted_admit)
  next
    case released
    with e inv show ?thesis by (simp add: step_of_def counted_release)
  qed
qed

lemma counted_fresh: "fresh s \<Longrightarrow> counted client s"
  by (simp add: fresh_def counted_def holders_def client_holders_def)

lemma reachable_counted: "reachable client s0 s \<Longrightarrow> fresh s0 \<Longrightarrow> counted client s"
  by (induction rule: reachable.induct) (auto intro: counted_step counted_fresh)

section \<open>Limits\<close>

definition within_limits :: "admission_system \<Rightarrow> admission_system \<Rightarrow> bool" where
  "within_limits s0 s \<longleftrightarrow>
     maxActive (sys_handler s) = maxActive (sys_handler s0) \<and>
     maxClient (sys_handler s) = maxClient (sys_handler s0) \<and>
     connectUDPActive (sys_handler s) \<le> maxActive (sys_handler s) \<and>
     (\<forall>c. byClient (sys_handler s) c \<le> maxClient (sys_handler s))"

lemma max_pos: "0 < maxActive h" "0 < maxClient h"
  by (simp_all add: maxActive_def maxClient_def)

lemma admit_limits [admission_simps]:
  "maxActive (admit c h) = maxActive h" "maxClient (admit c h) = maxClient h"
  "byClient (admit c h) x = (if x = c then byClient h c + 1 else byClient h x)"
  "connectUDPActive (admit c h) = connectUDPActive h + 1"
  "connectUDPNextID (admit c h) = connectUDPNextID h + 1"
  by (simp_all add: admit_def maxActive_def maxClient_def byClient_def)

lemma release_limits [admission_simps]:
  "maxActive (release_locked c h) = maxActive h" "maxClient (release_locked c h) = maxClient h"
  "byClient (release_locked c h) x = (if x = c then byClient h c - 1 else byClient h x)"
  "connectUDPActive (release_locked c h) = connectUDPActive h - 1"
  "connectUDPNextID (release_locked c h) = connectUDPNextID h"
  by (auto simp: release_locked_def maxActive_def maxClient_def byClient_def Let_def)

lemma within_limits_step:
  assumes "within_limits s0 s"
  shows "within_limits s0 (step_of client i reason d s)"
proof -
  obtain t h m where e: "request_step (client i) reason d (requests s i) (sys_handler s) (sys_metrics s) = (t, h, m)"
    by (metis prod_cases3)
  then show ?thesis
  proof (cases rule: request_step_effect)
    case released
    have "byClient (sys_handler s) (client i) \<le> maxClient (sys_handler s)"
      using assms unfolding within_limits_def by blast
    with released e assms show ?thesis by (auto simp: step_of_def within_limits_def admission_simps)
  qed (use e assms in \<open>auto simp: step_of_def within_limits_def admission_simps\<close>)
qed

lemma reachable_within_limits:
  "reachable client s0 s \<Longrightarrow> fresh s0 \<Longrightarrow> within_limits s0 s"
proof (induction rule: reachable.induct)
  case start
  then show ?case
    using max_pos [of "sys_handler s0"] by (simp add: within_limits_def fresh_def byClient_def)
next
  case step
  then show ?case by (simp add: within_limits_step)
qed

text \<open>
  (C4) However requests interleave, the active counter is the number of requests holding a slot,
  and neither that number nor the number of slots of one client exceeds its limit; when no
  request holds a slot, the per-client table is empty again.
\<close>

theorem admission_limits:
  assumes "reachable client s0 s" and "fresh s0"
  shows "connectUDPActive (sys_handler s) = int (card (holders s)) \<and>
    int (card (holders s)) \<le> maxActive (sys_handler s0) \<and>
    int (card (client_holders client s c)) \<le> maxClient (sys_handler s0) \<and>
    (holders s = {} \<longrightarrow> connectUDPByClient (sys_handler s) = Map.empty)"
proof -
  have c: "counted client s" using assms by (rule reachable_counted)
  have l: "within_limits s0 s" using assms by (rule reachable_within_limits)
  have "connectUDPByClient (sys_handler s) = Map.empty" if "holders s = {}"
    using c that by (auto simp: counted_def client_holders_def)
  with c l counted_byClient [OF c, of c] show ?thesis
    by (auto simp: counted_def within_limits_def dest: spec [of _ c])
qed

text \<open>
  Admission is exact: in every reachable state a new request is refused for the global limit
  precisely when that many requests hold slots, for the client limit precisely when only the
  client has exhausted its share, and otherwise it is admitted and holds a slot.
\<close>

theorem admission_exact:
  assumes "reachable client s0 s" and "fresh s0" and "requests s i = Idle"
  shows "(fst (acquire_locked (client i) (sys_handler s)) = RejectedGlobal \<longleftrightarrow>
      int (card (holders s)) = maxActive (sys_handler s0)) \<and>
    (fst (acquire_locked (client i) (sys_handler s)) = RejectedSource \<longleftrightarrow>
      int (card (holders s)) < maxActive (sys_handler s0) \<and>
      int (card (client_holders client s (client i))) = maxClient (sys_handler s0)) \<and>
    (i \<in> holders (step_of client i reason d s) \<longleftrightarrow>
      int (card (holders s)) < maxActive (sys_handler s0) \<and>
      int (card (client_holders client s (client i))) < maxClient (sys_handler s0))"
proof -
  have c: "counted client s" using assms(1,2) by (rule reachable_counted)
  have l: "within_limits s0 s" using assms(1,2) by (rule reachable_within_limits)
  have b: "byClient (sys_handler s) (client i) \<le> maxClient (sys_handler s)"
    using l unfolding within_limits_def by blast
  show ?thesis
    using c l b counted_byClient [OF c, of "client i"] assms(3)
    by (auto simp: counted_def within_limits_def acquire_locked_cases step_of_def holders_def)
qed

section \<open>Association identifiers\<close>

fun id_of :: "request_state \<Rightarrow> 64 word option" where
  "id_of (Admitted aid a) = Some aid"
| "id_of (PeakLoop aid a) = Some aid"
| "id_of (PeakLoaded aid a p) = Some aid"
| "id_of (PeakWon aid a) = Some aid"
| "id_of (Serving aid a) = Some aid"
| "id_of (Closing aid) = Some aid"
| "id_of _ = None"

definition accepted :: "admission_system \<Rightarrow> nat set" where
  "accepted s = {i. requests s i \<noteq> Idle \<and> requests s i \<noteq> Refused}"

text \<open>As long as fewer than \<open>2 ^ 64\<close> requests were accepted, every identifier in use lies
  between one and the number of acceptances, and no two requests share one.\<close>

definition ids_ok :: "admission_system \<Rightarrow> bool" where
  "ids_ok s \<longleftrightarrow> finite (accepted s) \<and>
     connectUDPNextID (sys_handler s) = of_nat (card (accepted s)) \<and>
     (card (accepted s) < 2 ^ 64 \<longrightarrow>
       (\<forall>i aid. id_of (requests s i) = Some aid \<longrightarrow> 1 \<le> unat aid \<and> unat aid \<le> card (accepted s)) \<and>
       (\<forall>i j aid. id_of (requests s i) = Some aid \<longrightarrow> id_of (requests s j) = Some aid \<longrightarrow> i = j))"

lemma request_step_id:
  assumes "request_step c reason d t h m = (t', h', m')"
  shows "(t' = Admitted (connectUDPNextID h + 1) (of_int (connectUDPActive h + 1)) \<and> t = Idle \<and>
      connectUDPNextID h' = connectUDPNextID h + 1) \<or>
    ((t' = Idle \<or> t' = Refused) = (t = Idle \<or> t = Refused) \<and> (id_of t' = id_of t \<or> id_of t' = None) \<and>
      connectUDPNextID h' = connectUDPNextID h)"
  using assms
  by (cases "(c, reason, d, t, h, m)" rule: request_step.cases)
    (auto simp: acquire_locked_cases admission_simps split: if_splits)

lemma ids_ok_accept:
  assumes "ids_ok s" and "requests s i = Idle" and "t = Admitted (connectUDPNextID (sys_handler s) + 1) active"
    and "connectUDPNextID h = connectUDPNextID (sys_handler s) + 1"
  shows "ids_ok \<lparr>sys_handler = h, sys_metrics = m, requests = (requests s)(i := t)\<rparr>" (is "ids_ok ?s")
proof -
  let ?n = "card (accepted s)"
  have a: "accepted ?s = insert i (accepted s)" "i \<notin> accepted s"
    using assms(2,3) by (auto simp: accepted_def)
  then have n: "card (accepted ?s) = Suc ?n" using assms(1) by (simp add: ids_ok_def)
  have new: "unat (connectUDPNextID (sys_handler s) + 1) = Suc ?n" if "Suc ?n < 2 ^ 64"
  proof -
    have "connectUDPNextID (sys_handler s) + 1 = of_nat (Suc ?n)" using assms(1) by (simp add: ids_ok_def)
    with that show ?thesis by (simp only: unat_of_nat) (simp add: take_bit_nat_eq_self)
  qed
  have old: "id_of (requests s j) = Some aid \<Longrightarrow> Suc ?n < 2 ^ 64 \<Longrightarrow> 1 \<le> unat aid \<and> unat aid \<le> ?n" for j aid
    using assms(1) by (auto simp: ids_ok_def)
  have range: "1 \<le> unat aid \<and> unat aid \<le> Suc ?n"
    if "Suc ?n < 2 ^ 64" "id_of (requests ?s j) = Some aid" for j aid
    using that new old [of j aid] assms(3) by (auto split: if_splits)
  have "j = k" if b: "Suc ?n < 2 ^ 64" "id_of (requests ?s j) = Some aid" "id_of (requests ?s k) = Some aid" for j k aid
  proof -
    have "id_of (requests s x) = Some aid \<Longrightarrow> id_of (requests s y) = Some aid \<Longrightarrow> x = y" for x y
      using assms(1) b(1) by (auto simp: ids_ok_def)
    then show ?thesis
      using b new [OF b(1)] old [of j aid] old [of k aid] assms(3) by (auto split: if_splits)
  qed
  moreover have "finite (accepted ?s)" "connectUDPNextID (sys_handler ?s) = of_nat (Suc ?n)"
    using assms(1,4) a by (simp_all add: ids_ok_def)
  ultimately show ?thesis using range unfolding ids_ok_def n by blast
qed

lemma ids_ok_same:
  assumes "ids_ok s" and "(t = Idle \<or> t = Refused) = (requests s i = Idle \<or> requests s i = Refused)"
    and "id_of t = id_of (requests s i) \<or> id_of t = None" and "connectUDPNextID h = connectUDPNextID (sys_handler s)"
  shows "ids_ok \<lparr>sys_handler = h, sys_metrics = m, requests = (requests s)(i := t)\<rparr>" (is "ids_ok ?s")
proof -
  have "accepted ?s = accepted s" using assms(2) by (auto simp: accepted_def)
  moreover have "id_of (requests ?s j) = Some aid \<Longrightarrow> id_of (requests s j) = Some aid" for j aid
    using assms(3) by (auto split: if_splits)
  moreover have "connectUDPNextID (sys_handler ?s) = connectUDPNextID (sys_handler s)"
    using assms(4) by simp
  ultimately show ?thesis using assms(1) unfolding ids_ok_def by metis
qed

lemma ids_ok_step: "ids_ok s \<Longrightarrow> ids_ok (step_of client i reason d s)"
proof -
  assume ok: "ids_ok s"
  obtain t h m where e: "request_step (client i) reason d (requests s i) (sys_handler s) (sys_metrics s) = (t, h, m)"
    by (metis prod_cases3)
  from request_step_id [OF e] have "ids_ok \<lparr>sys_handler = h, sys_metrics = m, requests = (requests s)(i := t)\<rparr>"
    using ids_ok_accept [OF ok] ids_ok_same [OF ok] by blast
  then show ?thesis by (simp add: step_of_def e)
qed

lemma reachable_ids_ok: "reachable client s0 s \<Longrightarrow> fresh s0 \<Longrightarrow> ids_ok s"
proof (induction rule: reachable.induct)
  case start
  then show ?case by (simp add: ids_ok_def fresh_def accepted_def)
qed (simp add: ids_ok_step)

text \<open>
  Two different requests that hold slots at the same time never carry the same association
  identifier, and no identifier is zero, until \<open>2 ^ 64\<close> requests have been accepted.
\<close>

theorem association_ids_unique:
  assumes "reachable client s0 s" and "fresh s0" and "card (accepted s) < 2 ^ 64"
    and "id_of (requests s i) = Some a" and "id_of (requests s j) = Some b" and "i \<noteq> j"
  shows "a \<noteq> b \<and> a \<noteq> 0 \<and> b \<noteq> 0"
proof -
  have "ids_ok s" using assms(1,2) by (rule reachable_ids_ok)
  with assms(3-6) have "a \<noteq> b" "1 \<le> unat a" "1 \<le> unat b" unfolding ids_ok_def by blast+
  then show ?thesis by auto
qed

section \<open>The peak\<close>

fun peak_state :: "64 word \<Rightarrow> bool \<Rightarrow> request_state \<Rightarrow> bool" where
  "peak_state v rdy (PeakLoaded aid a p) = (p < a \<and> p \<le> v)"
| "peak_state v rdy (PeakWon aid a) = (a \<le> v)"
| "peak_state v rdy (Serving aid a) = (rdy \<longrightarrow> a \<le> v)"
| "peak_state v rdy _ = True"

lemma peak_state_mono: "peak_state v rdy t \<Longrightarrow> v \<le> v' \<Longrightarrow> peak_state v' rdy t"
  by (cases "(v, rdy, t)" rule: peak_state.cases) auto

lemma ready_kept [admission_simps]:
  "ready (record_calls cs m) = ready m" "activePeakValue (record_calls cs m) = activePeakValue m"
  "ready (recordConnectUDPAdmission l m) = ready m"
  "activePeakValue (recordConnectUDPAdmission l m) = activePeakValue m"
  "ready (recordConnectUDPAdmissionReleased r d m) = ready m"
  "activePeakValue (recordConnectUDPAdmissionReleased r d m) = activePeakValue m"
  by (simp_all add: record_calls_def recordConnectUDPAdmission_def recordConnectUDPAdmissionReleased_def)

lemma request_step_peak:
  assumes "request_step c reason d t h m = (t', h', m')" and "peak_state (activePeakValue m) (ready m) t"
  shows "ready m' = ready m \<and> activePeakValue m \<le> activePeakValue m' \<and>
    peak_state (activePeakValue m') (ready m') t'"
  using assms
  by (cases "(c, reason, d, t, h, m)" rule: request_step.cases)
    (auto simp: acquire_locked_cases admission_simps split: if_splits)

definition peak_ok :: "admission_system \<Rightarrow> bool" where
  "peak_ok s \<longleftrightarrow> (\<forall>i. peak_state (activePeakValue (sys_metrics s)) (ready (sys_metrics s)) (requests s i))"

lemma peak_ok_step:
  assumes "peak_ok s"
  shows "peak_ok (step_of client i reason d s) \<and> ready (sys_metrics (step_of client i reason d s)) = ready (sys_metrics s) \<and>
    activePeakValue (sys_metrics s) \<le> activePeakValue (sys_metrics (step_of client i reason d s))"
proof -
  obtain t h m where e: "request_step (client i) reason d (requests s i) (sys_handler s) (sys_metrics s) = (t, h, m)"
    by (metis prod_cases3)
  from request_step_peak [OF e] assms have *: "ready m = ready (sys_metrics s)"
    "activePeakValue (sys_metrics s) \<le> activePeakValue m" "peak_state (activePeakValue m) (ready m) t"
    by (auto simp: peak_ok_def)
  have "peak_state (activePeakValue m) (ready m) (requests s j)" for j
    using assms unfolding peak_ok_def *(1) by (blast intro: peak_state_mono [OF _ *(2)])
  with * show ?thesis by (simp add: step_of_def e peak_ok_def)
qed

lemma reachable_peak:
  "reachable client s0 s \<Longrightarrow> fresh s0 \<Longrightarrow> peak_ok s \<and> ready (sys_metrics s) = ready (sys_metrics s0)"
proof (induction rule: reachable.induct)
  case start
  then show ?case by (simp add: peak_ok_def fresh_def)
qed (simp add: peak_ok_step)

text \<open>
  The compare-and-swap loop works under interference: the stored peak never decreases, it is
  at least the active count seen by every request that has left the loop, and a swap that
  fails has been overtaken by a larger peak, so that the distance from the stored peak to the
  request's own count shrinks in every round and the loop ends.
\<close>

theorem peak_loop_correct:
  assumes "reachable client s0 s" and "fresh s0" and "ready (sys_metrics s0)"
  shows "activePeakValue (sys_metrics s) \<le> activePeakValue (sys_metrics (step_of client i reason d s)) \<and>
    (requests s i = Serving aid a \<longrightarrow> a \<le> activePeakValue (sys_metrics s)) \<and>
    (requests s i = PeakLoaded aid a p \<longrightarrow>
       (requests (step_of client i reason d s) i = PeakWon aid a \<and>
        activePeakValue (sys_metrics (step_of client i reason d s)) = a) \<or>
       (requests (step_of client i reason d s) i = PeakLoop aid a \<and>
        unat a - unat (activePeakValue (sys_metrics s)) < unat a - unat p))"
proof -
  from reachable_peak [OF assms(1,2)] assms(3)
  have ok: "peak_ok s" and rdy: "ready (sys_metrics s)" by auto
  then have i: "peak_state (activePeakValue (sys_metrics s)) True (requests s i)"
    by (metis peak_ok_def)
  have "requests (step_of client i reason d s) i = PeakWon aid a \<and>
        activePeakValue (sys_metrics (step_of client i reason d s)) = a \<or>
       requests (step_of client i reason d s) i = PeakLoop aid a \<and>
        unat a - unat (activePeakValue (sys_metrics s)) < unat a - unat p"
    if r: "requests s i = PeakLoaded aid a p"
  proof (cases "activePeakValue (sys_metrics s) = p")
    case True
    with r show ?thesis by (simp add: step_of_def)
  next
    case False
    with i r have "unat p < unat a" "unat p < unat (activePeakValue (sys_metrics s))"
      by (auto simp: word_less_nat_alt [symmetric])
    then have "unat a - unat (activePeakValue (sys_metrics s)) < unat a - unat p" by linarith
    with False r show ?thesis by (simp add: step_of_def)
  qed
  with i peak_ok_step [OF ok] show ?thesis by auto
qed

section \<open>The active gauge\<close>

fun in_gauge :: "request_state \<Rightarrow> bool" where
  "in_gauge (PeakLoop aid a) = True"
| "in_gauge (PeakLoaded aid a p) = True"
| "in_gauge (PeakWon aid a) = True"
| "in_gauge (Serving aid a) = True"
| "in_gauge _ = False"

definition gauge :: "metric_call list \<Rightarrow> int" where
  "gauge cs = int (count_list cs ActiveInc) - int (count_list cs ActiveDec)"

lemma gauge_append: "gauge (a @ b) = gauge a + gauge b"
  by (simp add: gauge_def)

lemma request_step_gauge:
  assumes "request_step c reason d t h m = (t', h', m')" and "ready m"
  shows "ready m' \<and> gauge (calls m') = gauge (calls m) + of_bool (in_gauge t') - of_bool (in_gauge t)"
  using assms
  by (cases "(c, reason, d, t, h, m)" rule: request_step.cases)
    (auto simp: acquire_locked_cases record_calls_def recordConnectUDPAdmission_def
      recordConnectUDPAdmissionReleased_def gauge_def split: if_splits)

definition gauged :: "admission_system \<Rightarrow> nat set" where
  "gauged s = {i. in_gauge (requests s i)}"

lemma gauged_update:
  "finite A \<Longrightarrow> int (card (if b then insert i A else A - {i})) =
     int (card A) + of_bool b - of_bool (i \<in> A)"
  using card_remove_int [of A i] by (auto simp: insert_absorb simp del: card_Diff_singleton)

lemma gauge_step:
  assumes "ready (sys_metrics s)" and "finite (gauged s)" and "gauge (calls (sys_metrics s)) = int (card (gauged s))"
  shows "ready (sys_metrics (step_of client i reason d s)) \<and> finite (gauged (step_of client i reason d s)) \<and>
    gauge (calls (sys_metrics (step_of client i reason d s))) = int (card (gauged (step_of client i reason d s)))"
proof -
  obtain t h m where e: "request_step (client i) reason d (requests s i) (sys_handler s) (sys_metrics s) = (t, h, m)"
    by (metis prod_cases3)
  have g: "gauged (step_of client i reason d s) = (if in_gauge t then insert i (gauged s) else gauged s - {i})"
    by (auto simp: step_of_def e gauged_def)
  have "i \<in> gauged s \<longleftrightarrow> in_gauge (requests s i)" by (simp add: gauged_def)
  with gauged_update [OF assms(2), of "in_gauge t" i] request_step_gauge [OF e assms(1)] assms(2,3)
  show ?thesis unfolding g by (simp add: step_of_def e)
qed

lemma reachable_gauge:
  "reachable client s0 s \<Longrightarrow> fresh s0 \<Longrightarrow> ready (sys_metrics s0) \<Longrightarrow>
     ready (sys_metrics s) \<and> finite (gauged s) \<and> gauge (calls (sys_metrics s)) = int (card (gauged s))"
proof (induction rule: reachable.induct)
  case start
  then show ?case by (simp add: fresh_def gauged_def gauge_def)
next
  case (step s i reason d)
  then show ?case using gauge_step [of s client i reason d] by blast
qed

text \<open>
  The active gauge is right whenever no request is between its counter update and its metric
  update: increments minus decrements then equal the active counter.
\<close>

theorem active_gauge_agrees:
  assumes "reachable client s0 s" and "fresh s0" and "ready (sys_metrics s0)"
    and "\<forall>i. (\<forall>aid a. requests s i \<noteq> Admitted aid a) \<and> (\<forall>aid. requests s i \<noteq> Closing aid)"
  shows "gauge (calls (sys_metrics s)) = connectUDPActive (sys_handler s)"
proof -
  have "in_gauge (requests s i) = holds (requests s i)" for i
    using assms(4) by (cases "requests s i") auto
  then have "gauged s = holders s" by (simp add: gauged_def holders_def)
  with reachable_gauge [OF assms(1-3)] reachable_counted [OF assms(1,2)] show ?thesis
    by (simp add: counted_def)
qed

section \<open>A concrete system\<close>

definition sample_system :: admission_system where
  "sample_system = \<lparr>sys_handler = new_handler, sys_metrics = \<lparr>ready = True, activePeakValue = 0, calls = []\<rparr>,
     requests = (\<lambda>_. Idle)\<rparr>"

definition sample_client :: "nat \<Rightarrow> string" where
  "sample_client i = ''192.0.2.1''"

text \<open>Running the named requests one step each, in order.\<close>

fun run_schedule :: "nat list \<Rightarrow> admission_system \<Rightarrow> admission_system" where
  "run_schedule [] s = s"
| "run_schedule (i # is) s = run_schedule is (step_of sample_client i [] 0 s)"

lemma sample_fresh: "fresh sample_system"
  by (simp add: fresh_def sample_system_def new_handler_def)

lemma run_schedule_reachable:
  "reachable sample_client s0 s \<Longrightarrow> reachable sample_client s0 (run_schedule is s)"
  by (induction "is" arbitrary: s) (auto intro: reachable.step)

lemma sample_reachable: "reachable sample_client sample_system (run_schedule is sample_system)"
  by (rule run_schedule_reachable) (rule reachable.start)

lemma small_counts: "\<not> (2 :: 64 word) \<le> 1" "\<not> (1 :: 64 word) \<le> 0" "\<not> (2 :: 64 word) \<le> 0"
  by (simp_all add: word_le_nat_alt)

lemmas schedule_eval = sample_system_def new_handler_def sample_client_def step_of_def acquire_locked_def
  maxActive_def maxClient_def byClient_def record_calls_def Let_def small_counts

lemma one_admitted:
  "requests (run_schedule [0] sample_system) = (\<lambda>_. Idle)(0 := Admitted 1 1)"
  by (auto simp: schedule_eval)

text \<open>
  (C40) The peak gauge can go backwards: the gauge is set after the swap, outside it, so of two
  requests that raise the stored peak to one and then to two, the first may set the gauge
  last.  In the reachable state below both requests are being served, the stored peak is two,
  and the last value written to the gauge is one.
\<close>

theorem peak_gauge_race:
  "\<exists>s. reachable sample_client sample_system s \<and>
     requests s = (\<lambda>_. Idle)(0 := Serving 1 1, 1 := Serving 2 2) \<and>
     activePeakValue (sys_metrics s) = 2 \<and> connectUDPActive (sys_handler s) = 2 \<and>
     last (calls (sys_metrics s)) = PeakSet 1 \<and> PeakSet 2 \<in> set (calls (sys_metrics s))"
proof (intro exI conjI)
  let ?s = "run_schedule [0, 0, 0, 0, 1, 1, 1, 1, 1, 0] sample_system"
  show "reachable sample_client sample_system ?s" by (rule sample_reachable)
  show "requests ?s = (\<lambda>_. Idle)(0 := Serving 1 1, 1 := Serving 2 2)"
    by (auto simp: schedule_eval)
  show "activePeakValue (sys_metrics ?s) = 2" "connectUDPActive (sys_handler ?s) = 2"
    "last (calls (sys_metrics ?s)) = PeakSet 1" "PeakSet 2 \<in> set (calls (sys_metrics ?s))"
    by (simp_all add: schedule_eval)
qed

theorem admission_limits_witness:
  "int (card (holders (run_schedule [0] sample_system))) \<le> 512 \<and>
   int (card (client_holders sample_client (run_schedule [0] sample_system) ''192.0.2.1'')) \<le> 128"
  using admission_limits [OF sample_reachable sample_fresh, of "[0]" "''192.0.2.1''"]
  by (simp add: sample_system_def new_handler_def maxActive_def maxClient_def)

theorem admission_exact_witness:
  "5 \<in> holders (step_of sample_client 5 [] 0 sample_system)"
proof -
  have "holders sample_system = {}" by (simp add: sample_system_def holders_def)
  moreover from this have "client_holders sample_client sample_system c = {}" for c
    by (simp add: client_holders_def)
  ultimately show ?thesis
    using admission_exact [OF reachable.start sample_fresh, of 5 sample_client "[]" 0] max_pos
    by (simp add: sample_system_def)
qed

lemma two_admitted: "requests (run_schedule [0, 1] sample_system) = (\<lambda>_. Idle)(0 := Admitted 1 1, 1 := Admitted 2 2)"
  by (auto simp: schedule_eval)

theorem association_ids_unique_witness: "(1 :: 64 word) \<noteq> 2"
proof -
  have "accepted (run_schedule [0, 1] sample_system) \<subseteq> {0, 1}"
    unfolding accepted_def two_admitted by auto
  then have "card (accepted (run_schedule [0, 1] sample_system)) \<le> card {0 :: nat, 1}"
    by (intro card_mono) auto
  then have "card (accepted (run_schedule [0, 1] sample_system)) < 2 ^ 64" by simp
  from association_ids_unique [OF sample_reachable sample_fresh this, of 0 1 1 2]
  show ?thesis by (simp add: two_admitted)
qed

lemma sample_ready: "ready (sys_metrics sample_system)"
  by (simp add: sample_system_def)

theorem peak_loop_correct_witness:
  "activePeakValue (sys_metrics (run_schedule [0, 0, 0] sample_system)) \<le>
     activePeakValue (sys_metrics (step_of sample_client 0 [] 0 (run_schedule [0, 0, 0] sample_system))) \<and>
   requests (run_schedule [0, 0, 0] sample_system) 0 = PeakLoaded 1 1 0"
  using peak_loop_correct [OF sample_reachable sample_fresh sample_ready, of "[0, 0, 0]" 0 "[]" 0]
  by (simp add: schedule_eval)

theorem active_gauge_agrees_witness:
  "gauge (calls (sys_metrics (run_schedule [0, 0] sample_system))) =
     connectUDPActive (sys_handler (run_schedule [0, 0] sample_system))"
  by (rule active_gauge_agrees [OF sample_reachable sample_fresh sample_ready]) (simp add: schedule_eval)

section \<open>One request alone\<close>

lemma admitted_to_serving:
  "\<exists>k. (step_of client i reason d ^^ k)
     \<lparr>sys_handler = h, sys_metrics = m, requests = f(i := Admitted aid a)\<rparr> =
     \<lparr>sys_handler = h, sys_metrics = recordConnectUDPAdmissionAccepted a m, requests = f(i := Serving aid a)\<rparr>"
proof -
  let ?f = "step_of client i reason d"
  consider "\<not> ready m" | "ready m" "a \<le> activePeakValue m" | "ready m" "\<not> a \<le> activePeakValue m" by blast
  then show ?thesis
  proof cases
    case 1
    then show ?thesis
      by (intro exI [of _ 1]) (simp add: step_of_def recordConnectUDPAdmissionAccepted_def)
  next
    case 2
    then show ?thesis
      by (intro exI [of _ 2])
        (simp add: step_of_def recordConnectUDPAdmissionAccepted_def numeral_2_eq_2 admission_simps)
  next
    case 3
    have four: "(?f ^^ 4) s = ?f (?f (?f (?f s)))" for s by (simp add: eval_nat_numeral)
    from 3 show ?thesis
      by (intro exI [of _ 4])
        (simp add: four step_of_def recordConnectUDPAdmissionAccepted_def admission_simps record_calls_def)
  qed
qed

text \<open>
  The interleaved model refines the operation: a request that runs without interference ends in
  the state \<open>acquireConnectUDP\<close> describes, with the same counters, metrics and identifier.
\<close>

theorem acquire_uninterrupted:
  assumes "requests s i = Idle"
    and "acquireConnectUDP (client i) (sys_handler s) (sys_metrics s) = (res, h, m)"
  shows "\<exists>k. (step_of client i reason d ^^ k) s =
    \<lparr>sys_handler = h, sys_metrics = m, requests = (requests s)(i :=
       case res of None \<Rightarrow> Refused | Some aid \<Rightarrow> Serving aid (of_int (connectUDPActive h)))\<rparr>"
proof (cases "fst (acquire_locked (client i) (sys_handler s)) \<in> {RejectedGlobal, RejectedSource}")
  case True
  with assms show ?thesis
    by (intro exI [of _ 1]) (auto simp: acquireConnectUDP_def step_of_def acquire_locked_cases split: if_splits)
next
  case False
  let ?h = "admit (client i) (sys_handler s)" and ?aid = "connectUDPNextID (sys_handler s) + 1"
  let ?a = "of_int (connectUDPActive (sys_handler s) + 1) :: 64 word"
  from False have acq: "acquire_locked (client i) (sys_handler s) = (Accepted ?aid ?a, ?h)"
    by (auto simp: acquire_locked_cases split: if_splits)
  with assms(2) have r: "res = Some ?aid" "h = ?h" "m = recordConnectUDPAdmissionAccepted ?a (sys_metrics s)"
    by (auto simp: acquireConnectUDP_def)
  have first: "step_of client i reason d s =
      \<lparr>sys_handler = ?h, sys_metrics = sys_metrics s, requests = (requests s)(i := Admitted ?aid ?a)\<rparr>"
    by (simp add: step_of_def assms(1) acq)
  obtain k where "(step_of client i reason d ^^ k)
      \<lparr>sys_handler = ?h, sys_metrics = sys_metrics s, requests = (requests s)(i := Admitted ?aid ?a)\<rparr> =
      \<lparr>sys_handler = ?h, sys_metrics = recordConnectUDPAdmissionAccepted ?a (sys_metrics s),
       requests = (requests s)(i := Serving ?aid ?a)\<rparr>"
    using admitted_to_serving by blast
  with first have "(step_of client i reason d ^^ Suc k) s =
      \<lparr>sys_handler = ?h, sys_metrics = m, requests = (requests s)(i := Serving ?aid ?a)\<rparr>"
    by (simp only: funpow_Suc_right comp_apply r)
  moreover have "?a = of_int (connectUDPActive h)" by (simp add: r admission_simps)
  ultimately show ?thesis unfolding r(1) option.case by (metis r(2))
qed

theorem acquire_uninterrupted_witness:
  "\<exists>k. (step_of sample_client 3 [] 0 ^^ k) sample_system =
    \<lparr>sys_handler = admit ''192.0.2.1'' new_handler,
     sys_metrics = \<lparr>ready = True, activePeakValue = 1, calls = [ActiveInc, AssociationsInc, PeakSet 1]\<rparr>,
     requests = (\<lambda>_. Idle)(3 := Serving 1 1)\<rparr>"
  using acquire_uninterrupted [of sample_system 3 sample_client "Some 1" "admit ''192.0.2.1'' new_handler"
      "\<lparr>ready = True, activePeakValue = 1, calls = [ActiveInc, AssociationsInc, PeakSet 1]\<rparr>" "[]" 0]
  by (simp add: schedule_eval acquireConnectUDP_def recordConnectUDPAdmissionAccepted_def admit_def)

lemma acquireConnectUDP_Some:
  "acquireConnectUDP c h m = (Some aid, h1, m1) \<Longrightarrow> h1 = admit c h"
  by (auto simp: acquireConnectUDP_def acquire_locked_cases split: if_splits)

lemma acquireConnectUDP_None:
  "acquireConnectUDP c h m = (None, h1, m1) \<Longrightarrow> h1 = h"
  by (auto simp: acquireConnectUDP_def acquire_locked_cases split: if_splits)

lemma release_admit:
  assumes "connectUDPByClient h c \<noteq> Some 0"
  shows "release_locked c (admit c h) = h\<lparr>connectUDPNextID := connectUDPNextID h + 1\<rparr>"
proof -
  have "connectUDPByClient (release_locked c (admit c h)) x = connectUDPByClient h x" for x
    using assms by (cases "connectUDPByClient h c")
      (auto simp: release_locked_def admit_def byClient_def Let_def)
  then have "connectUDPByClient (release_locked c (admit c h)) = connectUDPByClient h" by blast
  then show ?thesis by (simp add: release_locked_def admit_def Let_def)
qed

text \<open>
  Releasing undoes acquiring: after a successful \<open>acquireConnectUDP\<close> the release closure
  restores the active counter and the whole per-client table, and calling it again, with
  whatever reason, changes neither counters nor metrics.
\<close>

theorem release_undoes_acquire:
  assumes "acquireConnectUDP c h m = (Some aid, h1, m1)" and "connectUDPByClient h c \<noteq> Some 0"
    and "releaseConnectUDP c reason d False h1 m1 = (fired, h2, m2)"
  shows "h2 = h\<lparr>connectUDPNextID := connectUDPNextID h + 1\<rparr> \<and> fired \<and>
    releaseConnectUDP c reason' d' fired h2 m2 = (True, h2, m2) \<and>
    (ready m \<longrightarrow> gauge (calls m2) = gauge (calls m))"
proof -
  from assms(1) have h1: "h1 = admit c h" and m1: "\<exists>a. m1 = recordConnectUDPAdmissionAccepted a m"
    by (auto simp: acquireConnectUDP_def acquire_locked_cases split: if_splits)
  from assms(3) have h2: "h2 = release_locked c h1" "fired"
    "m2 = recordConnectUDPAdmissionReleased (releaseReason reason) d m1"
    by (auto simp: releaseConnectUDP_def)
  have "gauge (calls m2) = gauge (calls m)" if "ready m"
    using m1 that by (auto simp: h2(3) recordConnectUDPAdmissionAccepted_def gauge_def Let_def
        recordConnectUDPAdmissionReleased_def record_calls_def split: if_splits)
  with h2 h1 assms(2) show ?thesis by (simp add: releaseConnectUDP_def release_admit)
qed

theorem release_undoes_acquire_witness:
  "fst (snd (releaseConnectUDP ''c'' [] 0 False (admit ''c'' new_handler)
     \<lparr>ready = False, activePeakValue = 0, calls = []\<rparr>)) = new_handler\<lparr>connectUDPNextID := 1\<rparr>"
proof -
  let ?m = "\<lparr>ready = False, activePeakValue = 0, calls = []\<rparr>"
  have "acquireConnectUDP ''c'' new_handler ?m = (Some 1, admit ''c'' new_handler, ?m)"
    by (simp add: acquireConnectUDP_def acquire_locked_cases recordConnectUDPAdmissionAccepted_def
        new_handler_def maxActive_def maxClient_def byClient_def)
  from release_undoes_acquire [OF this, of "[]" 0 True "release_locked ''c'' (admit ''c'' new_handler)" ?m]
  show ?thesis by (simp add: releaseConnectUDP_def recordConnectUDPAdmissionReleased_def new_handler_def)
qed

section \<open>Clients\<close>

lemma clientAddressKey_address:
  assumes "length a = 4 \<or> length a = 16"
    and "CHR ''['' \<notin> set port" "CHR '']'' \<notin> set port" "CHR '':'' \<notin> set port"
  shows "clientAddressKey lower (JoinHostPort (IP_String a) port) = IP_String (To16 a)"
proof -
  have "ParseIP (IP_String a) = To16 a" using assms(1) by (rule ParseIP_IP_String)
  moreover have "To16 a \<noteq> []" using assms(1) by (auto simp: To16_def v4InV6Prefix_def)
  moreover have "ParseIP [] = []" by (simp add: ParseIP_def ParseAddr_def)
  ultimately have "IP_String a \<noteq> []" by metis
  with \<open>ParseIP (IP_String a) = To16 a\<close> \<open>To16 a \<noteq> []\<close> show ?thesis
    by (simp add: clientAddressKey_def SplitHostPort_candidate assms)
qed

text \<open>
  The client limit counts addresses, not connections: two remote addresses get the same key
  exactly when they name the same IP address, whatever their ports, an IPv4 address and its
  IPv4-mapped form being the same.
\<close>

theorem client_key_per_address:
  assumes "length a = 4 \<or> length a = 16" and "length b = 4 \<or> length b = 16" and "0 \<le> p" and "0 \<le> q"
  shows "clientAddressKey lower (JoinHostPort (IP_String a) (Itoa p)) =
      clientAddressKey lower (JoinHostPort (IP_String b) (Itoa q)) \<longleftrightarrow> To16 a = To16 b"
proof -
  have special: "CHR ''['' \<notin> set (Itoa n) \<and> CHR '']'' \<notin> set (Itoa n) \<and> CHR '':'' \<notin> set (Itoa n)"
    if "0 \<le> n" for n using Itoa_digits [OF that] digit_not_special by blast
  have len: "length (To16 x) = 16" "To16 (To16 x) = To16 x" if "length x = 4 \<or> length x = 16" for x
    using that by (auto simp: To16_def)
  have "IP_String (To16 a) = IP_String (To16 b) \<longleftrightarrow> To16 a = To16 b"
    using ParseIP_IP_String [of "To16 a"] ParseIP_IP_String [of "To16 b"] len [OF assms(1)] len [OF assms(2)]
    by metis
  with special [OF assms(3)] special [OF assms(4)] assms(1,2) show ?thesis
    by (simp add: clientAddressKey_address)
qed

theorem client_key_per_address_witness:
  "clientAddressKey id (JoinHostPort (IP_String [192, 0, 2, 1]) (Itoa 1)) =
   clientAddressKey id (JoinHostPort (IP_String (v4InV6Prefix @ [192, 0, 2, 1])) (Itoa 65535))"
  using client_key_per_address [of "[192, 0, 2, 1]" "v4InV6Prefix @ [192, 0, 2, 1]" 1 65535 id]
  by (simp add: To16_def)

end
