(* ===== verification/Udp_Pumps.thy ===== *)
theory Udp_Pumps
  imports Udp_Protocol
begin

text \<open>
  The two directions of a CONNECT-UDP association (\<open>pumpH3ToUDP\<close>, \<open>pumpUDPToH3\<close>), their
  event counters (\<open>countEvent\<close>), the dial loop over the approved addresses
  (\<open>dialConnectUDPTarget\<close>) and the search for the HTTP/3 capabilities of a response writer
  (\<open>native_udp_stream.go\<close>).  What the stream and the socket answer is a script with one entry
  per round of a pump; a pump whose script is used up is still running.
\<close>

section \<open>Counters and log\<close>

datatype counter = MalformedContext | Oversize | UdpReadError | UdpWriteError | H3ReadError | H3WriteError

datatype log_entry = LogEntry string "64 word" nat

record connectUDPAssociation =
  assoc_id :: "64 word"
  has_logger :: bool
  counters :: "counter \<Rightarrow> 64 word"
  entries :: "log_entry list"

definition logEvent :: "string \<Rightarrow> 64 word \<Rightarrow> nat \<Rightarrow> connectUDPAssociation \<Rightarrow> connectUDPAssociation" where
  "logEvent reason count nbytes a =
     (if \<not> has_logger a then a else a\<lparr>entries := entries a @ [LogEntry reason count nbytes]\<rparr>)"

definition countEvent :: "counter \<Rightarrow> string \<Rightarrow> nat \<Rightarrow> connectUDPAssociation \<Rightarrow> connectUDPAssociation" where
  "countEvent c reason nbytes a =
     (let count = counters a c + 1; a' = a\<lparr>counters := (counters a)(c := count)\<rparr> in
      if count AND (count - 1) = 0 then logEvent reason count nbytes a' else a')"

section \<open>The pumps\<close>

abbreviation connectUDPMaxUDPPayload :: nat where "connectUDPMaxUDPPayload \<equiv> 65535"

text \<open>What a pump did: the association, what it handed to the other side, one entry per attempt,
  and its activity signals.\<close>

record pump_state =
  assoc :: connectUDPAssociation
  passed :: "bytes list"
  signals :: nat

text \<open>A round of \<open>pumpH3ToUDP\<close>: the received datagram and the answer of \<open>udp.Write\<close>, the
  number of bytes written and the error.\<close>

type_synonym h3_round = "(goerror + bytes) \<times> nat \<times> goerror option"

fun pumpH3ToUDP ::
  "(bytes \<Rightarrow> goerror + 64 word \<times> nat) \<Rightarrow> (64 word \<Rightarrow> nat) \<Rightarrow> h3_round list \<Rightarrow> pump_state \<Rightarrow>
   goerror option \<times> pump_state" where
  "pumpH3ToUDP Parse Len [] s = (None, s)"
| "pumpH3ToUDP Parse Len ((received, n, werr) # rounds) s =
     (case received of
        Inl err \<Rightarrow> (Some err, s\<lparr>assoc := countEvent H3ReadError ''h3_read_error'' 0 (assoc s)\<rparr>)
      | Inr datagram \<Rightarrow>
          (case decodeConnectUDPDatagram Parse Len datagram of
             Inl _ \<Rightarrow> pumpH3ToUDP Parse Len rounds
               (s\<lparr>assoc := countEvent MalformedContext ''malformed_context'' (length datagram) (assoc s)\<rparr>)
           | Inr payload \<Rightarrow>
               if length payload > connectUDPMaxUDPPayload then
                 pumpH3ToUDP Parse Len rounds
                   (s\<lparr>assoc := countEvent MalformedContext ''malformed_context'' (length datagram) (assoc s)\<rparr>)
               else
                 let s' = s\<lparr>passed := passed s @ [payload]\<rparr> in
                 (case werr of
                    Some err \<Rightarrow>
                      (Some err, s'\<lparr>assoc := countEvent UdpWriteError ''udp_write_error'' (length payload) (assoc s)\<rparr>)
                  | None \<Rightarrow>
                      if n \<noteq> length payload then
                        (Some ErrShortWrite,
                         s'\<lparr>assoc := countEvent UdpWriteError ''udp_short_write'' (length payload) (assoc s)\<rparr>)
                      else pumpH3ToUDP Parse Len rounds (s'\<lparr>signals := signals s + 1\<rparr>))))"

text \<open>A round of \<open>pumpUDPToH3\<close>: the packet read, the error of \<open>SendDatagram\<close>, and the
  cause if the context is found done at the end of the round.\<close>

type_synonym udp_round = "(goerror + bytes) \<times> goerror option \<times> goerror option"

fun pumpUDPToH3 ::
  "(bytes \<Rightarrow> 64 word \<Rightarrow> bytes) \<Rightarrow> udp_round list \<Rightarrow> pump_state \<Rightarrow> goerror option \<times> pump_state" where
  "pumpUDPToH3 Append [] s = (None, s)"
| "pumpUDPToH3 Append ((packet, serr, ctx_done) # rounds) s =
     (case packet of
        Inl err \<Rightarrow> (Some err, s\<lparr>assoc := countEvent UdpReadError ''udp_read_error'' 0 (assoc s)\<rparr>)
      | Inr payload \<Rightarrow>
          let datagram = encodeConnectUDPDatagram Append payload;
              s' = s\<lparr>passed := passed s @ [datagram]\<rparr> in
          (case serr of
             Some ErrDatagramTooLarge \<Rightarrow>
               pumpUDPToH3 Append rounds (s'\<lparr>assoc := countEvent Oversize ''oversize'' (length datagram) (assoc s)\<rparr>)
           | Some err \<Rightarrow>
               (Some err, s'\<lparr>assoc := countEvent H3WriteError ''h3_write_error'' (length datagram) (assoc s)\<rparr>)
           | None \<Rightarrow>
               let s'' = s'\<lparr>signals := signals s + 1\<rparr> in
               (case ctx_done of Some cause \<Rightarrow> (Some cause, s'') | None \<Rightarrow> pumpUDPToH3 Append rounds s'')))"

section \<open>Dialing\<close>

text \<open>The outcome of one dial attempt: an error, or a connection that may be nil.\<close>

type_synonym 'c dial = "string \<Rightarrow> goerror + 'c option"

fun dialConnectUDPTarget :: "'c dial \<Rightarrow> string list \<Rightarrow> goerror + 'c" where
  "dialConnectUDPTarget dial [] = Inl ErrConnectUDPDial"
| "dialConnectUDPTarget dial (address # rest) =
     (case dial address of Inr (Some conn) \<Rightarrow> Inr conn | _ \<Rightarrow> dialConnectUDPTarget dial rest)"

text \<open>The addresses that loop tries.\<close>

fun dial_attempts :: "'c dial \<Rightarrow> string list \<Rightarrow> string list" where
  "dial_attempts dial [] = []"
| "dial_attempts dial (address # rest) =
     address # (case dial address of Inr (Some conn) \<Rightarrow> [] | _ \<Rightarrow> dial_attempts dial rest)"

section \<open>Capabilities of a response writer\<close>

text \<open>
  Writers are compared by identity.  \<open>streams\<close> and \<open>settings\<close> say which of them implement
  the two interfaces; \<open>unwrap w\<close> is \<open>None\<close> when \<open>w\<close> has no \<open>Unwrap\<close> method and
  \<open>Some None\<close> when it returns nil.
\<close>

fun capabilities_loop ::
  "('w \<Rightarrow> bool) \<Rightarrow> ('w \<Rightarrow> bool) \<Rightarrow> ('w \<Rightarrow> 'w option option) \<Rightarrow> nat \<Rightarrow> 'w option \<Rightarrow> 'w option \<Rightarrow> 'w \<Rightarrow>
   goerror + 'w \<times> 'w" where
  "capabilities_loop streams settings unwrap 0 st se w = Inl ErrHTTP3StreamUnavailable"
| "capabilities_loop streams settings unwrap (Suc n) st se w =
     (let st' = (if streams w then Some w else st); se' = (if settings w then Some w else se) in
      case (st', se') of
        (Some x, Some y) \<Rightarrow> Inr (x, y)
      | _ \<Rightarrow>
          (case unwrap w of
             Some (Some next) \<Rightarrow>
               if next = w then Inl ErrHTTP3StreamUnavailable
               else capabilities_loop streams settings unwrap n st' se' next
           | _ \<Rightarrow> Inl ErrHTTP3StreamUnavailable))"

definition http3CapabilitiesFromResponseWriter ::
  "('w \<Rightarrow> bool) \<Rightarrow> ('w \<Rightarrow> bool) \<Rightarrow> ('w \<Rightarrow> 'w option option) \<Rightarrow> 'w option \<Rightarrow> goerror + 'w \<times> 'w" where
  "http3CapabilitiesFromResponseWriter streams settings unwrap w =
     (case w of
        None \<Rightarrow> Inl ErrHTTP3StreamUnavailable
      | Some v \<Rightarrow> capabilities_loop streams settings unwrap 16 None None v)"

definition http3StreamFromResponseWriter ::
  "('w \<Rightarrow> bool) \<Rightarrow> ('w \<Rightarrow> bool) \<Rightarrow> ('w \<Rightarrow> 'w option option) \<Rightarrow> ('w \<Rightarrow> 's) \<Rightarrow> 'w option \<Rightarrow> goerror + 's" where
  "http3StreamFromResponseWriter streams settings unwrap stream_of w =
     (case http3CapabilitiesFromResponseWriter streams settings unwrap w of
        Inl err \<Rightarrow> Inl err | Inr (streamer, _) \<Rightarrow> Inr (stream_of streamer))"

section \<open>What a pump passes on\<close>

text \<open>
  The contract of a pump, on rounds of any kind: a round hands over at most one datagram and
  either ends the pump with an error or lets it go on.  A pump that keeps the contract hands
  over, in order and once each, the datagrams of the rounds up to the one that ends it.
\<close>

fun until_end :: "('r \<Rightarrow> 'e option) \<Rightarrow> 'r list \<Rightarrow> 'r list" where
  "until_end ending [] = []"
| "until_end ending (r # rs) = (if ending r = None then r # until_end ending rs else [r])"

fun first_error :: "('r \<Rightarrow> 'e option) \<Rightarrow> 'r list \<Rightarrow> 'e option" where
  "first_error ending [] = None"
| "first_error ending (r # rs) = (case ending r of None \<Rightarrow> first_error ending rs | Some e \<Rightarrow> Some e)"

definition outputs :: "('r \<Rightarrow> bytes option) \<Rightarrow> 'r list \<Rightarrow> bytes list" where
  "outputs emit rs = concat (map (\<lambda>r. case emit r of None \<Rightarrow> [] | Some b \<Rightarrow> [b]) rs)"

lemma outputs_simps [simp]:
  "outputs emit [] = []"
  "outputs emit (r # rs) = (case emit r of None \<Rightarrow> [] | Some b \<Rightarrow> [b]) @ outputs emit rs"
  by (simp_all add: outputs_def)

locale pump =
  fixes emit :: "'r \<Rightarrow> bytes option" and ending :: "'r \<Rightarrow> goerror option"
    and after :: "'r \<Rightarrow> pump_state \<Rightarrow> pump_state"
    and run :: "'r list \<Rightarrow> pump_state \<Rightarrow> goerror option \<times> pump_state"
  assumes run_Nil: "run [] s = (None, s)"
    and run_Cons: "run (r # rs) s =
      (case ending r of Some e \<Rightarrow> (Some e, after r s) | None \<Rightarrow> run rs (after r s))"
    and passed_after: "passed (after r s) = passed s @ outputs emit [r]"
begin

lemma run_passes:
  "fst (run rs s) = first_error ending rs \<and>
   passed (snd (run rs s)) = passed s @ outputs emit (until_end ending rs)"
  by (induction rs arbitrary: s) (auto simp: run_Nil run_Cons passed_after split: option.splits)

lemma run_state: "snd (run rs s) = fold after (until_end ending rs) s"
  by (induction rs arbitrary: s) (auto simp: run_Nil run_Cons split: option.splits)

lemma run_at_most_once: "length (passed (snd (run rs s))) \<le> length (passed s) + length rs"
proof -
  have "length (outputs emit (until_end ending rs)) \<le> length rs"
    by (induction rs) (auto split: option.splits)
  then show ?thesis by (simp add: run_passes)
qed

end

fun h3_emit :: "(bytes \<Rightarrow> goerror + 64 word \<times> nat) \<Rightarrow> (64 word \<Rightarrow> nat) \<Rightarrow> h3_round \<Rightarrow> bytes option" where
  "h3_emit Parse Len (received, n, werr) =
     (case received of
        Inl _ \<Rightarrow> None
      | Inr datagram \<Rightarrow>
          (case decodeConnectUDPDatagram Parse Len datagram of
             Inl _ \<Rightarrow> None
           | Inr payload \<Rightarrow> if length payload > connectUDPMaxUDPPayload then None else Some payload))"

fun h3_ending :: "(bytes \<Rightarrow> goerror + 64 word \<times> nat) \<Rightarrow> (64 word \<Rightarrow> nat) \<Rightarrow> h3_round \<Rightarrow> goerror option" where
  "h3_ending Parse Len (received, n, werr) =
     (case received of
        Inl err \<Rightarrow> Some err
      | Inr datagram \<Rightarrow>
          (case h3_emit Parse Len (received, n, werr) of
             None \<Rightarrow> None
           | Some payload \<Rightarrow>
               (case werr of
                  Some err \<Rightarrow> Some err
                | None \<Rightarrow> if n \<noteq> length payload then Some ErrShortWrite else None)))"

fun h3_after ::
  "(bytes \<Rightarrow> goerror + 64 word \<times> nat) \<Rightarrow> (64 word \<Rightarrow> nat) \<Rightarrow> h3_round \<Rightarrow> pump_state \<Rightarrow> pump_state" where
  "h3_after Parse Len (Inl err, n, werr) s =
     s\<lparr>assoc := countEvent H3ReadError ''h3_read_error'' 0 (assoc s)\<rparr>"
| "h3_after Parse Len (Inr datagram, n, werr) s =
     (case h3_emit Parse Len (Inr datagram, n, werr) of
        None \<Rightarrow> s\<lparr>assoc := countEvent MalformedContext ''malformed_context'' (length datagram) (assoc s)\<rparr>
      | Some payload \<Rightarrow>
          let s' = s\<lparr>passed := passed s @ [payload]\<rparr> in
          if werr \<noteq> None then
            s'\<lparr>assoc := countEvent UdpWriteError ''udp_write_error'' (length payload) (assoc s)\<rparr>
          else if n \<noteq> length payload then
            s'\<lparr>assoc := countEvent UdpWriteError ''udp_short_write'' (length payload) (assoc s)\<rparr>
          else s'\<lparr>signals := signals s + 1\<rparr>)"

interpretation h3: pump "h3_emit Parse Len" "h3_ending Parse Len" "h3_after Parse Len" "pumpH3ToUDP Parse Len"
  for Parse Len
proof
  fix r :: h3_round and rs s
  obtain received n werr where r: "r = (received, n, werr)" by (cases r) auto
  show "pumpH3ToUDP Parse Len (r # rs) s =
      (case h3_ending Parse Len r of Some e \<Rightarrow> (Some e, h3_after Parse Len r s)
       | None \<Rightarrow> pumpH3ToUDP Parse Len rs (h3_after Parse Len r s))"
    by (cases received; cases werr) (simp_all add: r Let_def split: sum.splits)
  show "passed (h3_after Parse Len r s) = passed s @ outputs (h3_emit Parse Len) [r]"
    by (cases received) (simp_all add: r Let_def split: option.splits sum.splits)
qed simp

fun udp_emit :: "(bytes \<Rightarrow> 64 word \<Rightarrow> bytes) \<Rightarrow> udp_round \<Rightarrow> bytes option" where
  "udp_emit Append (Inl err, serr, ctx_done) = None"
| "udp_emit Append (Inr payload, serr, ctx_done) = Some (encodeConnectUDPDatagram Append payload)"

fun udp_ending :: "udp_round \<Rightarrow> goerror option" where
  "udp_ending (Inl err, serr, ctx_done) = Some err"
| "udp_ending (Inr payload, serr, ctx_done) =
     (case serr of None \<Rightarrow> ctx_done | Some err \<Rightarrow> if err = ErrDatagramTooLarge then None else Some err)"

fun udp_after :: "(bytes \<Rightarrow> 64 word \<Rightarrow> bytes) \<Rightarrow> udp_round \<Rightarrow> pump_state \<Rightarrow> pump_state" where
  "udp_after Append (Inl err, serr, ctx_done) s =
     s\<lparr>assoc := countEvent UdpReadError ''udp_read_error'' 0 (assoc s)\<rparr>"
| "udp_after Append (Inr payload, serr, ctx_done) s =
     (let datagram = encodeConnectUDPDatagram Append payload; s' = s\<lparr>passed := passed s @ [datagram]\<rparr> in
      case serr of
        None \<Rightarrow> s'\<lparr>signals := signals s + 1\<rparr>
      | Some err \<Rightarrow>
          if err = ErrDatagramTooLarge
          then s'\<lparr>assoc := countEvent Oversize ''oversize'' (length datagram) (assoc s)\<rparr>
          else s'\<lparr>assoc := countEvent H3WriteError ''h3_write_error'' (length datagram) (assoc s)\<rparr>)"

interpretation udp_pump: pump "udp_emit Append" udp_ending "udp_after Append" "pumpUDPToH3 Append"
  for Append
proof
  fix r :: udp_round and rs s
  obtain packet serr cd where r: "r = (packet, serr, cd)" by (cases r) auto
  show "pumpUDPToH3 Append (r # rs) s =
      (case udp_ending r of Some e \<Rightarrow> (Some e, udp_after Append r s)
       | None \<Rightarrow> pumpUDPToH3 Append rs (udp_after Append r s))"
    by (cases packet) (simp_all add: r Let_def split: option.splits goerror.splits)
  show "passed (udp_after Append r s) = passed s @ outputs (udp_emit Append) [r]"
    by (cases packet) (simp_all add: r Let_def split: option.splits)
qed simp

section \<open>Properties of the pumps\<close>

lemma countEvent_counters:
  "counters (countEvent c reason n a) = (counters a)(c := counters a c + 1)"
  by (simp add: countEvent_def logEvent_def Let_def)

fun h3_rejected :: "(bytes \<Rightarrow> goerror + 64 word \<times> nat) \<Rightarrow> (64 word \<Rightarrow> nat) \<Rightarrow> h3_round \<Rightarrow> bool" where
  "h3_rejected Parse Len (Inl err, n, werr) = False"
| "h3_rejected Parse Len (Inr datagram, n, werr) = (h3_emit Parse Len (Inr datagram, n, werr) = None)"

lemma h3_after_malformed:
  "counters (assoc (h3_after Parse Len r s)) MalformedContext =
     counters (assoc s) MalformedContext + of_bool (h3_rejected Parse Len r)"
  by (cases "(Parse, Len, r, s)" rule: h3_after.cases)
    (auto simp: countEvent_counters Let_def split: option.splits)

lemma h3_fold_malformed:
  "counters (assoc (fold (h3_after Parse Len) rs s)) MalformedContext =
     counters (assoc s) MalformedContext + of_nat (length (filter (h3_rejected Parse Len) rs))"
  by (induction rs arbitrary: s) (auto simp: h3_after_malformed simp del: h3_after.simps)

text \<open>The payload of a datagram with the context identifier zero in one byte.\<close>

fun udp_payload :: "bytes \<Rightarrow> bytes option" where
  "udp_payload [] = None"
| "udp_payload (b # p) = (if b = 0 \<and> length p \<le> connectUDPMaxUDPPayload then Some p else None)"

lemma h3_emit_payload:
  assumes "quicvarint Parse Len Append"
  shows "h3_emit Parse Len (received, n, werr) =
    (case received of Inl _ \<Rightarrow> None | Inr d \<Rightarrow> udp_payload d)"
proof (cases received)
  case (Inr d)
  have "decodeConnectUDPDatagram Parse Len d =
      (if \<exists>r. d = 0 # r then Inr (tl d) else Inl ErrConnectUDPMalformed)"
    using assms by (rule decode_eq)
  with Inr show ?thesis by (cases d) (auto simp: Inr)
qed simp

text \<open>
  (C23) Client to target: up to the round that ends the pump, every received datagram with the
  context identifier zero and a payload of at most 65535 bytes is written to the socket once,
  in order and unchanged; every other datagram is dropped and counted; the pump returns the
  first error of the stream or the socket, or \<open>io.ErrShortWrite\<close>.
\<close>

theorem h3_pump_relays:
  assumes "quicvarint Parse Len Append"
  shows "passed (snd (pumpH3ToUDP Parse Len rs s)) = passed s @
      outputs (\<lambda>(received, _, _). case received of Inl _ \<Rightarrow> None | Inr d \<Rightarrow> udp_payload d)
        (until_end (h3_ending Parse Len) rs) \<and>
    fst (pumpH3ToUDP Parse Len rs s) = first_error (h3_ending Parse Len) rs \<and>
    counters (assoc (snd (pumpH3ToUDP Parse Len rs s))) MalformedContext =
      counters (assoc s) MalformedContext + of_nat (length (filter
        (\<lambda>(received, _, _). case received of Inl _ \<Rightarrow> False | Inr d \<Rightarrow> udp_payload d = None)
        (until_end (h3_ending Parse Len) rs)))"
proof -
  have "h3_emit Parse Len = (\<lambda>(received, _, _). case received of Inl _ \<Rightarrow> None | Inr d \<Rightarrow> udp_payload d)"
    by (auto simp: h3_emit_payload [OF assms] simp del: h3_emit.simps)
  moreover have "h3_rejected Parse Len =
      (\<lambda>(received, _, _). case received of Inl _ \<Rightarrow> False | Inr d \<Rightarrow> udp_payload d = None)"
  proof
    fix r :: h3_round
    show "h3_rejected Parse Len r =
        (\<lambda>(received, _, _). case received of Inl _ \<Rightarrow> False | Inr d \<Rightarrow> udp_payload d = None) r"
      by (cases "(Parse, Len, r)" rule: h3_rejected.cases)
        (auto simp: h3_emit_payload [OF assms] simp del: h3_emit.simps)
  qed
  ultimately show ?thesis
    using h3.run_passes [of Parse Len rs s] by (simp add: h3.run_state h3_fold_malformed)
qed

text \<open>
  (C24) Target to client: up to the round that ends the pump, every packet read from the socket is
  handed to the stream once, in order, as its payload behind the context identifier zero; a
  datagram the connection cannot carry is dropped without being replayed and the pump goes on.
\<close>

theorem udp_pump_relays:
  assumes "quicvarint Parse Len Append"
  shows "passed (snd (pumpUDPToH3 Append rs s)) = passed s @
      outputs (\<lambda>(packet, _, _). case packet of Inl _ \<Rightarrow> None | Inr p \<Rightarrow> Some (0 # p))
        (until_end udp_ending rs) \<and>
    fst (pumpUDPToH3 Append rs s) = first_error udp_ending rs \<and>
    udp_ending (Inr p, Some ErrDatagramTooLarge, ctx_done) = None"
proof -
  have enc: "encodeConnectUDPDatagram Append p = 0 # p" for p
    using assms by (simp add: encodeConnectUDPDatagram_def quicvarint.Append_zero)
  have "udp_emit Append = (\<lambda>(packet, _, _). case packet of Inl _ \<Rightarrow> None | Inr p \<Rightarrow> Some (0 # p))"
  proof
    fix r :: udp_round
    show "udp_emit Append r = (\<lambda>(packet, _, _). case packet of Inl _ \<Rightarrow> None | Inr p \<Rightarrow> Some (0 # p)) r"
      by (cases "(Append, r)" rule: udp_emit.cases) (auto simp: enc)
  qed
  then show ?thesis using udp_pump.run_passes [of Append rs s] by simp
qed

definition sample_pump :: pump_state where
  "sample_pump = \<lparr>assoc = \<lparr>assoc_id = 1, has_logger = True, counters = (\<lambda>_. 0), entries = []\<rparr>,
     passed = [], signals = 0\<rparr>"

theorem h3_pump_relays_witness:
  "passed (snd (pumpH3ToUDP rfc_Parse rfc_Len
     [(Inr [0, 7, 8], 2, None), (Inr [64, 0], 0, None), (Inr [0], 0, None), (Inl ContextCanceled, 0, None),
      (Inr [0, 9], 1, None)] sample_pump)) = [[7, 8], []]"
proof -
  have "h3_emit rfc_Parse rfc_Len (received, n, werr) =
    (case received of Inl _ \<Rightarrow> None | Inr d \<Rightarrow> udp_payload d)" for received n werr
    by (rule h3_emit_payload [OF rfc.quicvarint_axioms])
  then show ?thesis
    using h3_pump_relays [OF rfc.quicvarint_axioms,
      of "[(Inr [0, 7, 8], 2, None), (Inr [64, 0], 0, None), (Inr [0], 0, None), (Inl ContextCanceled, 0, None),
      (Inr [0, 9], 1, None)]" sample_pump]
    by (simp add: sample_pump_def del: h3_emit.simps)
qed

theorem udp_pump_relays_witness:
  "passed (snd (pumpUDPToH3 rfc_Append
     [(Inr [7], None, None), (Inr [8], Some ErrDatagramTooLarge, None), (Inr [9], Some ContextCanceled, None),
      (Inr [10], None, None)] sample_pump)) = [[0, 7], [0, 8], [0, 9]]"
  using udp_pump_relays [OF rfc.quicvarint_axioms, of "[(Inr [7], None, None),
      (Inr [8], Some ErrDatagramTooLarge, None), (Inr [9], Some ContextCanceled, None), (Inr [10], None, None)]" sample_pump]
  by (simp add: sample_pump_def)

section \<open>Logging at powers of two\<close>

lemma and_pred_nat: "0 < n \<Longrightarrow> n AND (n - 1) = (0 :: nat) \<longleftrightarrow> (\<exists>k. n = 2 ^ k)"
proof (induction n rule: less_induct)
  case (less n)
  show ?case
  proof (cases "even n")
    case True
    then obtain m where m: "n = 2 * m" by blast
    with less(2) have "0 < m" by simp
    then have "2 * m - 1 = 2 * (m - 1) + 1" by simp
    then have "n AND (n - 1) = 2 * (m AND (m - 1))"
      unfolding m by (simp add: and_nat_rec [of "2 * m"])
    moreover have "(\<exists>k. 2 * m = 2 ^ k) \<longleftrightarrow> (\<exists>k. m = 2 ^ k)"
    proof
      assume "\<exists>k. 2 * m = 2 ^ k"
      then obtain k where k: "2 * m = 2 ^ k" by blast
      then have "k \<noteq> 0" using \<open>0 < m\<close> by (cases k) auto
      with k show "\<exists>k. m = 2 ^ k" by (cases k) auto
    next
      assume "\<exists>k. m = 2 ^ k"
      then show "\<exists>k. 2 * m = 2 ^ k" by (metis power_Suc)
    qed
    ultimately show ?thesis using less.IH [of m] \<open>0 < m\<close> m by simp
  next
    case False
    then obtain m where m: "n = 2 * m + 1" by (blast elim: oddE)
    have "n AND (n - 1) = 2 * m" unfolding m by (subst and_nat_rec) simp
    moreover have "(\<exists>k. 2 * m + 1 = 2 ^ k) \<longleftrightarrow> m = 0"
    proof
      assume "\<exists>k. 2 * m + 1 = 2 ^ k"
      then obtain k where k: "2 * m + 1 = 2 ^ k" by blast
      then have "odd ((2 :: nat) ^ k)" by (metis even_plus_one_iff even_mult_iff even_numeral)
      then have "k = 0" by simp
      with k show "m = 0" by simp
    qed (auto intro: exI [of _ 0])
    ultimately show ?thesis using m by simp
  qed
qed

lemma and_pred_word:
  assumes "0 < n" and "n < 2 ^ 64"
  shows "(of_nat n :: 64 word) AND (of_nat n - 1) = 0 \<longleftrightarrow> (\<exists>k. n = 2 ^ k)"
proof -
  let ?w = "of_nat n :: 64 word"
  have u: "unat ?w = n" using assms(2) by (simp add: unat_of_nat take_bit_nat_eq_self)
  then have "?w \<noteq> 0" using assms(1) by auto
  then have "unat (?w - 1) = n - 1" using u by (simp add: unat_minus_one)
  then have "unat (?w AND (?w - 1)) = n AND (n - 1)" using u by (simp add: unsigned_and_eq)
  then have "?w AND (?w - 1) = 0 \<longleftrightarrow> n AND (n - 1) = 0" by (metis unat_0 unat_eq_zero)
  with and_pred_nat [OF assms(1)] show ?thesis by simp
qed

definition powers_upto :: "nat \<Rightarrow> nat list" where
  "powers_upto n = filter (\<lambda>i. i AND (i - 1) = 0) [1..<Suc n]"

lemma powers_upto_Suc:
  "powers_upto (Suc n) = powers_upto n @ (if \<exists>k. Suc n = 2 ^ k then [Suc n] else [])"
  using and_pred_nat [of "Suc n"] by (simp add: powers_upto_def)

lemma set_powers_upto: "set (powers_upto n) = {i. i \<le> n \<and> (\<exists>k. i = 2 ^ k)}"
proof -
  have "1 \<le> (2 :: nat) ^ k" for k by simp
  moreover have "i AND (i - 1) = 0 \<longleftrightarrow> (\<exists>k. i = 2 ^ k)" if "1 \<le> i" for i :: nat
    using and_pred_nat [of i] that by simp
  ultimately show ?thesis unfolding powers_upto_def set_filter set_upt
    by (metis (no_types, lifting) atLeastLessThan_iff less_Suc_eq_le)
qed

lemma countEvent_once:
  "has_logger a \<Longrightarrow> countEvent c reason b (a\<lparr>counters := f, entries := es\<rparr>) =
     a\<lparr>counters := f(c := f c + 1),
       entries := es @ (if (f c + 1) AND (f c + 1 - 1) = 0 then [LogEntry reason (f c + 1) b] else [])\<rparr>"
  by (simp add: countEvent_def logEvent_def Let_def)

lemma countEvents:
  assumes "has_logger a" and "counters a c = 0" and "n < 2 ^ 64"
  shows "(countEvent c reason b ^^ n) a =
    a\<lparr>counters := (counters a)(c := of_nat n),
      entries := entries a @ map (\<lambda>i. LogEntry reason (of_nat i) b) (powers_upto n)\<rparr>"
  using assms(3)
proof (induction n)
  case 0
  have "(counters a)(c := 0) = counters a" using assms(2) by auto
  then show ?case by (simp add: powers_upto_def)
next
  case (Suc n)
  let ?k = "of_nat (Suc n) :: 64 word"
  have k: "of_nat n + 1 = ?k" "of_nat n = ?k - 1" by simp_all
  have "(?k AND (?k - 1) = 0) = (\<exists>k. Suc n = 2 ^ k)"
    using Suc.prems by (intro and_pred_word) auto
  moreover have "(countEvent c reason b ^^ n) a = a\<lparr>counters := (counters a)(c := of_nat n),
      entries := entries a @ map (\<lambda>i. LogEntry reason (of_nat i) b) (powers_upto n)\<rparr>"
    using Suc.prems by (intro Suc.IH) linarith
  ultimately show ?case
    by (simp only: funpow.simps comp_apply countEvent_once [OF assms(1)] fun_upd_same fun_upd_upd
        k(1) powers_upto_Suc map_append append_assoc) (simp only: k(2), simp add: fun_upd_def)
qed

text \<open>
  An event of an association is logged exactly at its first, second, fourth, eighth and so on
  occurrence: counting \<open>n\<close> events from zero adds one entry for every power of two up to
  \<open>n\<close> and thus at most 64 entries, however many datagrams a peer sends.
\<close>

theorem events_logged_at_powers_of_two:
  assumes "has_logger a" and "counters a c = 0" and "n < 2 ^ 64"
  shows "\<exists>is. entries ((countEvent c reason b ^^ n) a) =
      entries a @ map (\<lambda>i. LogEntry reason (of_nat i) b) is \<and>
    set is = {i. i \<le> n \<and> (\<exists>k. i = 2 ^ k)} \<and> sorted is \<and> distinct is \<and> length is \<le> 64 \<and>
    counters ((countEvent c reason b ^^ n) a) c = of_nat n"
proof (intro exI conjI)
  let ?is = "powers_upto n"
  show "entries ((countEvent c reason b ^^ n) a) = entries a @ map (\<lambda>i. LogEntry reason (of_nat i) b) ?is"
    "counters ((countEvent c reason b ^^ n) a) c = of_nat n"
    using countEvents [OF assms] by simp_all
  show "set ?is = {i. i \<le> n \<and> (\<exists>k. i = 2 ^ k)}" by (rule set_powers_upto)
  show d: "sorted ?is" "distinct ?is" by (simp_all add: powers_upto_def sorted_wrt_filter del: upt_Suc)
  have "set ?is \<subseteq> (\<lambda>k. 2 ^ k) ` {..<64}"
  proof
    fix i assume "i \<in> set ?is"
    then obtain k where k: "i = 2 ^ k" "i \<le> n" by (auto simp: set_powers_upto)
    with assms(3) have "(2 :: nat) ^ k < 2 ^ 64" by linarith
    then have "k < 64" by (rule power_less_imp_less_exp [rotated]) simp
    with k show "i \<in> (\<lambda>k. 2 ^ k) ` {..<64}" by auto
  qed
  then have "card (set ?is) \<le> card {..<64 :: nat}"
    by (meson card_image_le card_mono finite_imageI finite_lessThan le_trans)
  then show "length ?is \<le> 64" using distinct_card [OF d(2)] by simp
qed

theorem events_logged_at_powers_of_two_witness:
  "\<exists>is. entries ((countEvent Oversize ''oversize'' 9 ^^ 5) (assoc sample_pump)) =
     map (\<lambda>i. LogEntry ''oversize'' (of_nat i) 9) is \<and> set is = {i. i \<le> 5 \<and> (\<exists>k. i = 2 ^ k)}"
  using events_logged_at_powers_of_two [of "assoc sample_pump" Oversize 5 "''oversize''" 9]
  by (auto simp: sample_pump_def)

section \<open>Dialing the approved addresses\<close>

definition connects :: "'c dial \<Rightarrow> string \<Rightarrow> bool" where
  "connects dial a = (case dial a of Inr (Some c) \<Rightarrow> True | _ \<Rightarrow> False)"

text \<open>
  The dial loop tries the approved addresses in order and stops at the first connection: the
  attempts are the addresses before the first that connects and that one, its connection is
  the result, and the loop fails exactly when none connects.
\<close>

theorem udp_dial_first_success:
  "dial_attempts dial addrs = takeWhile (\<lambda>a. \<not> connects dial a) addrs @
     take 1 (dropWhile (\<lambda>a. \<not> connects dial a) addrs) \<and>
   dialConnectUDPTarget dial addrs =
     (case find (connects dial) addrs of
        None \<Rightarrow> Inl ErrConnectUDPDial | Some a \<Rightarrow> map_sum (\<lambda>e. e) the (dial a))"
  by (induction addrs) (auto simp: connects_def split: sum.splits option.splits)

section \<open>Finding the capabilities\<close>

text \<open>The writers the loop may visit: at most \<open>n\<close>, following \<open>Unwrap\<close> until it is missing,
  nil or returns the writer itself.\<close>

fun unwrap_chain :: "('w \<Rightarrow> 'w option option) \<Rightarrow> nat \<Rightarrow> 'w \<Rightarrow> 'w list" where
  "unwrap_chain unwrap 0 w = []"
| "unwrap_chain unwrap (Suc n) w =
     w # (case unwrap w of
            Some (Some next) \<Rightarrow> if next = w then [] else unwrap_chain unwrap n next
          | _ \<Rightarrow> [])"

lemma capabilities_loop_sound:
  "capabilities_loop streams settings unwrap n st se w = Inr (x, y) \<Longrightarrow>
     (x \<in> set (unwrap_chain unwrap n w) \<and> streams x \<or> st = Some x) \<and>
     (y \<in> set (unwrap_chain unwrap n w) \<and> settings y \<or> se = Some y)"
proof (induction n arbitrary: st se w)
  case (Suc n)
  let ?st = "if streams w then Some w else st" and ?se = "if settings w then Some w else se"
  show ?case
  proof (cases "?st \<noteq> None \<and> ?se \<noteq> None")
    case True
    with Suc.prems show ?thesis by (auto simp: Let_def split: if_splits)
  next
    case False
    with Suc.prems obtain v where v: "unwrap w = Some (Some v)" "v \<noteq> w"
      "capabilities_loop streams settings unwrap n ?st ?se v = Inr (x, y)"
      by (auto simp: Let_def split: option.splits if_splits)
    from Suc.IH [OF v(3)] v(1,2) show ?thesis by (auto split: if_splits)
  qed
qed simp

lemma capabilities_loop_complete:
  "st = None \<or> se = None \<Longrightarrow>
   (\<exists>r. capabilities_loop streams settings unwrap n st se w = Inr r) \<longleftrightarrow>
     (st \<noteq> None \<or> (\<exists>x \<in> set (unwrap_chain unwrap n w). streams x)) \<and>
     (se \<noteq> None \<or> (\<exists>y \<in> set (unwrap_chain unwrap n w). settings y))"
proof (induction n arbitrary: st se w)
  case (Suc n)
  let ?st = "if streams w then Some w else st" and ?se = "if settings w then Some w else se"
  show ?case
  proof (cases "?st \<noteq> None \<and> ?se \<noteq> None")
    case True
    then show ?thesis by (auto simp: Let_def split: if_splits)
  next
    case False
    then have open_search: "?st = None \<or> ?se = None" by blast
    show ?thesis
    proof (cases "\<exists>v. unwrap w = Some (Some v) \<and> v \<noteq> w")
      case True
      then obtain v where v: "unwrap w = Some (Some v)" "v \<noteq> w" by blast
      with open_search have "capabilities_loop streams settings unwrap (Suc n) st se w =
          capabilities_loop streams settings unwrap n ?st ?se v"
        by (auto simp: Let_def split: option.splits if_splits)
      with Suc.IH [OF open_search, of v] v show ?thesis by (auto split: if_splits)
    next
      case False
      then have "unwrap_chain unwrap (Suc n) w = [w]"
        "capabilities_loop streams settings unwrap (Suc n) st se w = Inl ErrHTTP3StreamUnavailable"
        using open_search by (auto simp: Let_def split: option.splits if_splits)
      with open_search show ?thesis by (auto split: if_splits)
    qed
  qed
qed auto

text \<open>
  The capability search returns a streamer and a settings source exactly when each of the two
  occurs among the first sixteen writers of the unwrap chain, and what it returns are such
  writers; it ends on cyclic chains as well.
\<close>

theorem capabilities_search:
  "((\<exists>r. http3CapabilitiesFromResponseWriter streams settings unwrap (Some w) = Inr r) \<longleftrightarrow>
      (\<exists>x \<in> set (unwrap_chain unwrap 16 w). streams x) \<and> (\<exists>y \<in> set (unwrap_chain unwrap 16 w). settings y)) \<and>
   (http3CapabilitiesFromResponseWriter streams settings unwrap (Some w) = Inr (x, y) \<longrightarrow>
      streams x \<and> settings y \<and> x \<in> set (unwrap_chain unwrap 16 w) \<and> y \<in> set (unwrap_chain unwrap 16 w))"
  using capabilities_loop_complete [of None None streams settings unwrap 16 w]
    capabilities_loop_sound [of streams settings unwrap 16 None None w x y]
  by (auto simp: http3CapabilitiesFromResponseWriter_def)

text \<open>Two writers that unwrap to each other, of which one streams and the other has the settings.\<close>

theorem capabilities_search_witness:
  "\<exists>r. http3CapabilitiesFromResponseWriter (\<lambda>w. w) (\<lambda>w. \<not> w) (\<lambda>w. Some (Some (\<not> w))) (Some True) = Inr r"
proof -
  have "unwrap_chain (\<lambda>w. Some (Some (\<not> w))) 16 True =
      True # False # unwrap_chain (\<lambda>w. Some (Some (\<not> w))) 14 True"
    by (simp add: eval_nat_numeral)
  then show ?thesis
    using capabilities_search [of "\<lambda>w. w" "\<lambda>w. \<not> w" "\<lambda>w. Some (Some (\<not> w))" True] by simp
qed

end
