(* ===== verification/Udp_Association.thy ===== *)
theory Udp_Association
  imports Udp_Admission Udp_Pumps Event_System
begin

text \<open>
  The life of one CONNECT-UDP association (\<open>native_udp_association.go\<close>): the supervising loop
  \<open>run\<close> with its two pump goroutines as a transition system, and the handler
  \<open>serveConnectUDP\<close> around it.  Times are in nanoseconds.
\<close>

section \<open>The supervising loop\<close>

datatype run_pc = Selecting | CleaningUp | Draining | RunReturned

text \<open>
  \<open>results\<close> is the buffered channel of capacity two, \<open>activity\<close> the one of capacity one,
  \<open>pumps\<close> the number of pump goroutines still running; \<open>parentDone\<close> and \<open>streamDone\<close>
  hold the cause once the respective context is done.
\<close>

record run_state =
  now :: int
  deadline :: int
  results :: "goerror option list"
  activity :: bool
  completed :: nat
  run_result :: "goerror option"
  pc :: run_pc
  pumps :: nat
  cancelled :: bool
  readCancelled :: bool
  writeCancelled :: bool
  udpClosed :: bool
  streamClosed :: bool
  parentDone :: "goerror option"
  streamDone :: "goerror option"

definition run_start :: "int \<Rightarrow> int \<Rightarrow> run_state" where
  "run_start idleTimeout t =
     \<lparr>now = t, deadline = t + idleTimeout, results = [], activity = False, completed = 0,
      run_result = None, pc = Selecting, pumps = 2, cancelled = False, readCancelled = False,
      writeCancelled = False, udpClosed = False, streamClosed = False, parentDone = None,
      streamDone = None\<rparr>"

text \<open>
  The events: what the environment and the pumps do (time passes, a context ends, a pump
  signals activity, a pump returns), the five cases of the \<open>select\<close>, and the steps after the
  loop.
\<close>

datatype run_event =
    Time int
  | ParentDone goerror
  | StreamDone goerror
  | Notify
  | PumpReturn "goerror option"
  | SelResult
  | SelActivity
  | SelTimer
  | SelParent
  | SelStream
  | Cleanup
  | Drain
  | Finish

fun run_step :: "int \<Rightarrow> run_event \<Rightarrow> run_state \<Rightarrow> run_state option" where
  "run_step idleTimeout (Time t) s = guarded (now s \<le> t) (s\<lparr>now := t\<rparr>)"
| "run_step idleTimeout (ParentDone e) s = guarded (parentDone s = None) (s\<lparr>parentDone := Some e\<rparr>)"
| "run_step idleTimeout (StreamDone e) s = guarded (streamDone s = None) (s\<lparr>streamDone := Some e\<rparr>)"
| "run_step idleTimeout Notify s = guarded (0 < pumps s) (s\<lparr>activity := True\<rparr>)"
| "run_step idleTimeout (PumpReturn e) s =
     guarded (0 < pumps s \<and> length (results s) < 2) (s\<lparr>pumps := pumps s - 1, results := results s @ [e]\<rparr>)"
| "run_step idleTimeout SelResult s =
     (case results s of
        [] \<Rightarrow> None
      | e # rest \<Rightarrow>
          guarded (pc s = Selecting)
            (s\<lparr>results := rest, completed := completed s + 1, pc := CleaningUp,
               run_result := Some (case e of None \<Rightarrow> ErrConnectUDPClosed | Some err \<Rightarrow> err)\<rparr>))"
| "run_step idleTimeout SelActivity s =
     guarded (pc s = Selecting \<and> activity s) (s\<lparr>activity := False, deadline := now s + idleTimeout\<rparr>)"
| "run_step idleTimeout SelTimer s =
     guarded (pc s = Selecting \<and> deadline s \<le> now s)
       (s\<lparr>run_result := Some ContextDeadlineExceeded, pc := CleaningUp\<rparr>)"
| "run_step idleTimeout SelParent s =
     (case parentDone s of
        None \<Rightarrow> None
      | Some e \<Rightarrow> guarded (pc s = Selecting) (s\<lparr>run_result := Some e, pc := CleaningUp\<rparr>))"
| "run_step idleTimeout SelStream s =
     (case streamDone s of
        None \<Rightarrow> None
      | Some e \<Rightarrow> guarded (pc s = Selecting) (s\<lparr>run_result := Some e, pc := CleaningUp\<rparr>))"
| "run_step idleTimeout Cleanup s =
     guarded (pc s = CleaningUp)
       (s\<lparr>cancelled := True, readCancelled := True, writeCancelled := True, udpClosed := True, pc := Draining\<rparr>)"
| "run_step idleTimeout Drain s =
     (case results s of
        [] \<Rightarrow> None
      | e # rest \<Rightarrow>
          guarded (pc s = Draining \<and> completed s < 2) (s\<lparr>results := rest, completed := completed s + 1\<rparr>))"
| "run_step idleTimeout Finish s =
     guarded (pc s = Draining \<and> \<not> completed s < 2) (s\<lparr>streamClosed := True, pc := RunReturned\<rparr>)"

abbreviation run_events :: "int \<Rightarrow> run_event list \<Rightarrow> run_state \<Rightarrow> run_state option" where
  "run_events idleTimeout \<equiv> run_trace (run_step idleTimeout)"

definition connectUDPAssociationCloseReason :: "goerror \<Rightarrow> string" where
  "connectUDPAssociationCloseReason err =
     (if Is_DeadlineExceeded err then ''idle_expired''
      else if Is_Canceled err then ''canceled''
      else ''closed'')"

section \<open>Invariant of the loop\<close>

definition run_inv :: "run_state \<Rightarrow> bool" where
  "run_inv s \<longleftrightarrow>
     pumps s + length (results s) + completed s = 2 \<and>
     (pc s = Selecting \<longleftrightarrow> run_result s = None) \<and>
     (pc s \<in> {Draining, RunReturned} \<longleftrightarrow> udpClosed s) \<and>
     cancelled s = udpClosed s \<and> readCancelled s = udpClosed s \<and> writeCancelled s = udpClosed s \<and>
     (pc s = RunReturned \<longleftrightarrow> streamClosed s) \<and>
     (pc s = RunReturned \<longrightarrow> completed s = 2)"

lemma run_inv_step: "run_step idle ev s = Some s' \<Longrightarrow> run_inv s \<Longrightarrow> run_inv s'"
  by (cases ev) (auto simp: run_inv_def split: list.splits option.splits)

interpretation assoc_run: preserved "run_step idle" run_inv for idle
  by unfold_locales (rule run_inv_step)

lemma run_inv_start [simp]: "run_inv (run_start idle t)"
  by (simp add: run_inv_def run_start_def)

text \<open>
  (C10) Nothing of an association outlives its loop: a pump that finishes always finds room in the
  results channel, so it never blocks there; and when \<open>run\<close> has returned, both pumps have
  returned and been collected, the socket and the stream are closed, the context and both
  stream directions are cancelled, and there is a result.
\<close>

theorem run_leaves_nothing:
  assumes "run_events idle evs (run_start idle t) = Some s"
  shows "(0 < pumps s \<longrightarrow> length (results s) < 2) \<and>
    (pc s = RunReturned \<longrightarrow> pumps s = 0 \<and> results s = [] \<and> completed s = 2 \<and> udpClosed s \<and>
       streamClosed s \<and> cancelled s \<and> readCancelled s \<and> writeCancelled s \<and> run_result s \<noteq> None)"
  using assoc_run.trace_invar [OF assms run_inv_start] by (auto simp: run_inv_def)

text \<open>After the loop only the pumps are waited for: each event below brings the return closer.\<close>

fun steps_left :: "run_state \<Rightarrow> nat" where
  "steps_left s =
     (case pc s of
        Selecting \<Rightarrow> 0
      | CleaningUp \<Rightarrow> 2 + 2 * pumps s + length (results s)
      | Draining \<Rightarrow> 1 + 2 * pumps s + length (results s)
      | RunReturned \<Rightarrow> 0)"

definition closing_event :: "run_event \<Rightarrow> bool" where
  "closing_event ev \<longleftrightarrow> ev = Cleanup \<or> ev = Drain \<or> ev = Finish \<or> (\<exists>e. ev = PumpReturn e)"

lemma closing_progress:
  assumes "run_inv s" and "pc s \<in> {CleaningUp, Draining}"
  obtains ev s' where "closing_event ev" "run_step idle ev s = Some s'" "steps_left s' < steps_left s"
    "run_result s' = run_result s"
proof -
  have "\<exists>ev s'. closing_event ev \<and> run_step idle ev s = Some s' \<and> steps_left s' < steps_left s \<and>
      run_result s' = run_result s"
  proof (cases "pc s = CleaningUp")
    case True
    then show ?thesis
      by (intro exI [of _ Cleanup] exI [of _ "the (run_step idle Cleanup s)"])
        (simp add: closing_event_def guarded_def)
  next
    case False
    with assms(2) have d: "pc s = Draining" by simp
    consider e rest where "results s = e # rest" | "results s = []" "pumps s = 0" | "results s = []" "0 < pumps s"
      by (cases "results s") auto
    then show ?thesis
    proof cases
      case 1
      with assms(1) have "completed s < 2" by (auto simp: run_inv_def)
      with d 1 show ?thesis
        by (intro exI [of _ Drain] exI [of _ "the (run_step idle Drain s)"])
          (simp add: closing_event_def guarded_def)
    next
      case 2
      with assms(1) have "\<not> completed s < 2" by (simp add: run_inv_def)
      with d show ?thesis
        by (intro exI [of _ Finish] exI [of _ "the (run_step idle Finish s)"])
          (simp add: closing_event_def guarded_def)
    next
      case 3
      with d show ?thesis
        by (intro exI [of _ "PumpReturn None"] exI [of _ "the (run_step idle (PumpReturn None) s)"])
          (auto simp: closing_event_def guarded_def)
    qed
  qed
  then show ?thesis using that by blast
qed

interpretation assoc_end: progress "run_step idle" run_inv "\<lambda>s. pc s = RunReturned" closing_event steps_left
    "\<lambda>s. run_result s = Some e" for idle e
proof
  fix s assume s: "run_inv s" "run_result s = Some e" "pc s \<noteq> RunReturned"
  then have "pc s \<in> {CleaningUp, Draining}" by (cases "pc s") (auto simp: run_inv_def)
  with s show "\<exists>ev s'. closing_event ev \<and> run_step idle ev s = Some s' \<and> run_result s' = Some e \<and>
      steps_left s' < steps_left s"
    by (metis closing_progress)
qed


lemma run_step_deadline:
  "run_step idle ev s = Some s' \<Longrightarrow> 0 \<le> idle \<Longrightarrow> t + idle \<le> deadline s \<Longrightarrow> t \<le> now s \<Longrightarrow>
     t + idle \<le> deadline s' \<and> t \<le> now s'"
  by (cases ev) (auto split: list.splits option.splits)

interpretation assoc_deadline: preserved "run_step idle" "\<lambda>s. 0 \<le> idle \<longrightarrow> t + idle \<le> deadline s \<and> t \<le> now s" for idle t
  using run_step_deadline by unfold_locales blast

text \<open>
  (C25) The idle limit is never cut short: if the timer ends the loop, at least the idle timeout has
  passed since the loop began and since every activity signal the loop took up before.
\<close>

theorem idle_expiry_after_activity:
  assumes "0 \<le> idle"
    and "run_events idle before (run_start idle t0) = Some s1"
    and "run_step idle SelActivity s1 = Some s2"
    and "run_events idle later s2 = Some s3"
    and "run_step idle SelTimer s3 = Some s4"
  shows "now s1 + idle \<le> now s4 \<and> t0 + idle \<le> now s4 \<and> run_result s4 = Some ContextDeadlineExceeded"
proof -
  from assms(3) have s2: "deadline s2 = now s1 + idle" "now s2 = now s1" by auto
  from assoc_deadline.trace_invar [OF assms(4), of "now s1"] s2 assms(1)
  have "now s1 + idle \<le> deadline s3" by simp
  moreover have "t0 \<le> now s1"
    using assoc_deadline.trace_invar [OF assms(2), of t0] assms(1) by (simp add: run_start_def)
  moreover from assms(5) have "deadline s3 \<le> now s3" "now s4 = now s3"
    "run_result s4 = Some ContextDeadlineExceeded" by auto
  ultimately show ?thesis by simp
qed

section \<open>Concrete runs\<close>

theorem run_leaves_nothing_witness:
  "\<exists>s. run_events 10 [Time 5, Notify, SelActivity, PumpReturn None, SelResult, Cleanup, PumpReturn None, Drain, Finish]
     (run_start 10 0) = Some s \<and> pc s = RunReturned \<and> pumps s = 0"
proof -
  obtain s where s: "run_events 10 [Time 5, Notify, SelActivity, PumpReturn None, SelResult, Cleanup,
      PumpReturn None, Drain, Finish] (run_start 10 0) = Some s" "pc s = RunReturned"
    by (simp add: run_start_def guarded_def)
  from run_leaves_nothing [OF s(1)] s show ?thesis by blast
qed


theorem idle_expiry_after_activity_witness:
  "\<exists>s1 s2 s3 s4. run_events 10 [Time 5, Notify] (run_start 10 0) = Some s1 \<and>
     run_step 10 SelActivity s1 = Some s2 \<and> run_events 10 [Time 15] s2 = Some s3 \<and>
     run_step 10 SelTimer s3 = Some s4 \<and> now s1 + 10 \<le> now s4"
proof -
  obtain s1 s2 s3 s4 where s: "run_events 10 [Time 5, Notify] (run_start 10 0) = Some s1"
    "run_step 10 SelActivity s1 = Some s2" "run_events 10 [Time 15] s2 = Some s3"
    "run_step 10 SelTimer s3 = Some s4"
    by (simp add: run_start_def guarded_def)
  from idle_expiry_after_activity [OF _ s] s show ?thesis by auto
qed

section \<open>The request handler\<close>

text \<open>
  What \<open>serveConnectUDP\<close> calls: the Unicode and IDNA operations, the resolver, the writer chain,
  the wait for the client's settings (\<open>Some\<close> error when the request ends first), those
  settings (\<open>None\<close> is nil), the dialer, whether the writer yields a stream, and the result
  and duration of the association.
\<close>

record udp_env =
  env_lower :: "string \<Rightarrow> string"
  env_eqfold :: "string \<Rightarrow> string \<Rightarrow> bool"
  env_toASCII :: "string \<Rightarrow> goerror + string"
  env_lookup :: "string \<Rightarrow> goerror + ip list"
  env_streams :: "nat \<Rightarrow> bool"
  env_settingser :: "nat \<Rightarrow> bool"
  env_unwrap :: "nat \<Rightarrow> nat option option"
  env_writer :: "nat option"
  env_settings_wait :: "goerror option"
  env_settings :: "bool option"
  env_dial :: "nat dial"
  env_has_stream :: bool
  env_outcome :: goerror
  env_lifetime :: int

datatype serve_effect = DialUDP string | WriteHeader int | RunAssociation "64 word" int | CloseUDP

abbreviation connectUDPAssociationIdleTime :: int where "connectUDPAssociationIdleTime \<equiv> 120 * second"

text \<open>The part between admission and release: the error, the close reason and the effects.\<close>

definition serveAdmitted ::
  "udp_env \<Rightarrow> handler \<Rightarrow> 64 word \<Rightarrow> string \<Rightarrow> goerror option \<times> string \<times> serve_effect list" where
  "serveAdmitted env h associationID hp =
     (case resolveTargetCheckACL h (env_lookup env) hp of
        Inl failure \<Rightarrow>
          (Some (HandlerError (statusCode (fst failure)) (TargetPolicyFailure (fst failure) (snd failure))),
           ''setup_failed'', [])
      | Inr resolved \<Rightarrow>
          (case http3CapabilitiesFromResponseWriter (env_streams env) (env_settingser env) (env_unwrap env)
                  (env_writer env) of
             Inl _ \<Rightarrow> (Some (HandlerError StatusNotImplemented ErrConnectUDPUnsupported), ''setup_failed'', [])
           | Inr _ \<Rightarrow>
               (case env_settings_wait env of
                  Some err \<Rightarrow> (Some err, ''setup_failed'', [])
                | None \<Rightarrow>
                    if env_settings env \<noteq> Some True then
                      (Some (HandlerError StatusNotImplemented ErrConnectUDPUnsupported), ''setup_failed'', [])
                    else
                      let tries = map DialUDP (dial_attempts (env_dial env) (addresses resolved)) in
                      (case dialConnectUDPTarget (env_dial env) (addresses resolved) of
                         Inl _ \<Rightarrow> (Some (HandlerError StatusBadGateway ErrConnectUDPDial), ''setup_failed'', tries)
                       | Inr conn \<Rightarrow>
                           if \<not> env_has_stream env then
                             (None, ''setup_failed'', tries @ [WriteHeader StatusOK, CloseUDP])
                           else
                             let idle = (if connectUDPIdleTimeout h \<le> 0 then connectUDPAssociationIdleTime
                                         else connectUDPIdleTimeout h) in
                             (None, connectUDPAssociationCloseReason (env_outcome env),
                              tries @ [WriteHeader StatusOK, RunAssociation associationID idle, CloseUDP])))))"

definition serveConnectUDP ::
  "udp_env \<Rightarrow> handler \<Rightarrow> udpMetrics \<Rightarrow> request \<Rightarrow>
   goerror option \<times> handler \<times> udpMetrics \<times> request \<times> serve_effect list" where
  "serveConnectUDP env h m r =
     (let r' = redactConnectUDPRequest r; client = clientAddressKey (env_lower env) (RemoteAddr r) in
      case parseConnectUDPTarget (env_lower env) (env_eqfold env) (env_toASCII env) r of
        Inl _ \<Rightarrow> (Some (HandlerError StatusBadRequest ErrConnectUDPMalformed), h, m, r', [])
      | Inr target \<Rightarrow>
          if upstream h \<noteq> None then
            (Some (HandlerError StatusNotImplemented ErrConnectUDPUnsupported), h, m, r', [])
          else
            (case acquireConnectUDP client h m of
               (None, h1, m1) \<Rightarrow>
                 (Some (HandlerError StatusServiceUnavailable ErrConnectUDPResourceLimit), h1, m1, r', [])
             | (Some associationID, h1, m1) \<Rightarrow>
                 (case serveAdmitted env h1 associationID (hostPort target) of
                    (err, closeReason, effects) \<Rightarrow>
                      (case releaseConnectUDP client [closeReason] (env_lifetime env) False h1 m1 of
                         (_, h2, m2) \<Rightarrow> (err, h2, m2, r', effects)))))"

text \<open>
  (C22) A CONNECT-UDP request gives its slot back on every path: whatever the target, the policy, the
  client's settings, the dial and the association do, the handler afterwards differs from the
  one before at most in the identifier counter.
\<close>

theorem serve_releases_slot:
  assumes "serveConnectUDP env h m r = (err, h', m', r', effects)"
    and "\<forall>c. connectUDPByClient h c \<noteq> Some 0"
  shows "h' = h \<or> h' = h\<lparr>connectUDPNextID := connectUDPNextID h + 1\<rparr>"
  using assms
  by (auto simp: serveConnectUDP_def Let_def releaseConnectUDP_def release_admit
      dest: acquireConnectUDP_Some acquireConnectUDP_None split: sum.splits if_splits prod.splits option.splits)

lemma admit_policy [admission_simps]: "AllowedPorts (admit c h) = AllowedPorts h" "aclRules (admit c h) = aclRules h"
  by (simp_all add: admit_def)

lemma resolve_admit [admission_simps]:
  "resolveTargetCheckACL (admit c h) lookup hp = resolveTargetCheckACL h lookup hp"
  unfolding resolveTargetCheckACL_def prepareTargetPolicy_def admit_policy ..

lemma dial_attempts_subset: "set (dial_attempts dial addrs) \<subseteq> set addrs"
  by (induction addrs) (auto split: sum.splits option.splits)

lemma serveAdmitted_dials:
  assumes "serveAdmitted env h aid hp = (err, reason, effects)" and "DialUDP address \<in> set effects"
  obtains t where "resolveTargetCheckACL h (env_lookup env) hp = Inr t" "address \<in> set (addresses t)"
proof -
  from assms obtain t where "resolveTargetCheckACL h (env_lookup env) hp = Inr t"
    "address \<in> set (dial_attempts (env_dial env) (addresses t))"
    by (auto simp: serveAdmitted_def Let_def split: sum.splits option.splits if_splits)
  then show ?thesis using that dial_attempts_subset by blast
qed

lemma serveConnectUDP_cases:
  assumes "serveConnectUDP env h m r = (err, h', m', r', effects)"
  obtains (refused) "err \<noteq> None" "effects = []"
  | (admitted) target c aid reason where
    "parseConnectUDPTarget (env_lower env) (env_eqfold env) (env_toASCII env) r = Inr target"
    "upstream h = None" "serveAdmitted env (admit c h) aid (hostPort target) = (err, reason, effects)"
  using assms
  by (auto simp: serveConnectUDP_def Let_def dest: acquireConnectUDP_Some
      split: sum.splits if_splits prod.splits option.splits)

lemma serveAdmitted_success:
  assumes "serveAdmitted env h aid hp = (err, reason, effects)"
  shows "(WriteHeader StatusOK \<in> set effects \<longleftrightarrow> err = None) \<and>
    (err = None \<longrightarrow> (\<exists>t conn. resolveTargetCheckACL h (env_lookup env) hp = Inr t \<and>
       env_settings env = Some True \<and> dialConnectUDPTarget (env_dial env) (addresses t) = Inr conn))"
proof (cases "env_settings_wait env")
  case None
  with assms show ?thesis by (auto simp: serveAdmitted_def Let_def split: sum.splits if_splits)
next
  case (Some e)
  with assms have "err \<noteq> None \<and> effects = []"
    by (auto simp: serveAdmitted_def split: sum.splits intro: exI [of _ e] sym)
  then show ?thesis by auto
qed

text \<open>
  (C7) The handler dials only what the access rules approved: every address it tries is the printed
  form of a lookup result of the requested host that the rules allow, on the requested port,
  which is allowed too; no domain rule refuses the host, and there is no upstream proxy.
\<close>

theorem serve_dials_only_approved:
  assumes "serveConnectUDP env h m r = (err, h', m', r', effects)" and "DialUDP address \<in> set effects"
    and "env_lookup env host = Inr ips" and "\<forall>a \<in> set ips. length a \<in> {0, 4, 16}"
    and "parseConnectUDPTarget (env_lower env) (env_eqfold env) (env_toASCII env) r =
      Inr \<lparr>udp_host = host, udp_port = port, hostPort = hp\<rparr>"
  shows "upstream h = None \<and> portIsAllowed (AllowedPorts h) port \<and> \<not> domainDenied (aclRules h) host \<and>
    (\<exists>a \<in> set ips. hostIsAllowed (aclRules h) host a \<and> SplitHostPort address = Inr (IP_String a, port) \<and>
       ParseIP (IP_String a) = To16 a)"
proof -
  from assms(2) have ne: "effects \<noteq> []" by auto
  obtain c aid reason where
    up: "upstream h = None" and adm: "serveAdmitted env (admit c h) aid hp = (err, reason, effects)"
    by (rule serveConnectUDP_cases [OF assms(1)]) (use assms(5) ne in auto)
  from serveAdmitted_dials [OF adm assms(2)] obtain t where
    t: "resolveTargetCheckACL h (env_lookup env) hp = Inr t" "address \<in> set (addresses t)"
    by (auto simp: admission_simps)
  have "SplitHostPort hp = Inr (host, port)"
    using parsed_target_splits [OF assms(5)] by simp
  then have host: "target_host t = host" "target_port t = port"
    using t(1) by (auto simp: resolveTargetCheckACL_Inr)
  with assms(3) have "env_lookup env (target_host t) = Inr ips" by simp
  from resolved_target_facts [OF t(1) this assms(4)] host t(2) up show ?thesis by blast
qed

text \<open>
  A CONNECT-UDP request is answered with 200 exactly when it ends without an error, and then
  the target parsed, the policy resolved it, the client had announced datagrams, and the last
  of the dials connected; a request that fails is never answered with 200 before.
\<close>

theorem serve_success:
  assumes "serveConnectUDP env h m r = (err, h', m', r', effects)"
  shows "(WriteHeader StatusOK \<in> set effects \<longleftrightarrow> err = None) \<and>
    (err = None \<longrightarrow> (\<exists>target t conn.
       parseConnectUDPTarget (env_lower env) (env_eqfold env) (env_toASCII env) r = Inr target \<and>
       resolveTargetCheckACL h (env_lookup env) (hostPort target) = Inr t \<and>
       env_settings env = Some True \<and> dialConnectUDPTarget (env_dial env) (addresses t) = Inr conn))"
  using assms
proof (cases rule: serveConnectUDP_cases)
  case (admitted target c aid reason)
  with serveAdmitted_success [OF admitted(3)] show ?thesis by (auto simp: admission_simps)
qed auto

section \<open>A concrete request\<close>

definition sample_env :: udp_env where
  "sample_env = \<lparr>env_lower = id, env_eqfold = (=), env_toASCII = Inr,
     env_lookup = (\<lambda>_. Inr [[93, 184, 216, 34], [10, 0, 0, 1]]),
     env_streams = (\<lambda>_. True), env_settingser = (\<lambda>_. True), env_unwrap = (\<lambda>_. None), env_writer = Some 0,
     env_settings_wait = None, env_settings = Some True, env_dial = (\<lambda>_. Inr (Some 7)),
     env_has_stream = True, env_outcome = ContextCanceled, env_lifetime = 5\<rparr>"

definition sample_metrics :: udpMetrics where
  "sample_metrics = \<lparr>ready = False, activePeakValue = 0, calls = []\<rparr>"

lemma sample_serve_resolution:
  "resolveTargetCheckACL sample_handler (env_lookup sample_env) ''dns.example:443'' =
     Inr \<lparr>target_host = ''dns.example'', target_port = ''443'', addresses = [''93.184.216.34:443'']\<rparr>"
  by (simp add: resolveTargetCheckACL_def prepareTargetPolicy_def sample_handler_def new_handler_def
      sample_env_def hostIsAllowed_default default_allows_def policy_eval go_eval)

lemma sample_serve:
  "\<exists>h' m' r'. serveConnectUDP sample_env sample_handler sample_metrics
       (request_for sample_request ''dns.example'' ''443'') =
     (None, h', m', r', [DialUDP ''93.184.216.34:443'', WriteHeader StatusOK,
        RunAssociation 1 connectUDPAssociationIdleTime, CloseUDP])"
proof -
  have p: "parseConnectUDPTarget (env_lower sample_env) (env_eqfold sample_env) (env_toASCII sample_env)
      (request_for sample_request ''dns.example'' ''443'') =
      Inr \<lparr>udp_host = ''dns.example'', udp_port = ''443'', hostPort = ''dns.example:443''\<rparr>"
    using sample_parse by (simp add: sample_env_def)
  have a: "acquireConnectUDP c sample_handler sample_metrics = (Some 1, admit c sample_handler, sample_metrics)" for c
    by (simp add: acquireConnectUDP_def acquire_locked_cases sample_handler_def new_handler_def maxActive_def
        maxClient_def byClient_def recordConnectUDPAdmissionAccepted_def sample_metrics_def)
  have caps: "http3CapabilitiesFromResponseWriter (env_streams sample_env) (env_settingser sample_env)
      (env_unwrap sample_env) (env_writer sample_env) = Inr (0, 0)"
    by (simp add: sample_env_def http3CapabilitiesFromResponseWriter_def eval_nat_numeral)
  have "serveAdmitted sample_env (admit c sample_handler) 1 ''dns.example:443'' =
      (None, ''canceled'', [DialUDP ''93.184.216.34:443'', WriteHeader StatusOK,
        RunAssociation 1 connectUDPAssociationIdleTime, CloseUDP])" for c
    unfolding serveAdmitted_def resolve_admit sample_serve_resolution caps
    by (simp add: sample_env_def admit_def sample_handler_def new_handler_def connectUDPAssociationCloseReason_def)
  then show ?thesis
    unfolding serveConnectUDP_def p Let_def a
    by (simp add: sample_handler_def new_handler_def releaseConnectUDP_def)
qed

theorem serve_releases_slot_witness:
  "\<exists>err h' m' r' effects. serveConnectUDP sample_env sample_handler sample_metrics
      (request_for sample_request ''dns.example'' ''443'') = (err, h', m', r', effects) \<and>
    (h' = sample_handler \<or> h' = sample_handler\<lparr>connectUDPNextID := connectUDPNextID sample_handler + 1\<rparr>)"
proof -
  obtain h' m' r' where s: "serveConnectUDP sample_env sample_handler sample_metrics
      (request_for sample_request ''dns.example'' ''443'') = (None, h', m', r', [DialUDP ''93.184.216.34:443'',
       WriteHeader StatusOK, RunAssociation 1 connectUDPAssociationIdleTime, CloseUDP])"
    using sample_serve by blast
  have "\<forall>c. connectUDPByClient sample_handler c \<noteq> Some 0" by (simp add: sample_handler_def new_handler_def)
  from serve_releases_slot [OF s this] s show ?thesis by blast
qed

theorem serve_dials_only_approved_witness:
  "\<exists>a \<in> set [[93, 184, 216, 34], [10, 0, 0, 1]]. hostIsAllowed (aclRules sample_handler) ''dns.example'' a \<and>
     SplitHostPort ''93.184.216.34:443'' = Inr (IP_String a, ''443'')"
proof -
  obtain h' m' r' where s: "serveConnectUDP sample_env sample_handler sample_metrics
      (request_for sample_request ''dns.example'' ''443'') = (None, h', m', r', [DialUDP ''93.184.216.34:443'',
       WriteHeader StatusOK, RunAssociation 1 connectUDPAssociationIdleTime, CloseUDP])"
    using sample_serve by blast
  have l: "env_lookup sample_env ''dns.example'' = Inr [[93, 184, 216, 34], [10, 0, 0, 1]]"
    by (simp add: sample_env_def)
  have p: "parseConnectUDPTarget (env_lower sample_env) (env_eqfold sample_env) (env_toASCII sample_env)
      (request_for sample_request ''dns.example'' ''443'') =
      Inr \<lparr>udp_host = ''dns.example'', udp_port = ''443'', hostPort = ''dns.example:443''\<rparr>"
    using sample_parse by (simp add: sample_env_def)
  have e: "DialUDP ''93.184.216.34:443'' \<in> set [DialUDP ''93.184.216.34:443'', WriteHeader StatusOK,
      RunAssociation 1 connectUDPAssociationIdleTime, CloseUDP]" by simp
  have f: "\<forall>a \<in> set [[93, 184, 216, 34], [10, 0, 0, 1 :: byte]]. length a \<in> {0, 4, 16}" by simp
  from serve_dials_only_approved [OF s e l f p] show ?thesis by blast
qed

theorem serve_success_witness:
  "\<exists>target t conn. parseConnectUDPTarget (env_lower sample_env) (env_eqfold sample_env) (env_toASCII sample_env)
       (request_for sample_request ''dns.example'' ''443'') = Inr target \<and>
     resolveTargetCheckACL sample_handler (env_lookup sample_env) (hostPort target) = Inr t \<and>
     dialConnectUDPTarget (env_dial sample_env) (addresses t) = Inr conn"
proof -
  obtain h' m' r' where s: "serveConnectUDP sample_env sample_handler sample_metrics
      (request_for sample_request ''dns.example'' ''443'') = (None, h', m', r', [DialUDP ''93.184.216.34:443'',
       WriteHeader StatusOK, RunAssociation 1 connectUDPAssociationIdleTime, CloseUDP])"
    using sample_serve by blast
  from serve_success [OF s] show ?thesis by blast
qed

end
