(* ===== verification/Go_Io.thy ===== *)
theory Go_Io
  imports Go_Errors
begin

text \<open>
  Readers of package \<open>io\<close>.  A reader is the list of the results its source has to give: the
  bytes of one result and the error that comes with them.  A \<open>Read\<close> with a shorter buffer takes
  a part of the first result and leaves the rest; a reader without results is at the end of the
  stream.
\<close>

type_synonym reader = "(bytes \<times> goerror option) list"

text \<open>\<open>Read\<close> into a buffer of \<open>k\<close> bytes: the bytes, the error, the reader afterwards.\<close>

fun Read :: "nat \<Rightarrow> reader \<Rightarrow> bytes \<times> goerror option \<times> reader" where
  "Read k [] = ([], Some EOF, [])"
| "Read k ((bs, e) # r) =
     (if length bs \<le> k then (bs, e, r) else (take k bs, None, (drop k bs, e) # r))"

fun rsize :: "reader \<Rightarrow> nat" where
  "rsize [] = 0"
| "rsize ((bs, e) # r) = Suc (length bs) + rsize r"

lemma Read_smaller: "(bs, None, r') = Read k r \<Longrightarrow> 0 < k \<Longrightarrow> rsize r' < rsize r"
  by (cases "(k, r)" rule: Read.cases) (auto split: if_splits)

lemma Read_le: "Read k r = (bs, e, r') \<Longrightarrow> length bs + rsize r' \<le> rsize r"
  by (cases "(k, r)" rule: Read.cases) (auto split: if_splits)

text \<open>\<open>io.ReadFull\<close> into a buffer of \<open>k\<close> bytes, with the bytes read so far.\<close>

function ReadFull_loop :: "nat \<Rightarrow> bytes \<Rightarrow> reader \<Rightarrow> bytes \<times> goerror option \<times> reader" where
  "ReadFull_loop k acc r =
     (if k \<le> length acc then (acc, None, r)
      else
        (case Read (k - length acc) r of
           (bs, None, r') \<Rightarrow> ReadFull_loop k (acc @ bs) r'
         | (bs, Some e, r') \<Rightarrow>
             if k \<le> length (acc @ bs) then (acc @ bs, None, r')
             else if acc @ bs \<noteq> [] \<and> e = EOF then (acc @ bs, Some ErrUnexpectedEOF, r')
             else (acc @ bs, Some e, r')))"
  by pat_completeness auto
termination
  by (relation "measure (\<lambda>(k, acc, r). rsize r)") (auto dest: Read_smaller)

declare ReadFull_loop.simps [simp del]

definition ReadFull :: "nat \<Rightarrow> reader \<Rightarrow> bytes \<times> goerror option \<times> reader" where
  "ReadFull k r = ReadFull_loop k [] r"

section \<open>Readers without errors\<close>

definition content :: "reader \<Rightarrow> bytes" where
  "content r = concat (map fst r)"

definition quiet :: "reader \<Rightarrow> bool" where
  "quiet r \<longleftrightarrow> (\<forall>(bs, e) \<in> set r. e = None)"

lemma content_simps [simp]: "content [] = []" "content ((bs, e) # r) = bs @ content r"
  by (simp_all add: content_def)

lemma quiet_simps [simp]: "quiet []" "quiet ((bs, e) # r) \<longleftrightarrow> e = None \<and> quiet r"
  by (simp_all add: quiet_def)

text \<open>A read from a quiet reader takes a prefix of the content, or signals the end.\<close>

lemma Read_quiet:
  assumes "quiet r" and "Read k r = (bs, e, r')"
  shows "quiet r' \<and> content r = bs @ content r' \<and> length bs \<le> k \<and> (e = None \<or> r = [] \<and> e = Some EOF \<and> bs = [] \<and> r' = [])"
  using assms by (cases "(k, r)" rule: Read.cases) (auto split: if_splits)

lemma ReadFull_loop_quiet:
  assumes "quiet r" and "length acc \<le> k"
  shows "\<exists>r'. quiet r' \<and> rsize r' \<le> rsize r \<and>
    (if k \<le> length (acc @ content r)
     then ReadFull_loop k acc r = (take k (acc @ content r), None, r') \<and> acc @ content r = take k (acc @ content r) @ content r'
     else ReadFull_loop k acc r = (acc @ content r, Some (if acc @ content r = [] then EOF else ErrUnexpectedEOF), []))"
  using assms
proof (induction k acc r rule: ReadFull_loop.induct)
  case (1 k acc r)
  show ?case
  proof (cases "k \<le> length acc")
    case True
    with 1(3) have "k = length acc" by simp
    with 1(2) show ?thesis by (intro exI [of _ r]) (simp add: ReadFull_loop.simps)
  next
    case False
    obtain bs e r1 where rd: "Read (k - length acc) r = (bs, e, r1)" by (metis prod_cases3)
    from Read_quiet [OF 1(2) rd] have q: "quiet r1" "content r = bs @ content r1" "length bs \<le> k - length acc"
      "e = None \<or> r = [] \<and> e = Some EOF \<and> bs = [] \<and> r1 = []" by simp_all
    show ?thesis
    proof (cases e)
      case None
      with False q(3) have "length (acc @ bs) \<le> k" by simp
      from 1(1) [OF False rd [symmetric] _ None q(1) this] obtain r' where
        r': "quiet r'" "rsize r' \<le> rsize r1"
        "if k \<le> length ((acc @ bs) @ content r1)
         then ReadFull_loop k (acc @ bs) r1 = (take k ((acc @ bs) @ content r1), None, r') \<and>
           (acc @ bs) @ content r1 = take k ((acc @ bs) @ content r1) @ content r'
         else ReadFull_loop k (acc @ bs) r1 =
           ((acc @ bs) @ content r1, Some (if (acc @ bs) @ content r1 = [] then EOF else ErrUnexpectedEOF), [])"
        by auto
      moreover have "ReadFull_loop k acc r = ReadFull_loop k (acc @ bs) r1"
        using False rd None by (subst ReadFull_loop.simps) simp
      moreover have "rsize r1 \<le> rsize r" using Read_le [OF rd] by simp
      ultimately show ?thesis using q(2) by (intro exI [of _ r']) auto
    next
      case (Some err)
      with q have "r = []" "err = EOF" by simp_all
      with False show ?thesis by (intro exI [of _ "[]"]) (simp add: ReadFull_loop.simps)
    qed
  qed
qed

lemma ReadFull_quiet:
  assumes "quiet r" and "k \<le> length (content r)"
  obtains r' where "ReadFull k r = (take k (content r), None, r')" "quiet r'" "content r' = drop k (content r)"
proof -
  from ReadFull_loop_quiet [OF assms(1), of "[]" k] assms(2) obtain r' where r': "quiet r'"
    "ReadFull k r = (take k (content r), None, r')" "content r = take k (content r) @ content r'"
    by (auto simp: ReadFull_def)
  from r'(3) have "content r' = drop k (content r)" by (metis append_take_drop_id same_append_eq)
  with r' that show ?thesis by blast
qed

lemma ReadFull_short:
  assumes "quiet r" and "length (content r) < k"
  shows "ReadFull k r = (content r, Some (if content r = [] then EOF else ErrUnexpectedEOF), [])"
  using ReadFull_loop_quiet [OF assms(1), of "[]" k] assms(2) by (auto simp: ReadFull_def)

lemma ReadFull_zero [simp]: "ReadFull 0 r = ([], None, r)"
  by (simp add: ReadFull_def ReadFull_loop.simps)

text \<open>What a full read takes leaves the reader.\<close>

lemma ReadFull_loop_le: "ReadFull_loop k acc r = (bs, e, r') \<Longrightarrow> length bs + rsize r' \<le> length acc + rsize r"
proof (induction k acc r rule: ReadFull_loop.induct)
  case (1 k acc r)
  obtain cs e1 r1 where rd: "Read (k - length acc) r = (cs, e1, r1)" by (metis prod_cases3)
  show ?case
  proof (cases "\<not> k \<le> length acc \<and> e1 = None")
    case True
    then have t: "\<not> k \<le> length acc" "e1 = None" by simp_all
    with 1(2) rd have "ReadFull_loop k (acc @ cs) r1 = (bs, e, r')" by (subst (asm) ReadFull_loop.simps) simp
    from 1(1) [OF t(1) rd [symmetric] _ t(2) this] Read_le [OF rd] show ?thesis by simp
  next
    case False
    with 1(2) rd Read_le [OF rd] show ?thesis
      by (subst (asm) ReadFull_loop.simps) (auto split: if_splits)
  qed
qed

lemma ReadFull_le: "ReadFull k r = (bs, e, r') \<Longrightarrow> length bs + rsize r' \<le> rsize r"
  using ReadFull_loop_le [of k "[]" r] by (simp add: ReadFull_def)

lemma ReadFull_loop_None: "ReadFull_loop k acc r = (bs, None, r') \<Longrightarrow> k \<le> length bs"
proof (induction k acc r rule: ReadFull_loop.induct)
  case (1 k acc r)
  obtain cs e1 r1 where rd: "Read (k - length acc) r = (cs, e1, r1)" by (metis prod_cases3)
  show ?case
  proof (cases "\<not> k \<le> length acc \<and> e1 = None")
    case True
    then have t: "\<not> k \<le> length acc" "e1 = None" by simp_all
    with 1(2) rd have "ReadFull_loop k (acc @ cs) r1 = (bs, None, r')" by (subst (asm) ReadFull_loop.simps) simp
    from 1(1) [OF t(1) rd [symmetric] _ t(2) this] show ?thesis by simp
  next
    case False
    with 1(2) rd show ?thesis by (subst (asm) ReadFull_loop.simps) (auto split: if_splits)
  qed
qed

lemma ReadFull_None: "ReadFull k r = (bs, None, r') \<Longrightarrow> k \<le> length bs"
  unfolding ReadFull_def by (rule ReadFull_loop_None)

end
