(* ===== verification/Naive_Padding.thy ===== *)
theory Naive_Padding
  imports Go_Io Go_Http
begin

text \<open>
  The padding of tunnel streams in \<open>forwardproxy.go\<close>: the negotiation of the padding type, the
  response headers, and \<open>flushingIoCopy\<close>, which adds the padding to the first frames of a stream
  or removes it.  The value of \<open>rand.Intn(k)\<close> is a drawn number modulo \<open>k\<close>; the draws are
  arguments.
\<close>

section \<open>Negotiation\<close>

definition naivePaddingNone :: int where "naivePaddingNone = 0"
definition naivePaddingVariant1 :: int where "naivePaddingVariant1 = 1"
definition naivePaddingTypeRequestHeader :: string where "naivePaddingTypeRequestHeader = ''Padding-Type-Request''"
definition naivePaddingTypeReplyHeader :: string where "naivePaddingTypeReplyHeader = ''Padding-Type-Reply''"

definition negotiateNaivePadding :: "header \<Rightarrow> goerror + int" where
  "negotiateNaivePadding header =
     (case header (CanonicalHeaderKey naivePaddingTypeRequestHeader) of
        None \<Rightarrow> if Header_Get header ''Padding'' \<noteq> [] then Inr naivePaddingVariant1 else Inr naivePaddingNone
      | Some values \<Rightarrow>
          (case concat (map (\<lambda>value. Split value CHR '','') values) of
             [] \<Rightarrow> Inl (ErrorString ''no Naive padding type requested'')
           | candidate # _ \<Rightarrow>
               if TrimSpace candidate = ''1'' then Inr naivePaddingVariant1
               else if TrimSpace candidate = ''0'' then Inr naivePaddingNone
               else Inl (ErrorString ''invalid Naive padding type'')))"

text \<open>The loop over the sixteen bytes that carry random bits, from the low end of the word.\<close>

definition padding_chars :: string where "padding_chars = ''!#$()+<>?@[]^`{}''"

fun random_padding :: "nat \<Rightarrow> 64 word \<Rightarrow> string" where
  "random_padding 0 bits = []"
| "random_padding (Suc i) bits = padding_chars ! unat (bits AND 15) # random_padding i (drop_bit 4 bits)"

definition setNaivePaddingResponseHeaders :: "nat \<Rightarrow> 64 word \<Rightarrow> header \<Rightarrow> header \<Rightarrow> int \<Rightarrow> header" where
  "setNaivePaddingResponseHeaders draw bits response request paddingType =
     (let paddingLen = draw mod 32 + 30;
          padding = random_padding 16 bits @ replicate (paddingLen - 16) CHR ''~'';
          response' = Header_Set response ''Padding'' padding
      in if request (CanonicalHeaderKey naivePaddingTypeRequestHeader) \<noteq> None
         then Header_Set response' naivePaddingTypeReplyHeader (Itoa paddingType)
         else response')"

section \<open>Copying\<close>

definition NumFirstPaddings :: nat where "NumFirstPaddings = 8"

datatype padding_mode = NoPadding | AddPadding | RemovePadding

text \<open>Storing bytes in the buffer from an offset on.\<close>

definition store :: "bytes \<Rightarrow> nat \<Rightarrow> bytes \<Rightarrow> bytes" where
  "store buf off bs = take off buf @ bs @ drop (off + length bs) buf"

text \<open>The three ways a round of the loop fills the buffer: the number of bytes to write, the error, the
  buffer and the source afterwards.\<close>

definition read_adding :: "nat \<Rightarrow> bytes \<Rightarrow> reader \<Rightarrow> nat \<times> goerror option \<times> bytes \<times> reader" where
  "read_adding paddingSize buf src =
     (case Read (65536 - 3 - paddingSize - 3) src of
        (bs, er, src') \<Rightarrow>
          let nr = length bs; buf1 = store buf 3 bs in
          if 0 < nr then
            (3 + nr + paddingSize, er,
             store (store buf1 0 [word_of_nat (nr div 256), word_of_nat (nr mod 256), word_of_nat paddingSize])
               (3 + nr) (replicate paddingSize 0), src')
          else (0, er, buf1, src'))"

definition read_removing :: "bytes \<Rightarrow> reader \<Rightarrow> nat \<times> goerror option \<times> bytes \<times> reader" where
  "read_removing buf src =
     (case ReadFull 3 src of
        (hdr, er, src1) \<Rightarrow>
          let buf1 = store buf 0 hdr in
          if 0 < length hdr then
            (let nr = unat (buf1 ! 0) * 256 + unat (buf1 ! 1); paddingSize = unat (buf1 ! 2) in
             case ReadFull nr src1 of
               (bs, er2, src2) \<Rightarrow>
                 let buf2 = store buf1 0 bs in
                 if 0 < length bs then
                   (case ReadFull paddingSize src2 of (_, er3, src3) \<Rightarrow> (length bs, er3, buf2, src3))
                 else (0, er2, buf2, src2))
          else (0, er, buf1, src1))"

definition read_plain :: "bytes \<Rightarrow> reader \<Rightarrow> nat \<times> goerror option \<times> bytes \<times> reader" where
  "read_plain buf src = (case Read 65536 src of (bs, er, src') \<Rightarrow> (length bs, er, store buf 0 bs, src'))"

definition copy_read ::
  "padding_mode \<Rightarrow> (nat \<Rightarrow> nat) \<Rightarrow> nat \<Rightarrow> bytes \<Rightarrow> reader \<Rightarrow> nat \<times> nat \<times> goerror option \<times> bytes \<times> reader" where
  "copy_read mode draw numPadding buf src =
     (if mode = AddPadding \<and> numPadding < NumFirstPaddings
      then (numPadding + 1, read_adding (draw numPadding mod 256) buf src)
      else if mode = RemovePadding \<and> numPadding < NumFirstPaddings
      then (numPadding + 1, read_removing buf src)
      else (numPadding, read_plain buf src))"

text \<open>
  The destination: what the \<open>k\<close>-th \<open>Write\<close> returns for its bytes, and what the \<open>Flush\<close> after it
  returns (no error where the destination has no \<open>Flush\<close>).  The result is the number of bytes
  written, the error, and the bytes the destination accepted.
\<close>

record sink =
  sink_Write :: "nat \<Rightarrow> bytes \<Rightarrow> nat \<times> goerror option"
  sink_Flush :: "nat \<Rightarrow> goerror option"

lemma read_adding_smaller:
  "paddingSize < 256 \<Longrightarrow> read_adding paddingSize buf src = (nr, None, buf', src') \<Longrightarrow> rsize src' < rsize src"
  using Read_smaller [of _ src' "65536 - 3 - paddingSize - 3" src]
  by (auto simp: read_adding_def Let_def split: prod.splits if_splits)

lemma read_plain_smaller: "read_plain buf src = (nr, None, buf', src') \<Longrightarrow> rsize src' < rsize src"
  using Read_smaller [of _ src' 65536 src] by (auto simp: read_plain_def split: prod.splits)

lemma read_removing_smaller:
  assumes "read_removing buf src = (nr, None, buf', src')"
  shows "rsize src' < rsize src"
proof -
  obtain hdr er s1 where h: "ReadFull 3 src = (hdr, er, s1)" by (metis prod_cases3)
  have "hdr \<noteq> []"
    using assms h ReadFull_None [of 3 src hdr s1] by (auto simp: read_removing_def Let_def)
  moreover have "rsize src' \<le> rsize s1"
    using assms h \<open>hdr \<noteq> []\<close>
    by (auto simp: read_removing_def Let_def split: prod.splits if_splits dest!: ReadFull_le)
  ultimately show ?thesis using ReadFull_le [OF h] by (cases hdr) auto
qed

lemma copy_read_smaller:
  "copy_read mode draw n buf src = (n', nr, None, buf', src') \<Longrightarrow> rsize src' < rsize src"
  by (auto simp: copy_read_def split: if_splits
      dest: read_adding_smaller [rotated] read_removing_smaller read_plain_smaller)

function flushingIoCopy ::
  "sink \<Rightarrow> padding_mode \<Rightarrow> (nat \<Rightarrow> nat) \<Rightarrow> nat \<Rightarrow> nat \<Rightarrow> bytes \<Rightarrow> reader \<Rightarrow> int \<times> goerror option \<times> bytes" where
  "flushingIoCopy dst mode draw numPadding k buf src =
     (case copy_read mode draw numPadding buf src of
        (numPadding', nr, er, buf', src') \<Rightarrow>
          let next = (\<lambda>k'. case er of
                None \<Rightarrow> flushingIoCopy dst mode draw numPadding' k' buf' src'
              | Some e \<Rightarrow> (0, if e = EOF then None else Some e, []))
          in
          if 0 < nr then
            (case sink_Write dst k (take nr buf') of
               (nw, ew) \<Rightarrow>
                 let accepted = take nw (take nr buf') in
                 if ew \<noteq> None then (int nw, ew, accepted)
                 else if sink_Flush dst k \<noteq> None then (int nw, sink_Flush dst k, accepted)
                 else if nr \<noteq> nw then (int nw, Some ErrShortWrite, accepted)
                 else (case next (Suc k) of (written, err, later) \<Rightarrow> (int nw + written, err, accepted @ later)))
          else next k)"
  by pat_completeness auto
termination
  by (relation "measure (\<lambda>(dst, mode, draw, n, k, buf, src). rsize src)") (auto dest: copy_read_smaller [OF sym])

declare flushingIoCopy.simps [simp del]

text \<open>
  The two directions of a tunnel run concurrently on separate buffers: client to target, then target
  to client, whose error \<open>dualStream\<close> returns.
\<close>

record tunnel_io =
  to_target :: sink
  to_client :: sink
  from_client :: reader
  from_target :: reader
  up_buffer :: bytes
  down_buffer :: bytes

definition dualStream ::
  "(nat \<Rightarrow> nat) \<Rightarrow> tunnel_io \<Rightarrow> bool \<Rightarrow> (int \<times> goerror option \<times> bytes) \<times> (int \<times> goerror option \<times> bytes)" where
  "dualStream draw io padding =
     (flushingIoCopy (to_target io) (if padding then RemovePadding else NoPadding) draw 0 0 (up_buffer io) (from_client io),
      flushingIoCopy (to_client io) (if padding then AddPadding else NoPadding) draw 0 0 (down_buffer io) (from_target io))"

section \<open>Copying to a destination that accepts everything\<close>

definition reliable :: "sink \<Rightarrow> bool" where
  "reliable dst \<longleftrightarrow> (\<forall>k bs. sink_Write dst k bs = (length bs, None)) \<and> (\<forall>k. sink_Flush dst k = None)"

lemma copy_more:
  assumes "reliable dst" and "copy_read mode draw n buf src = (n', nr, None, buf', src')" and "nr \<le> length buf'"
    and "\<And>k'. flushingIoCopy dst mode draw n' k' buf' src' = (int (length out), None, out)"
  shows "flushingIoCopy dst mode draw n k buf src = (int (length (take nr buf' @ out)), None, take nr buf' @ out)"
  using assms by (subst flushingIoCopy.simps) (simp add: reliable_def Let_def)

lemma copy_end:
  assumes "copy_read mode draw n buf src = (n', 0, Some EOF, buf', src')"
  shows "flushingIoCopy dst mode draw n k buf src = (0, None, [])"
  using assms by (subst flushingIoCopy.simps) simp

lemma length_store [simp]: "off + length bs \<le> length buf \<Longrightarrow> length (store buf off bs) = length buf"
  by (simp add: store_def)

lemma take_store: "length bs \<le> length buf \<Longrightarrow> take (length bs) (store buf 0 bs) = bs"
  by (simp add: store_def)

definition plain_mode :: "padding_mode \<Rightarrow> nat \<Rightarrow> bool" where
  "plain_mode mode n \<longleftrightarrow> mode = NoPadding \<or> NumFirstPaddings \<le> n"

lemma copy_plain:
  assumes "reliable dst" and "length buf = 65536" and "quiet src" and "plain_mode mode n"
  shows "flushingIoCopy dst mode draw n k buf src = (int (length (content src)), None, content src)"
  using assms(2,3)
proof (induction "rsize src" arbitrary: k buf src rule: less_induct)
  case less
  obtain bs e src' where rd: "Read 65536 src = (bs, e, src')" by (metis prod_cases3)
  have cr: "copy_read mode draw n buf src = (n, length bs, e, store buf 0 bs, src')"
    using assms(4) rd by (cases mode) (auto simp: copy_read_def plain_mode_def read_plain_def)
  from Read_quiet [OF less.prems(2) rd] have q: "quiet src'" "content src = bs @ content src'" "length bs \<le> 65536"
    "e = None \<or> src = [] \<and> e = Some EOF \<and> bs = [] \<and> src' = []" by simp_all
  show ?case
  proof (cases "e = None")
    case True
    have "flushingIoCopy dst mode draw n k' (store buf 0 bs) src' = (int (length (content src')), None, content src')" for k'
      using less.hyps [OF copy_read_smaller [OF cr [unfolded True]]] less.prems(1) q by simp
    from copy_more [OF assms(1) cr [unfolded True] _ this, of k] less.prems(1) q(2,3) show ?thesis
      by (simp add: take_store)
  next
    case False
    with q cr have "copy_read mode draw n buf src = (n, 0, Some EOF, store buf 0 bs, src')" "content src = []" by auto
    with copy_end show ?thesis by simp
  qed
qed

section \<open>Frames\<close>

definition padding_frame :: "nat \<Rightarrow> bytes \<Rightarrow> bytes" where
  "padding_frame pad bs =
     [word_of_nat (length bs div 256), word_of_nat (length bs mod 256), word_of_nat pad] @ bs @ replicate pad 0"

fun frames :: "(nat \<Rightarrow> nat) \<Rightarrow> nat \<Rightarrow> bytes list \<Rightarrow> bytes" where
  "frames draw n [] = []"
| "frames draw n (s # ss) = padding_frame (draw n mod 256) s @ frames draw (Suc n) ss"

text \<open>Payloads of frames still to come, and the bytes that follow them unpadded.\<close>

definition framing :: "nat \<Rightarrow> bytes list \<Rightarrow> bytes \<Rightarrow> bool" where
  "framing n ps raw \<longleftrightarrow> (\<forall>s \<in> set ps. s \<noteq> [] \<and> length s < 65536) \<and> length ps \<le> NumFirstPaddings - n \<and>
     (raw \<noteq> [] \<longrightarrow> length ps = NumFirstPaddings - n)"

lemma framing_Cons: "framing n (s # ps) raw \<longleftrightarrow> s \<noteq> [] \<and> length s < 65536 \<and> n < NumFirstPaddings \<and> framing (Suc n) ps raw"
  by (auto simp: framing_def)

lemma store_frame:
  assumes "length buf = 65536" and "3 + length bs + pad \<le> 65536"
  shows "take (3 + length bs + pad) (store (store (store buf 3 bs) 0
      [word_of_nat (length bs div 256), word_of_nat (length bs mod 256), word_of_nat pad]) (3 + length bs) (replicate pad 0)) =
    padding_frame pad bs"
  using assms by (simp add: store_def padding_frame_def numeral_3_eq_3)

definition eager :: "reader \<Rightarrow> bool" where
  "eager src \<longleftrightarrow> (\<forall>(bs, e) \<in> set src. bs \<noteq> [] \<and> e = None)"

lemma Read_eager:
  assumes "eager src" and "0 < k"
  obtains "src = []" "Read k src = ([], Some EOF, [])"
  | bs src' where "Read k src = (bs, None, src')" "bs \<noteq> []" "length bs \<le> k" "eager src'" "content src = bs @ content src'"
proof (cases src)
  case Nil
  with that(1) show ?thesis by simp
next
  case (Cons p rest)
  obtain bs where p: "p = (bs, None)" "bs \<noteq> []" "eager rest" using assms(1) Cons by (auto simp: eager_def)
  show ?thesis
  proof (cases "length bs \<le> k")
    case True
    with that(2) [of bs rest] Cons p show ?thesis by simp
  next
    case False
    with that(2) [of "take k bs" "(drop k bs, None) # rest"] Cons p assms(2) show ?thesis
      by (auto simp: eager_def)
  qed
qed

lemma eager_quiet: "eager src \<Longrightarrow> quiet src"
  by (auto simp: eager_def quiet_def)

text \<open>A round that adds padding: the end of the source, or one frame.\<close>

lemma copy_read_adding:
  assumes "length buf = 65536" and "eager src" and "n < NumFirstPaddings"
  obtains buf' where "src = []" "copy_read AddPadding draw n buf src = (n + 1, 0, Some EOF, buf', [])"
  | bs buf' src' where "copy_read AddPadding draw n buf src = (n + 1, length (padding_frame (draw n mod 256) bs), None, buf', src')"
      "take (length (padding_frame (draw n mod 256) bs)) buf' = padding_frame (draw n mod 256) bs" "length buf' = 65536"
      "bs \<noteq> []" "length bs < 65536" "length (padding_frame (draw n mod 256) bs) \<le> 65536"
      "eager src'" "content src = bs @ content src'"
proof -
  let ?pad = "draw n mod 256"
  have pad: "?pad < 256" by simp
  then have "0 < 65536 - 3 - ?pad - 3" by simp
  with assms(2) show ?thesis
  proof (cases rule: Read_eager)
    case 1
    with that(1) assms(3) show ?thesis by (simp add: copy_read_def read_adding_def)
  next
    case (2 bs src')
    let ?buf = "store (store (store buf 3 bs) 0
        [word_of_nat (length bs div 256), word_of_nat (length bs mod 256), word_of_nat ?pad]) (3 + length bs) (replicate ?pad 0)"
    have fit: "3 + length bs + ?pad \<le> 65536" using 2(3) pad by linarith
    have len: "length (padding_frame ?pad bs) = 3 + length bs + ?pad" by (simp add: padding_frame_def)
    have "copy_read AddPadding draw n buf src = (n + 1, 3 + length bs + ?pad, None, ?buf, src')"
      using assms(3) 2 by (simp add: copy_read_def read_adding_def Let_def)
    with that(2) [of bs ?buf src'] store_frame [OF assms(1) fit] 2 fit assms(1) len show ?thesis by simp
  qed
qed

lemma copy_adding:
  assumes "reliable dst" and "length buf = 65536" and "eager src"
  shows "\<exists>ps raw. framing n ps raw \<and> content src = concat ps @ raw \<and>
    (\<forall>k. flushingIoCopy dst AddPadding draw n k buf src = (int (length (frames draw n ps @ raw)), None, frames draw n ps @ raw))"
  using assms(2,3)
proof (induction "rsize src" arbitrary: n buf src rule: less_induct)
  case less
  show ?case
  proof (cases "n < NumFirstPaddings")
    case False
    with copy_plain [OF assms(1) less.prems(1) eager_quiet [OF less.prems(2)], of AddPadding n draw] show ?thesis
      by (intro exI [of _ "[]"] exI [of _ "content src"]) (simp add: framing_def plain_mode_def)
  next
    case True
    from less.prems True show ?thesis
    proof (cases rule: copy_read_adding [where draw = draw])
      case (1 buf')
      with copy_end show ?thesis by (intro exI [of _ "[]"] exI [of _ "[]"]) (auto simp: framing_def)
    next
      case (2 bs buf' src')
      from less.hyps [OF copy_read_smaller [OF 2(1)] 2(3,7), of "n + 1"] obtain ps raw where
        ps: "framing (Suc n) ps raw" "content src' = concat ps @ raw"
        "\<And>k. flushingIoCopy dst AddPadding draw (n + 1) k buf' src' =
           (int (length (frames draw (Suc n) ps @ raw)), None, frames draw (Suc n) ps @ raw)"
        by auto
      have "flushingIoCopy dst AddPadding draw n k buf src =
          (int (length (frames draw n (bs # ps) @ raw)), None, frames draw n (bs # ps) @ raw)" for k
        using copy_more [OF assms(1) 2(1) _ ps(3), of k] 2 by simp
      moreover have "framing n (bs # ps) raw" using ps(1) 2 True by (simp add: framing_Cons)
      ultimately show ?thesis using 2(8) ps(2) by (intro exI [of _ "bs # ps"] exI [of _ raw]) simp
    qed
  qed
qed

text \<open>A round that removes the padding of a frame at the head of the source.\<close>

lemma frame_length_bytes:
  "n < 65536 \<Longrightarrow> unat (word_of_nat (n div 256) :: 8 word) * 256 + unat (word_of_nat (n mod 256) :: 8 word) = n"
  by (simp add: unat_of_nat)

lemma copy_read_removing:
  assumes "length buf = 65536" and "quiet src" and "n < NumFirstPaddings"
    and "content src = padding_frame pad bs @ rest" and "pad < 256" and "bs \<noteq> []" and "length bs < 65536"
  obtains buf' src' where "copy_read RemovePadding draw n buf src = (n + 1, length bs, None, buf', src')"
    "take (length bs) buf' = bs" "length buf' = 65536" "quiet src'" "content src' = rest"
proof -
  let ?hdr = "[word_of_nat (length bs div 256), word_of_nat (length bs mod 256), word_of_nat pad] :: bytes"
  have c: "content src = ?hdr @ bs @ replicate pad 0 @ rest" by (simp add: assms(4) padding_frame_def)
  obtain s1 where s1: "ReadFull 3 src = (?hdr, None, s1)" "quiet s1" "content s1 = bs @ replicate pad 0 @ rest"
    using ReadFull_quiet [OF assms(2), of 3] by (auto simp: c numeral_3_eq_3)
  obtain s2 where s2: "ReadFull (length bs) s1 = (bs, None, s2)" "quiet s2" "content s2 = replicate pad 0 @ rest"
    using ReadFull_quiet [OF s1(2), of "length bs"] by (auto simp: s1(3))
  obtain s3 where s3: "ReadFull pad s2 = (replicate pad 0, None, s3)" "quiet s3" "content s3 = rest"
    using ReadFull_quiet [OF s2(2), of pad] by (auto simp: s2(3))
  let ?buf1 = "store buf 0 ?hdr"
  have b: "?buf1 ! 0 = ?hdr ! 0" "?buf1 ! 1 = ?hdr ! 1" "?buf1 ! 2 = ?hdr ! 2" by (simp_all add: store_def)
  have nr: "unat (?buf1 ! 0) * 256 + unat (?buf1 ! 1) = length bs" "unat (?buf1 ! 2) = pad"
    using frame_length_bytes [OF assms(7)] assms(5) unfolding b by (simp_all add: unat_of_nat)
  have "copy_read RemovePadding draw n buf src = (n + 1, length bs, None, store ?buf1 0 bs, s3)"
    using assms(3,6) s1(1) s2(1) s3(1) nr by (simp add: copy_read_def read_removing_def Let_def)
  with that s3 assms(1,7) show ?thesis by (simp add: take_store)
qed

lemma copy_removing:
  assumes "reliable dst"
  shows "length buf = 65536 \<Longrightarrow> quiet src \<Longrightarrow> framing n ps raw \<Longrightarrow> content src = frames draw n ps @ raw \<Longrightarrow>
    flushingIoCopy dst RemovePadding draw' n k buf src = (int (length (concat ps @ raw)), None, concat ps @ raw)"
proof (induction ps arbitrary: n k buf src)
  case Nil
  show ?case
  proof (cases "NumFirstPaddings \<le> n")
    case True
    with copy_plain [OF assms Nil(1,2)] Nil(4) show ?thesis by (simp add: plain_mode_def)
  next
    case False
    with Nil have "content src = []" "raw = []" by (auto simp: framing_def)
    with ReadFull_short [OF Nil(2), of 3] False have
      "copy_read RemovePadding draw' n buf src = (n + 1, 0, Some EOF, store buf 0 [], [])"
      by (simp add: copy_read_def read_removing_def)
    with copy_end \<open>raw = []\<close> show ?thesis by simp
  qed
next
  case (Cons s ps)
  from Cons.prems(3) have f: "n < NumFirstPaddings" "s \<noteq> []" "length s < 65536" "framing (Suc n) ps raw"
    by (simp_all add: framing_Cons)
  have "content src = padding_frame (draw n mod 256) s @ (frames draw (Suc n) ps @ raw)" using Cons.prems(4) by simp
  from copy_read_removing [OF Cons.prems(1,2) f(1) this _ f(2,3), of draw'] obtain buf' src' where
    r: "copy_read RemovePadding draw' n buf src = (n + 1, length s, None, buf', src')"
      "take (length s) buf' = s" "length buf' = 65536" "quiet src'" "content src' = frames draw (Suc n) ps @ raw"
    by auto
  have "flushingIoCopy dst RemovePadding draw' (n + 1) k' buf' src' = (int (length (concat ps @ raw)), None, concat ps @ raw)" for k'
    using Cons.IH [OF r(3,4) _ r(5)] f(4) by simp
  from copy_more [OF assms r(1) _ this, of k] r(2,3) f(3) show ?case by simp
qed

lemma frames_index:
  "frames draw n ps = concat (map (\<lambda>i. padding_frame (draw (n + i) mod 256) (ps ! i)) [0..<length ps])"
proof (induction ps arbitrary: n)
  case (Cons s ps)
  have "[0..<Suc m] = 0 # map Suc [0..<m]" for m by (simp add: upt_conv_Cons map_Suc_upt)
  with Cons [of "Suc n"] show ?case by (simp add: o_def del: upt_Suc)
qed simp

section \<open>Properties of the copy\<close>

definition ideal_sink :: sink where
  "ideal_sink = \<lparr>sink_Write = (\<lambda>k bs. (length bs, None)), sink_Flush = (\<lambda>k. None)\<rparr>"

lemma reliable_ideal [simp]: "reliable ideal_sink"
  by (simp add: reliable_def ideal_sink_def)

abbreviation fresh_buffer :: bytes where "fresh_buffer \<equiv> replicate 65536 0"

text \<open>
  (C3) Padding is transparent: whatever padding lengths are drawn, however the sending side's source
  splits the data, and however the network splits the padded stream, removing the padding on the
  receiving side yields exactly the data that was sent, and both copies end without an error.
\<close>

theorem padding_roundtrip:
  assumes "reliable dst" and "reliable dst'" and "length buf = 65536" and "length buf' = 65536"
    and "\<forall>(bs, e) \<in> set src. bs \<noteq> [] \<and> e = None" and "\<forall>(bs, e) \<in> set src'. e = None"
    and "flushingIoCopy dst AddPadding draw 0 k buf src = (written, err, wire)"
    and "concat (map fst src') = wire"
  shows "err = None \<and> flushingIoCopy dst' RemovePadding draw' 0 k' buf' src' =
    (int (length (concat (map fst src))), None, concat (map fst src))"
proof -
  have "eager src" "quiet src'" using assms(5,6) by (simp_all add: eager_def quiet_def)
  from copy_adding [OF assms(1,3) this(1), of 0 draw] obtain ps raw where
    a: "framing 0 ps raw" "content src = concat ps @ raw"
      "flushingIoCopy dst AddPadding draw 0 k buf src = (int (length (frames draw 0 ps @ raw)), None, frames draw 0 ps @ raw)"
    by blast
  with assms(7,8) have "content src' = frames draw 0 ps @ raw" "err = None" by (auto simp: content_def)
  with copy_removing [OF assms(2,4) \<open>quiet src'\<close> a(1)] a(2) show ?thesis by (simp add: content_def)
qed

theorem padding_roundtrip_witness:
  "flushingIoCopy ideal_sink RemovePadding (\<lambda>_. 0) 0 0 fresh_buffer
     [(snd (snd (flushingIoCopy ideal_sink AddPadding (\<lambda>n. n + 7) 0 0 fresh_buffer [([1, 2], None), ([3], None)])), None)] =
   (3, None, [1, 2, 3])"
proof -
  let ?r = "flushingIoCopy ideal_sink AddPadding (\<lambda>n. n + 7) 0 0 fresh_buffer [([1, 2], None), ([3], None)]"
  have "?r = (fst ?r, fst (snd ?r), snd (snd ?r))" by simp
  from padding_roundtrip [OF reliable_ideal reliable_ideal _ _ _ _ this, of fresh_buffer "[(snd (snd ?r), None)]"]
  show ?thesis by simp
qed

text \<open>
  The padded stream has the documented form: at most eight frames, each a two-byte length, a
  one-byte padding length, a payload of that length (not empty and short enough for the length
  field) and as many zero bytes as drawn; after eight frames the rest of the data follows as it
  is, and the frame payloads and the rest together are the data read.
\<close>

theorem padding_wire_format:
  assumes "reliable dst" and "length buf = 65536" and "\<forall>(bs, e) \<in> set src. bs \<noteq> [] \<and> e = None"
  shows "\<exists>ps raw. length ps \<le> 8 \<and> (raw \<noteq> [] \<longrightarrow> length ps = 8) \<and> (\<forall>s \<in> set ps. s \<noteq> [] \<and> length s < 65536) \<and>
    concat (map fst src) = concat ps @ raw \<and>
    snd (snd (flushingIoCopy dst AddPadding draw 0 k buf src)) =
      concat (map (\<lambda>i. padding_frame (draw i mod 256) (ps ! i)) [0..<length ps]) @ raw"
proof -
  have "eager src" using assms(3) by (simp add: eager_def)
  from copy_adding [OF assms(1,2) this, of 0 draw] obtain ps raw where
    "framing 0 ps raw" "content src = concat ps @ raw"
    "flushingIoCopy dst AddPadding draw 0 k buf src = (int (length (frames draw 0 ps @ raw)), None, frames draw 0 ps @ raw)"
    by blast
  then show ?thesis
    by (intro exI [of _ ps] exI [of _ raw]) (auto simp: framing_def content_def frames_index NumFirstPaddings_def)
qed

theorem padding_wire_format_witness:
  "\<exists>ps raw. length ps \<le> 8 \<and> concat ps @ raw = [1, 2, 3 :: byte] \<and>
     snd (snd (flushingIoCopy ideal_sink AddPadding (\<lambda>n. n) 0 0 fresh_buffer [([1, 2, 3], None)])) =
       concat (map (\<lambda>i. padding_frame (i mod 256) (ps ! i)) [0..<length ps]) @ raw"
  using padding_wire_format [OF reliable_ideal, of fresh_buffer "[([1, 2, 3], None)]" "\<lambda>n. n" 0] by auto

text \<open>Rounds that end the copy, and rounds without data.\<close>

lemma copy_last:
  assumes "reliable dst" and "copy_read mode draw n buf src = (n', nr, Some EOF, buf', src')" and "nr \<le> length buf'"
  shows "flushingIoCopy dst mode draw n k buf src = (int nr, None, take nr buf')"
  using assms by (subst flushingIoCopy.simps) (simp add: reliable_def Let_def)

lemma copy_skip:
  assumes "copy_read mode draw n buf src = (n', 0, None, buf', src')"
  shows "flushingIoCopy dst mode draw n k buf src = flushingIoCopy dst mode draw n' k buf' src'"
  using assms by (subst flushingIoCopy.simps) simp

lemma ReadFull_end: "0 < k \<Longrightarrow> ReadFull k [] = ([], Some EOF, [])"
  using ReadFull_short [of "[]" k] by simp

lemma copy_removing_end: "n < NumFirstPaddings \<Longrightarrow> flushingIoCopy dst RemovePadding draw n k buf [] = (0, None, [])"
  by (rule copy_end [where n' = "n + 1"]) (auto simp: copy_read_def read_removing_def ReadFull_end)

lemma short_frame_clean:
  assumes "reliable dst" and "length buf = 65536" and "quiet src" and "content src = [hi, lo, pad] @ bs"
    and "bs \<noteq> []" and "length bs < unat hi * 256 + unat lo"
  shows "flushingIoCopy dst RemovePadding draw 0 k buf src = (int (length bs), None, bs)"
proof -
  let ?hdr = "[hi, lo, pad]" and ?nr = "unat hi * 256 + unat lo"
  obtain s1 where s1: "ReadFull 3 src = (?hdr, None, s1)" "quiet s1" "content s1 = bs"
    using ReadFull_quiet [OF assms(3), of 3] by (auto simp: assms(4) numeral_3_eq_3)
  have s2: "ReadFull ?nr s1 = (bs, Some ErrUnexpectedEOF, [])"
    using ReadFull_short [OF s1(2), of ?nr] s1(3) assms(5,6) by simp
  let ?buf = "store (store buf 0 ?hdr) 0 bs"
  have nth: "store buf 0 ?hdr ! 0 = hi" "store buf 0 ?hdr ! Suc 0 = lo" "store buf 0 ?hdr ! 2 = pad"
    by (simp_all add: store_def)
  have "unat hi < 256" "unat lo < 256" using unsigned_less [of hi] unsigned_less [of lo] by simp_all
  then have fit: "length bs \<le> 65536" using assms(6) by linarith
  have cr: "copy_read RemovePadding draw 0 buf src = (1, length bs, (if unat pad = 0 then None else Some EOF), ?buf, [])"
    using s1(1) s2 nth assms(5) by (simp add: copy_read_def read_removing_def Let_def NumFirstPaddings_def ReadFull_end)
  have t: "take (length bs) ?buf = bs" "length ?buf = 65536" using fit assms(2) by (simp_all add: take_store)
  show ?thesis
  proof (cases "unat pad = 0")
    case True
    have "flushingIoCopy dst RemovePadding draw 1 k' ?buf [] = (int (length []), None, [])" for k'
      using copy_removing_end [of 1] by (simp add: NumFirstPaddings_def)
    from copy_more [OF assms(1) cr [unfolded if_P [OF True]] _ this, of k] t fit show ?thesis by simp
  next
    case False
    from copy_last [OF assms(1) cr [unfolded if_not_P [OF False]]] t fit show ?thesis by simp
  qed
qed

text \<open>A frame without payload: its padding is not skipped.\<close>

lemma empty_frame_round:
  assumes "length buf = 65536" and "quiet src" and "n < NumFirstPaddings" and "content src = [0, 0, pad] @ rest"
  obtains src' where "copy_read RemovePadding draw n buf src = (n + 1, 0, None, store buf 0 [0, 0, pad], src')"
    "quiet src'" "content src' = rest"
proof -
  obtain s1 where s1: "ReadFull 3 src = ([0, 0, pad], None, s1)" "quiet s1" "content s1 = rest"
    using ReadFull_quiet [OF assms(2), of 3] by (auto simp: assms(4) numeral_3_eq_3)
  have nth: "store buf 0 [0, 0, pad] ! 0 = 0" "store buf 0 [0, 0, pad] ! Suc 0 = 0" by (simp_all add: store_def)
  have "store (store buf 0 [0, 0, pad]) 0 [] = store buf 0 [0, 0, pad]" by (simp add: store_def)
  with s1 nth assms(3) that show ?thesis by (simp add: copy_read_def read_removing_def Let_def)
qed

lemma empty_frame_desync:
  assumes "reliable dst" and "length buf = 65536" and "quiet src"
    and "content src = padding_frame 1 [] @ padding_frame 0 [65]"
  shows "flushingIoCopy dst RemovePadding draw 0 k buf src = (0, None, [])"
proof -
  let ?b1 = "store buf 0 [0, 0, 1]" and ?b2 = "store (store buf 0 [0, 0, 1]) 0 [0, 0, 1]"
  have c: "content src = [0, 0, 1] @ [0, 0, 1] @ [0, 65]" using assms(4) by (simp add: padding_frame_def)
  obtain s1 where s1: "copy_read RemovePadding draw 0 buf src = (0 + 1, 0, None, ?b1, s1)" "quiet s1"
      "content s1 = [0, 0, 1] @ [0, 65]"
    using empty_frame_round [OF assms(2,3) _ c, of 0 draw] by (auto simp: NumFirstPaddings_def)
  have b1: "length ?b1 = 65536" using assms(2) by simp
  obtain s2 where s2: "copy_read RemovePadding draw 1 ?b1 s1 = (1 + 1, 0, None, ?b2, s2)" "quiet s2" "content s2 = [0, 65]"
    using empty_frame_round [OF b1 s1(2) _ s1(3), of 1 draw] by (auto simp: NumFirstPaddings_def)
  have "ReadFull 3 s2 = ([0, 65], Some ErrUnexpectedEOF, [])" using ReadFull_short [OF s2(2), of 3] s2(3) by simp
  moreover have "store ?b2 0 [0, 65] ! 0 = 0" "store ?b2 0 [0, 65] ! Suc 0 = 65" by (simp_all add: store_def)
  ultimately have "copy_read RemovePadding draw 2 ?b2 s2 = (3, 0, Some EOF, store (store ?b2 0 [0, 65]) 0 [], [])"
    by (simp add: copy_read_def read_removing_def Let_def NumFirstPaddings_def ReadFull_end)
  from copy_end [OF this] copy_skip [OF s1(1)] copy_skip [OF s2(1)] show ?thesis by (simp add: numeral_2_eq_2)
qed



section \<open>Response headers\<close>

lemma length_random_padding: "length (random_padding n bits) = n"
  by (induction n arbitrary: bits) auto

lemma random_padding_chars: "set (random_padding n bits) \<subseteq> set padding_chars"
proof (induction n arbitrary: bits)
  case (Suc n)
  have "bits AND 15 \<le> 15" by (rule word_and_le1)
  then have "unat (bits AND 15) \<le> unat (15 :: 64 word)" unfolding word_le_nat_alt .
  then have "unat (bits AND 15) < length padding_chars" by (simp add: padding_chars_def)
  with Suc show ?case by simp
qed simp

lemma canonical_padding_keys:
  "CanonicalHeaderKey ''Padding'' = ''Padding''" "CanonicalHeaderKey ''Padding-Type-Request'' = ''Padding-Type-Request''"
  "CanonicalHeaderKey ''Padding-Type-Reply'' = ''Padding-Type-Reply''"
  by code_simp+

text \<open>
  The padding header of a CONNECT response is 30 to 61 bytes long and consists of the sixteen
  designated punctuation bytes and tildes, whatever is drawn (no draw indexes outside the table);
  the reply header is set exactly when the request asked for a type, to the negotiated type,
  which is 0 or 1; every other response header is left alone.
\<close>

theorem padding_headers:
  assumes "negotiateNaivePadding request = Inr paddingType"
    and "r = setNaivePaddingResponseHeaders draw bits response request paddingType"
  shows "paddingType \<in> {0, 1} \<and> 30 \<le> length (Header_Get r ''Padding'') \<and> length (Header_Get r ''Padding'') \<le> 61 \<and>
    set (Header_Get r ''Padding'') \<subseteq> set ''!#$()+<>?@[]^`{}~'' \<and>
    (request ''Padding-Type-Request'' \<noteq> None \<longrightarrow> Header_Get r ''Padding-Type-Reply'' = Itoa paddingType) \<and>
    (\<forall>key. key \<noteq> ''Padding'' \<and> (key \<noteq> ''Padding-Type-Reply'' \<or> request ''Padding-Type-Request'' = None) \<longrightarrow>
       r key = response key)"
proof -
  let ?padding = "random_padding 16 bits @ replicate (draw mod 32 + 30 - 16) CHR ''~''"
  have "''!#$()+<>?@[]^`{}~'' = padding_chars @ ''~''" by (simp add: padding_chars_def)
  then have p: "length ?padding = draw mod 32 + 30" "set ?padding \<subseteq> set ''!#$()+<>?@[]^`{}~''"
    using random_padding_chars [of 16 bits] by (auto simp only: length_random_padding length_append length_replicate
        set_append set_replicate_conv_if list.set split: if_splits)
  have "draw mod 32 \<le> 31" by presburger
  have g: "Header_Get r ''Padding'' = ?padding"
    by (simp add: assms(2) setNaivePaddingResponseHeaders_def Header_Get_def Header_Set_def Let_def
        naivePaddingTypeReplyHeader_def canonical_padding_keys)
  have "paddingType \<in> {0, 1}"
    using assms(1) by (auto simp: negotiateNaivePadding_def naivePaddingNone_def naivePaddingVariant1_def
        split: option.splits list.splits if_splits)
  moreover have "request ''Padding-Type-Request'' \<noteq> None \<longrightarrow> Header_Get r ''Padding-Type-Reply'' = Itoa paddingType"
    by (auto simp: assms(2) setNaivePaddingResponseHeaders_def Let_def naivePaddingTypeRequestHeader_def
        naivePaddingTypeReplyHeader_def canonical_padding_keys)
  moreover have "\<forall>key. key \<noteq> ''Padding'' \<and> (key \<noteq> ''Padding-Type-Reply'' \<or> request ''Padding-Type-Request'' = None) \<longrightarrow>
      r key = response key"
    by (auto simp: assms(2) setNaivePaddingResponseHeaders_def Let_def naivePaddingTypeRequestHeader_def
        naivePaddingTypeReplyHeader_def canonical_padding_keys Header_Set_def)
  ultimately show ?thesis using p \<open>draw mod 32 \<le> 31\<close> unfolding g by simp
qed

theorem padding_headers_witness:
  "Header_Get (setNaivePaddingResponseHeaders 5 0 Map.empty [''Padding-Type-Request'' \<mapsto> [''1, 0'']] 1) ''Padding-Type-Reply'' = ''1''"
proof -
  have "TrimSpace ''1'' = ''1''" by (rule TrimSpace_id) (simp add: graphic_def byte_of_def)
  then have "negotiateNaivePadding [''Padding-Type-Request'' \<mapsto> [''1, 0'']] = Inr 1"
    by (simp add: negotiateNaivePadding_def naivePaddingTypeRequestHeader_def canonical_padding_keys naivePaddingVariant1_def)
  from padding_headers [OF this refl, of 5 0 Map.empty] show ?thesis by (simp add: Itoa_def nat_digits.simps digit_char_eval)
qed

end
