(* ===== verification/Forwarding.thy ===== *)
theory Forwarding
  imports Go_Io Go_Http
begin

text \<open>
  Forwarded messages of \<open>forwardproxy.go\<close>: the removal of hop-by-hop headers and the relaying of a
  response.  The header of a response is the list of its entries in the order in which the range
  loop visits them.
\<close>

section \<open>Hop-by-hop headers\<close>

definition hopByHopHeaders :: "string list" where
  "hopByHopHeaders = [''Keep-Alive'', ''Proxy-Authenticate'', ''Proxy-Authorization'', ''Upgrade'', ''Connection'',
     ''Proxy-Connection'', ''Te'', ''Trailer'', ''Transfer-Encoding'']"

definition removeHopByHop :: "header \<Rightarrow> header" where
  "removeHopByHop header =
     (let connectionHeaders = Header_Get header ''Connection'' in
      foldl Header_Del (foldl (\<lambda>h k. Header_Del h (TrimSpace k)) header (Split connectionHeaders CHR '','')) hopByHopHeaders)"

section \<open>Responses\<close>

record response =
  res_ProtoMajor :: int
  res_ProtoMinor :: int
  res_StatusCode :: int
  res_Header :: "(string \<times> string list) list"
  res_Body :: reader

fun add_values :: "header \<Rightarrow> string \<Rightarrow> string list \<Rightarrow> header" where
  "add_values h k [] = h"
| "add_values h k (v # vs) = add_values (Header_Add h k v) k vs"

fun add_headers :: "header \<Rightarrow> (string \<times> string list) list \<Rightarrow> header" where
  "add_headers h [] = h"
| "add_headers h ((k, vs) # rest) = add_headers (add_values h k vs) rest"

text \<open>The header and the status written; the body is then copied from \<open>res_Body\<close>, and \<open>copied\<close>, the
  error of that copy, is returned.\<close>

definition forwardResponse :: "goerror option \<Rightarrow> header \<Rightarrow> response \<Rightarrow> goerror option \<times> header \<times> int \<times> reader" where
  "forwardResponse copied w response =
     (let w1 = Header_Del w ''Server'';
          w2 = Header_Add w1 ''Via'' (Itoa (res_ProtoMajor response) @ ''.'' @ Itoa (res_ProtoMinor response) @ '' caddy'');
          w3 = add_headers w2 (res_Header response)
      in (copied, removeHopByHop w3, res_StatusCode response, res_Body response))"

section \<open>Facts\<close>

lemma foldl_Del: "foldl (\<lambda>h k. Header_Del h (f k)) h ks key = (if key \<in> (\<lambda>k. CanonicalHeaderKey (f k)) ` set ks then None else h key)"
  by (induction ks arbitrary: h) (auto simp: Header_Del_def)

lemma canonical_hop_headers: "map CanonicalHeaderKey hopByHopHeaders = hopByHopHeaders"
  by code_simp

lemma hop_headers_image: "CanonicalHeaderKey ` set hopByHopHeaders = set hopByHopHeaders"
  using arg_cong [OF canonical_hop_headers, of set] by simp

text \<open>The header names a connection header lists.\<close>

definition listed_headers :: "string \<Rightarrow> string set" where
  "listed_headers s = (\<lambda>k. CanonicalHeaderKey (TrimSpace k)) ` set (Split s CHR '','')"

lemma removeHopByHop_eq:
  "removeHopByHop h key =
     (if key \<in> set hopByHopHeaders \<union> listed_headers (Header_Get h ''Connection'') then None else h key)"
  using foldl_Del [of "\<lambda>k. k" _ hopByHopHeaders key]
  by (simp add: removeHopByHop_def Let_def foldl_Del hop_headers_image listed_headers_def)

lemma canonical_Connection: "CanonicalHeaderKey ''Connection'' = ''Connection''"
  by code_simp

text \<open>
  (C35) Removing hop-by-hop headers removes exactly the nine fixed headers and those that the first
  connection header line lists; every other header keeps its values.  A header that only a second
  connection header line lists is therefore forwarded.
\<close>

theorem hop_by_hop_removed:
  "removeHopByHop h key =
     (if key \<in> set [''Keep-Alive'', ''Proxy-Authenticate'', ''Proxy-Authorization'', ''Upgrade'', ''Connection'',
           ''Proxy-Connection'', ''Te'', ''Trailer'', ''Transfer-Encoding''] \<or>
         (\<exists>name \<in> set (Split (case h ''Connection'' of Some (line # _) \<Rightarrow> line | _ \<Rightarrow> []) CHR '','').
            key = CanonicalHeaderKey (TrimSpace name))
      then None else h key) \<and>
   removeHopByHop [''Connection'' \<mapsto> [''close'', ''X-Secret''], ''X-Secret'' \<mapsto> [''s'']] ''X-Secret'' = Some [''s'']"
proof
  show "removeHopByHop h key =
     (if key \<in> set [''Keep-Alive'', ''Proxy-Authenticate'', ''Proxy-Authorization'', ''Upgrade'', ''Connection'',
           ''Proxy-Connection'', ''Te'', ''Trailer'', ''Transfer-Encoding''] \<or>
         (\<exists>name \<in> set (Split (case h ''Connection'' of Some (line # _) \<Rightarrow> line | _ \<Rightarrow> []) CHR '','').
            key = CanonicalHeaderKey (TrimSpace name))
      then None else h key)"
    unfolding removeHopByHop_eq hopByHopHeaders_def listed_headers_def Header_Get_def canonical_Connection by auto
  have "CanonicalHeaderKey (TrimSpace ''close'') = ''Close''"
    by (subst TrimSpace_id) (simp add: graphic_def byte_of_def, code_simp)
  then show "removeHopByHop [''Connection'' \<mapsto> [''close'', ''X-Secret''], ''X-Secret'' \<mapsto> [''s'']] ''X-Secret'' = Some [''s'']"
    by (simp add: removeHopByHop_eq Header_Get_def canonical_Connection listed_headers_def hopByHopHeaders_def)
qed

lemma add_values_eq:
  "add_values h k vs = (if vs = [] then h else h(CanonicalHeaderKey k \<mapsto>
     (case h (CanonicalHeaderKey k) of None \<Rightarrow> [] | Some us \<Rightarrow> us) @ vs))"
  by (induction vs arbitrary: h) (auto simp: Header_Add_def)

lemma add_headers_eq:
  "add_headers h entries key =
     (let vs = concat (map snd (filter (\<lambda>(k, vs). CanonicalHeaderKey k = key) entries))
      in if vs = [] then h key else Some ((case h key of None \<Rightarrow> [] | Some us \<Rightarrow> us) @ vs))"
  by (induction h entries rule: add_headers.induct) (auto simp: add_values_eq Let_def split: option.splits)

lemma canonical_Server_Via: "CanonicalHeaderKey ''Server'' = ''Server''" "CanonicalHeaderKey ''Via'' = ''Via''"
  by code_simp+

text \<open>
  A relayed response keeps its status, its body and its end-to-end headers: apart from \<open>Server\<close>
  and \<open>Via\<close>, a header that is neither fixed hop-by-hop nor listed by the connection header has the
  values already set on the response followed by the upstream's values in order, and a fixed
  hop-by-hop header of the upstream never reaches the client.
\<close>

theorem forward_response_headers:
  assumes "forwardResponse copied w response = (err, w', status, body)"
  defines "upstream_values \<equiv> \<lambda>response key. concat (map snd (filter (\<lambda>(k, vs). CanonicalHeaderKey k = key) (res_Header response)))"
  defines "own_values \<equiv> \<lambda>w key. case w key of None \<Rightarrow> [] | Some us \<Rightarrow> us"
  shows "status = res_StatusCode response \<and> body = res_Body response \<and>
    (key \<in> set hopByHopHeaders \<longrightarrow> w' key = None) \<and>
    (key \<notin> set hopByHopHeaders \<and> key \<notin> {''Server'', ''Via''} \<and>
     key \<notin> listed_headers (case own_values w ''Connection'' @ upstream_values response ''Connection'' of v # _ \<Rightarrow> v | [] \<Rightarrow> []) \<longrightarrow>
     w' key = (if upstream_values response key = [] then w key else Some (own_values w key @ upstream_values response key)))"
proof -
  let ?w2 = "Header_Add (Header_Del w ''Server'') ''Via'' (Itoa (res_ProtoMajor response) @ ''.'' @ Itoa (res_ProtoMinor response) @ '' caddy'')"
  let ?w3 = "add_headers ?w2 (res_Header response)"
  from assms(1) have r: "w' = removeHopByHop ?w3" "status = res_StatusCode response" "body = res_Body response"
    by (simp_all add: forwardResponse_def Let_def)
  have w3: "?w3 key = (if upstream_values response key = [] then w key
      else Some (own_values w key @ upstream_values response key))" if "key \<notin> {''Server'', ''Via''}" for key
  proof -
    have "?w2 key = w key" using that by (simp add: Header_Add_def Header_Del_def canonical_Server_Via)
    then show ?thesis by (simp only: add_headers_eq Let_def assms(2,3))
  qed
  have "Header_Get ?w3 ''Connection'' = (case own_values w ''Connection'' @ upstream_values response ''Connection'' of
      v # _ \<Rightarrow> v | [] \<Rightarrow> [])"
    using w3 [of "''Connection''"] by (auto simp: Header_Get_def canonical_Connection assms(3) split: option.splits list.splits)
  with r w3 [of key] show ?thesis by (auto simp: removeHopByHop_eq)
qed

end
