(* ===== verification/Go_Base64.thy ===== *)
theory Go_Base64
  imports Go_Strings
begin

text \<open>
  The standard encoding of package \<open>encoding/base64\<close>: \<open>Encode\<close> with padding, and \<open>Decode\<close>, which
  skips line breaks, accepts any trailing bits and reports the offset of the first bad byte.
\<close>

section \<open>Alphabet\<close>

definition base64_char :: "nat \<Rightarrow> char" where
  "base64_char n = char_of
     (if n < 26 then 65 + n else if n < 52 then 71 + n else if n < 62 then n - 4 else if n = 62 then 43 else 47)"

definition base64_value :: "char \<Rightarrow> nat option" where
  "base64_value c =
     (if is_upper c then Some (byte_of c - 65)
      else if is_lower c then Some (byte_of c - 71)
      else if is_digit c then Some (byte_of c + 4)
      else if byte_of c = 43 then Some 62
      else if byte_of c = 47 then Some 63
      else None)"

abbreviation pad_char :: char where "pad_char \<equiv> CHR ''=''"

section \<open>Encoding\<close>

fun base64_encode :: "string \<Rightarrow> string" where
  "base64_encode [] = []"
| "base64_encode [a] = [base64_char (byte_of a div 4), base64_char (byte_of a mod 4 * 16), pad_char, pad_char]"
| "base64_encode [a, b] =
     [base64_char (byte_of a div 4), base64_char (byte_of a mod 4 * 16 + byte_of b div 16),
      base64_char (byte_of b mod 16 * 4), pad_char]"
| "base64_encode (a # b # c # s) =
     [base64_char (byte_of a div 4), base64_char (byte_of a mod 4 * 16 + byte_of b div 16),
      base64_char (byte_of b mod 16 * 4 + byte_of c div 64), base64_char (byte_of c mod 64)] @ base64_encode s"

section \<open>Decoding\<close>

text \<open>\<open>CorruptInputError\<close> carries an offset.  \<open>decodeQuantum\<close> reads up to four values, skipping line
  breaks, from the offset \<open>si\<close>; its result is the new offset with what follows, the decoded bytes,
  and the error.\<close>

definition line_break :: "char \<Rightarrow> bool" where
  "line_break c \<longleftrightarrow> byte_of c = 10 \<or> byte_of c = 13"

fun skip_breaks :: "nat \<Rightarrow> string \<Rightarrow> nat \<times> string" where
  "skip_breaks si [] = (si, [])"
| "skip_breaks si (c # s) = (if line_break c then skip_breaks (Suc si) s else (si, c # s))"

text \<open>The bytes of the values read (all four, or the first two or three before the padding).\<close>

fun quantum_bytes :: "nat list \<Rightarrow> string" where
  "quantum_bytes [a, b] = [char_of (a * 4 + b div 16)]"
| "quantum_bytes [a, b, c] = [char_of (a * 4 + b div 16), char_of (b mod 16 * 16 + c div 4)]"
| "quantum_bytes [a, b, c, d] =
     [char_of (a * 4 + b div 16), char_of (b mod 16 * 16 + c div 4), char_of (c mod 4 * 64 + d)]"
| "quantum_bytes _ = []"

text \<open>The part of \<open>decodeQuantum\<close> after the first padding character.\<close>

definition quantum_padding :: "nat list \<Rightarrow> nat \<Rightarrow> string \<Rightarrow> (nat \<times> string) \<times> string \<times> nat option" where
  "quantum_padding vals si s =
     (let finish = (\<lambda>si s. case skip_breaks si s of (si', s') \<Rightarrow>
            ((si', s'), quantum_bytes vals, if s' = [] then None else Some si'))
      in if length vals < 2 then ((si, s), [], Some (si - 1))
         else if length vals = 2 then
           (case skip_breaks si s of
              (si', []) \<Rightarrow> ((si', []), [], Some si')
            | (si', c # s') \<Rightarrow>
                if c \<noteq> pad_char then ((si', c # s'), [], Some (si' - 1)) else finish (Suc si') s')
         else finish si s)"

fun decodeQuantum :: "nat list \<Rightarrow> nat \<Rightarrow> string \<Rightarrow> (nat \<times> string) \<times> string \<times> nat option" where
  "decodeQuantum vals si [] =
     (if length vals = 4 then ((si, []), quantum_bytes vals, None)
      else if length vals = 0 then ((si, []), [], None)
      else ((si, []), [], Some (si - length vals)))"
| "decodeQuantum vals si (c # s) =
     (if length vals = 4 then ((si, c # s), quantum_bytes vals, None)
      else
        (case base64_value c of
           Some v \<Rightarrow> decodeQuantum (vals @ [v]) (Suc si) s
         | None \<Rightarrow>
             if line_break c then decodeQuantum vals (Suc si) s
             else if c \<noteq> pad_char then ((Suc si, s), [], Some si)
             else quantum_padding vals (Suc si) s))"

lemma skip_breaks_le: "skip_breaks si s = (si', s') \<Longrightarrow> length s' \<le> length s"
  by (induction si s rule: skip_breaks.induct) (auto split: if_splits)

lemma quantum_padding_le: "quantum_padding vals si s = ((si', s'), out, e) \<Longrightarrow> length s' \<le> length s"
  by (auto simp: quantum_padding_def Let_def split: if_splits prod.splits list.splits dest!: skip_breaks_le)

lemma decodeQuantum_le: "decodeQuantum vals si s = ((si', s'), out, e) \<Longrightarrow> length s' \<le> length s"
proof (induction vals si s rule: decodeQuantum.induct)
  case (2 vals si c s)
  then show ?case
    by (auto split: if_splits option.splits dest!: quantum_padding_le)
qed (auto split: if_splits)

lemma decodeQuantum_less:
  "decodeQuantum [] si (c # s) = ((si', s'), out, e) \<Longrightarrow> length s' < length (c # s)"
  by (auto split: if_splits option.splits dest!: quantum_padding_le decodeQuantum_le)

text \<open>\<open>Decode\<close> from an offset on: the bytes decoded and the error.\<close>

function base64_decode_from :: "nat \<Rightarrow> string \<Rightarrow> string \<times> nat option" where
  "base64_decode_from si [] = ([], None)"
| "base64_decode_from si (c # s) =
     (case decodeQuantum [] si (c # s) of
        ((si', s'), out, Some off) \<Rightarrow> (out, Some off)
      | ((si', s'), out, None) \<Rightarrow>
          (case base64_decode_from si' s' of (more, err) \<Rightarrow> (out @ more, err)))"
  by pat_completeness auto
termination
  by (relation "measure (\<lambda>(si, s). length s)") (auto dest: decodeQuantum_less [OF sym] simp del: decodeQuantum.simps)

declare base64_decode_from.simps(2) [simp del]

definition base64_decode :: "string \<Rightarrow> string \<times> nat option" where
  "base64_decode s = base64_decode_from 0 s"

definition DecodedLen :: "nat \<Rightarrow> nat" where
  "DecodedLen n = n div 4 * 3"

section \<open>Round trip\<close>

lemma base64_value_char: "n < 64 \<Longrightarrow> base64_value (base64_char n) = Some n"
  by (auto simp: base64_value_def base64_char_def is_upper_def is_lower_def is_digit_def)

lemma quantum_step:
  "n < 64 \<Longrightarrow> length vals < 4 \<Longrightarrow>
     decodeQuantum vals si (base64_char n # s) = decodeQuantum (vals @ [n]) (Suc si) s"
  by (simp add: base64_value_char)

lemma base64_value_pad [simp]: "base64_value pad_char = None" "\<not> line_break pad_char"
  by (simp_all add: base64_value_def line_break_def is_upper_def is_lower_def is_digit_def byte_of_def)

lemma quantum_pad:
  "length vals < 4 \<Longrightarrow> decodeQuantum vals si (pad_char # s) = quantum_padding vals (Suc si) s"
  by simp

lemma quantum_full: "decodeQuantum [a, b, c, d] si s = ((si, s), quantum_bytes [a, b, c, d], None)"
  by (cases s) simp_all

lemmas quantum_simps = base64_decode_from.simps(2) quantum_step quantum_pad quantum_full quantum_padding_def

lemma sextets:
  fixes a b c :: nat
  assumes "a < 256" and "b < 256" and "c < 256"
  shows "a div 4 < 64" "a mod 4 * 16 + b div 16 < 64" "b mod 16 * 4 + c div 64 < 64" "c mod 64 < 64"
    "a div 4 * 4 + (a mod 4 * 16 + b div 16) div 16 = a"
    "(a mod 4 * 16 + b div 16) mod 16 * 16 + (b mod 16 * 4 + c div 64) div 4 = b"
    "(b mod 16 * 4 + c div 64) mod 4 * 64 + c mod 64 = c"
proof -
  have d: "b div 16 < 16" "c div 64 < 4" using assms by simp_all
  have m: "a mod 4 < 4" "b mod 16 < 16" by simp_all
  show "a div 4 < 64" "c mod 64 < 64" using assms by simp_all
  show "a mod 4 * 16 + b div 16 < 64" "b mod 16 * 4 + c div 64 < 64" using m d by linarith+
  show "a div 4 * 4 + (a mod 4 * 16 + b div 16) div 16 = a" using d by simp
  show "(a mod 4 * 16 + b div 16) mod 16 * 16 + (b mod 16 * 4 + c div 64) div 4 = b" using d by simp
  show "(b mod 16 * 4 + c div 64) mod 4 * 64 + c mod 64 = c" using d by simp
qed

lemma decode_encode_from: "base64_decode_from si (base64_encode s) = (s, None)"
proof (induction s arbitrary: si rule: base64_encode.induct)
  case (2 a)
  from sextets [of "byte_of a" 0 0] have
    "byte_of a div 4 < 64" "byte_of a mod 4 * 16 < 64" "byte_of a div 4 * 4 + byte_of a mod 4 * 16 div 16 = byte_of a" by simp_all
  then show ?case
    by (simp add: quantum_simps del: decodeQuantum.simps)
next
  case (3 a b)
  from sextets [of "byte_of a" "byte_of b" 0] show ?case
    by (simp add: quantum_simps del: decodeQuantum.simps)
next
  case (4 a b c s)
  have "byte_of b div 16 < 16" "byte_of c div 64 < 4" using byte_of_less [of b] byte_of_less [of c] by linarith+
  with sextets [of "byte_of a" "byte_of b" "byte_of c"] 4 show ?case
    by (simp add: quantum_simps del: decodeQuantum.simps)
qed simp

theorem base64_roundtrip: "base64_decode (base64_encode s) = (s, None)"
  by (simp add: base64_decode_def decode_encode_from)

lemma base64_encode_inj: "base64_encode s = base64_encode t \<longleftrightarrow> s = t"
  using base64_roundtrip by (metis prod.inject)

end
