(* ===== verification/Auth.thy ===== *)
theory Auth
  imports Handler_State Go_Base64
begin

text \<open>
  Basic authentication: \<open>EncodeAuthCredentials\<close> of \<open>caddyfile.go\<close> and \<open>checkCredentials\<close> of
  \<open>forwardproxy.go\<close>.  \<open>lower\<close> is the Unicode part of \<open>strings.ToLower\<close>.
\<close>

definition EncodeAuthCredentials :: "string \<Rightarrow> string \<Rightarrow> string" where
  "EncodeAuthCredentials user pass = base64_encode (user @ '':'' @ pass)"

text \<open>\<open>utf8.Valid\<close>.\<close>

definition byte_in :: "nat \<Rightarrow> nat \<Rightarrow> char \<Rightarrow> bool" where
  "byte_in lo hi c \<longleftrightarrow> lo \<le> byte_of c \<and> byte_of c \<le> hi"

abbreviation continuation :: "char \<Rightarrow> bool" where "continuation \<equiv> byte_in 128 191"

fun utf8_Valid :: "string \<Rightarrow> bool" where
  "utf8_Valid [] = True"
| "utf8_Valid (a # s) =
     (if byte_of a < 128 then utf8_Valid s
      else if byte_in 194 223 a then
        (case s of b # t \<Rightarrow> continuation b \<and> utf8_Valid t | _ \<Rightarrow> False)
      else if byte_in 224 239 a then
        (case s of
           b # c # t \<Rightarrow>
             byte_in (if byte_of a = 224 then 160 else 128) (if byte_of a = 237 then 159 else 191) b \<and>
             continuation c \<and> utf8_Valid t
         | _ \<Rightarrow> False)
      else if byte_in 240 244 a then
        (case s of
           b # c # d # t \<Rightarrow>
             byte_in (if byte_of a = 240 then 144 else 128) (if byte_of a = 244 then 143 else 191) b \<and>
             continuation c \<and> continuation d \<and> utf8_Valid t
         | _ \<Rightarrow> False)
      else False)"

definition CorruptInputError :: "nat \<Rightarrow> string" where
  "CorruptInputError off = ''illegal base64 data at input byte '' @ nat_digits off"

text \<open>
  The contents of a buffer of \<open>DecodedLen\<close> zero bytes after a credential is decoded into it.
\<close>

definition decoded_buffer :: "string \<Rightarrow> string" where
  "decoded_buffer creds =
     (let out = fst (base64_decode creds)
      in out @ replicate (DecodedLen (length creds) - length out) (char_of (0 :: nat)))"

text \<open>
  The error and the value set for \<open>http.auth.user.id\<close>; \<open>None\<close> is the run-time panic of slicing with
  a negative index.
\<close>

definition checkCredentials :: "(string \<Rightarrow> string) \<Rightarrow> handler \<Rightarrow> header \<Rightarrow> (goerror option \<times> string option) option" where
  "checkCredentials lower h header =
     (case Split (Header_Get header ''Proxy-Authorization'') CHR '' '' of
        [kind, token] \<Rightarrow>
          if ToLower lower kind \<noteq> ''basic'' then Some (Some (ErrorString ''auth type is not supported''), None)
          else
            (case find (\<lambda>creds. creds = token) (case AuthCredentials h of None \<Rightarrow> [] | Some list \<Rightarrow> list) of
               Some creds \<Rightarrow>
                 (let cred = decoded_buffer creds in
                  case IndexByte cred CHR '':'' of None \<Rightarrow> None | Some i \<Rightarrow> Some (None, Some (take i cred)))
             | None \<Rightarrow>
                 (case base64_decode token of
                    (_, Some off) \<Rightarrow>
                      Some (Some (ErrorString (CorruptInputError off)), Some (''invalidbase64:'' @ CorruptInputError off))
                  | (cred, None) \<Rightarrow>
                      let uid = (if utf8_Valid cred
                                 then (case IndexByte cred CHR '':'' of
                                         Some i \<Rightarrow> ''invalid:'' @ take i cred
                                       | None \<Rightarrow> ''invalidformat:'' @ cred)
                                 else ''invalid::'')
                      in Some (Some (ErrorString ''invalid credentials''), Some uid)))
      | _ \<Rightarrow> Some (Some (ErrorString ''Proxy-Authorization is required! Expected format: <type> <credentials>''), None))"

section \<open>Facts\<close>

lemma ToLower_Basic: "ToLower lower ''Basic'' = ''basic''"
proof -
  have "list_all is_ascii ''Basic''" "map ascii_lower ''Basic'' = ''basic''" by code_simp+
  then show ?thesis unfolding ToLower_def by (simp only: if_True)
qed

lemma base64_char_not_space: "n < 64 \<Longrightarrow> base64_char n \<noteq> CHR '' ''"
  using base64_value_char [of n] by (auto simp: base64_value_def is_upper_def is_lower_def is_digit_def byte_of_def)

lemma base64_encode_no_space: "CHR '' '' \<notin> set (base64_encode s)"
proof (induction s rule: base64_encode.induct)
  case (2 a)
  with sextets [of "byte_of a" 0 0] show ?case by (auto dest: sym simp: base64_char_not_space [symmetric])
next
  case (3 a b)
  with sextets [of "byte_of a" "byte_of b" 0] show ?case by (auto dest: sym simp: base64_char_not_space [symmetric])
next
  case (4 a b c s)
  with sextets [of "byte_of a" "byte_of b" "byte_of c"] show ?case by (auto simp: base64_char_not_space [symmetric])
qed simp

lemma decoded_encoded: "\<exists>zeros. decoded_buffer (base64_encode s) = s @ zeros \<and> set zeros \<subseteq> {char_of (0 :: nat)}"
  by (auto simp: decoded_buffer_def base64_roundtrip)

lemma user_of_credential:
  assumes "CHR '':'' \<notin> set u"
  shows "IndexByte (decoded_buffer (EncodeAuthCredentials u p)) CHR '':'' = Some (length u) \<and>
    take (length u) (decoded_buffer (EncodeAuthCredentials u p)) = u"
proof -
  obtain zeros where "decoded_buffer (EncodeAuthCredentials u p) = u @ CHR '':'' # (p @ zeros)"
    using decoded_encoded [of "u @ '':'' @ p"] by (auto simp: EncodeAuthCredentials_def)
  with assms show ?thesis by (simp add: IndexByte_append)
qed

lemma credential_inj:
  assumes "CHR '':'' \<notin> set u" and "CHR '':'' \<notin> set u'" and "EncodeAuthCredentials u p = EncodeAuthCredentials u' p'"
  shows "u = u' \<and> p = p'"
proof -
  from assms(3) have e: "u @ '':'' @ p = u' @ '':'' @ p'" by (simp add: EncodeAuthCredentials_def base64_encode_inj)
  then have "takeWhile (\<lambda>c. c \<noteq> CHR '':'') (u @ CHR '':'' # p) = takeWhile (\<lambda>c. c \<noteq> CHR '':'') (u' @ CHR '':'' # p')" by simp
  with assms(1,2) have "u = u'" by (simp add: takeWhile_neq_append)
  with e show ?thesis by simp
qed

lemma Split_two: "Split s sep = [a, b] \<longleftrightarrow> sep \<notin> set a \<and> sep \<notin> set b \<and> s = a @ sep # b"
proof
  assume "Split s sep = [a, b]"
  with Join_Split [of s sep] Split_no_sep [of _ s sep] show "sep \<notin> set a \<and> sep \<notin> set b \<and> s = a @ sep # b"
    by (auto simp: Join_Cons)
next
  assume "sep \<notin> set a \<and> sep \<notin> set b \<and> s = a @ sep # b"
  then show "Split s sep = [a, b]" by (simp add: Split_append Split_id)
qed

definition configured :: "handler \<Rightarrow> (string \<times> string) list \<Rightarrow> bool" where
  "configured h users \<longleftrightarrow> AuthCredentials h = Some (map (\<lambda>(u, p). EncodeAuthCredentials u p) users) \<and>
     (\<forall>(u, p) \<in> set users. CHR '':'' \<notin> set u)"

lemma find_credential:
  assumes "configured h users"
  shows "find (\<lambda>creds. creds = token) (case AuthCredentials h of None \<Rightarrow> [] | Some list \<Rightarrow> list) =
    (if \<exists>(u, p) \<in> set users. token = EncodeAuthCredentials u p then Some token else None)"
proof -
  have "find (\<lambda>creds. creds = token) cs = (if token \<in> set cs then Some token else None)" for cs
    by (induction cs) auto
  then show ?thesis using assms by (auto simp: configured_def)
qed

lemma authorization_split:
  "v = kind @ '' '' @ EncodeAuthCredentials u p \<and> CHR '' '' \<notin> set kind \<longleftrightarrow>
     Split v CHR '' '' = [kind, EncodeAuthCredentials u p]"
  using base64_encode_no_space by (auto simp: Split_two EncodeAuthCredentials_def)

lemma check_token:
  assumes "configured h users" and "Split (Header_Get header ''Proxy-Authorization'') CHR '' '' = [kind, token]"
    and "ToLower lower kind = ''basic''"
  shows "(u, p) \<in> set users \<Longrightarrow> token = EncodeAuthCredentials u p \<Longrightarrow> checkCredentials lower h header = Some (None, Some u)"
    and "\<not> (\<exists>(u, p) \<in> set users. token = EncodeAuthCredentials u p) \<Longrightarrow>
      \<exists>e uid. checkCredentials lower h header = Some (Some e, uid)"
proof -
  assume "(u, p) \<in> set users" "token = EncodeAuthCredentials u p"
  moreover from this have "CHR '':'' \<notin> set u" using assms(1) by (auto simp: configured_def)
  moreover have "\<exists>(u, p) \<in> set users. token = EncodeAuthCredentials u p" using calculation by blast
  ultimately show "checkCredentials lower h header = Some (None, Some u)"
    using assms(2,3) user_of_credential [of u p]
    by (simp add: checkCredentials_def find_credential [OF assms(1)])
next
  assume "\<not> (\<exists>(u, p) \<in> set users. token = EncodeAuthCredentials u p)"
  with assms(2,3) show "\<exists>e uid. checkCredentials lower h header = Some (Some e, uid)"
    by (simp add: checkCredentials_def find_credential [OF assms(1)] Let_def split: prod.splits option.splits)
qed

definition presents :: "(string \<Rightarrow> string) \<Rightarrow> (string \<times> string) list \<Rightarrow> string \<Rightarrow> string \<Rightarrow> bool" where
  "presents lower users v u \<longleftrightarrow> (\<exists>kind p. Split v CHR '' '' = [kind, EncodeAuthCredentials u p] \<and>
     ToLower lower kind = ''basic'' \<and> (u, p) \<in> set users)"

lemma presents_unique:
  assumes "configured h users" and "presents lower users v u" and "presents lower users v u'"
  shows "u' = u"
proof -
  from assms(2,3) obtain kind p p' where
    "Split v CHR '' '' = [kind, EncodeAuthCredentials u p]" "(u, p) \<in> set users"
    "Split v CHR '' '' = [kind, EncodeAuthCredentials u' p']" "(u', p') \<in> set users"
    by (auto simp: presents_def)
  with assms(1) credential_inj [of u u' p p'] show ?thesis by (auto simp: configured_def)
qed

lemma check_presents:
  assumes "configured h users"
  defines "v \<equiv> \<lambda>header. Header_Get header ''Proxy-Authorization''"
  shows "(\<exists>u. presents lower users (v header) u \<and> checkCredentials lower h header = Some (None, Some u)) \<or>
    (\<nexists>u. presents lower users (v header) u) \<and> (\<exists>e uid. checkCredentials lower h header = Some (Some e, uid))"
proof (cases "\<exists>kind token. Split (v header) CHR '' '' = [kind, token] \<and> ToLower lower kind = ''basic''")
  case True
  then obtain kind token where t: "Split (v header) CHR '' '' = [kind, token]" "ToLower lower kind = ''basic''" by blast
  show ?thesis
  proof (cases "\<exists>(u, p) \<in> set users. token = EncodeAuthCredentials u p")
    case True
    then obtain u p where u: "(u, p) \<in> set users" "token = EncodeAuthCredentials u p" by blast
    from check_token(1) [OF assms(1) t [unfolded v_def] u] t u show ?thesis by (auto simp: presents_def)
  next
    case False
    with check_token(2) [OF assms(1) t [unfolded v_def] False] t show ?thesis by (fastforce simp: presents_def)
  qed
next
  case False
  then have "\<exists>e. checkCredentials lower h header = Some (Some e, None)"
    by (auto simp: checkCredentials_def v_def split: list.splits)
  with False show ?thesis by (auto simp: presents_def)
qed

text \<open>
  Authentication decides as configured: with credentials made from a list of users and
  passwords, the user names without a colon, the check never panics, and it succeeds for exactly
  the header values that consist of the scheme \<open>basic\<close> in any letter case, one space, and the
  encoding of a configured user and password; the identity recorded is that user.
\<close>

theorem auth_decides:
  assumes "AuthCredentials h = Some (map (\<lambda>(u, p). EncodeAuthCredentials u p) users)"
    and "\<forall>(u, p) \<in> set users. CHR '':'' \<notin> set u"
  shows "checkCredentials lower h header \<noteq> None \<and>
    (checkCredentials lower h header = Some (None, uid) \<longleftrightarrow>
     (\<exists>kind u p. Header_Get header ''Proxy-Authorization'' = kind @ '' '' @ EncodeAuthCredentials u p \<and>
        CHR '' '' \<notin> set kind \<and> ToLower lower kind = ''basic'' \<and> (u, p) \<in> set users \<and> uid = Some u))"
proof -
  let ?v = "Header_Get header ''Proxy-Authorization''"
  have c: "configured h users" using assms by (simp add: configured_def)
  have "(\<exists>kind u p. ?v = kind @ '' '' @ EncodeAuthCredentials u p \<and> CHR '' '' \<notin> set kind \<and>
        ToLower lower kind = ''basic'' \<and> (u, p) \<in> set users \<and> uid = Some u) \<longleftrightarrow> (\<exists>u. presents lower users ?v u \<and> uid = Some u)"
    unfolding presents_def authorization_split [symmetric] by blast
  with check_presents [OF c, of lower header] presents_unique [OF c, of lower ?v] show ?thesis by fastforce
qed

text \<open>
  A configured credential whose decoded text has no colon, which the JSON configuration admits,
  makes the check panic for every client that presents it, instead of failing or accepting it.
\<close>

theorem credential_without_colon_panics:
  assumes "CHR '':'' \<notin> set plain" and "base64_encode plain \<in> set (the (AuthCredentials h))" and "AuthCredentials h \<noteq> None"
    and "Header_Get header ''Proxy-Authorization'' = ''Basic '' @ base64_encode plain"
  shows "checkCredentials lower h header = None"
proof -
  have "Split (Header_Get header ''Proxy-Authorization'') CHR '' '' = [''Basic'', base64_encode plain]"
    using base64_encode_no_space [of plain] by (simp add: Split_id assms(4))
  moreover have "ToLower lower ''Basic'' = ''basic''"
    by (rule ToLower_Basic)
  moreover have "find (\<lambda>creds. creds = base64_encode plain) cs = Some (base64_encode plain)" if "base64_encode plain \<in> set cs" for cs
    using that by (induction cs) auto
  moreover have "CHR '':'' \<notin> set (decoded_buffer (base64_encode plain))"
    using decoded_encoded [of plain] assms(1) by (auto simp: byte_of_def dest!: arg_cong [of _ _ byte_of])
  ultimately show ?thesis using assms(2,3) by (auto simp: checkCredentials_def Let_def simp flip: IndexByte_None_iff)
qed

theorem credential_without_colon_panics_witness:
  "checkCredentials (\<lambda>s. s) (new_handler\<lparr>AuthCredentials := Some [base64_encode ''bob'']\<rparr>)
     [CanonicalHeaderKey ''Proxy-Authorization'' \<mapsto> [''Basic '' @ base64_encode ''bob'']] = None"
  by (rule credential_without_colon_panics [of "''bob''"]) (simp_all add: Header_Get_def)

end
