(* ===== verification/Serve_Http.thy ===== *)
theory Serve_Http
  imports Tcp_Connect Udp_Association Naive_Padding Forwarding Auth
begin

text \<open>
  The request handler \<open>ServeHTTP\<close> of \<open>forwardproxy.go\<close> and the functions it calls for the hidden
  page, the PAC file and hijacked connections.  A call yields the error it returns, the response
  header it leaves, the actions it takes in order, and the handler, metrics and request
  afterwards; a run-time panic is \<open>None\<close>.
\<close>

section \<open>Environment and actions\<close>

text \<open>
  What the call meets outside: the host matcher, the drawn numbers, the environment of a CONNECT-UDP
  request, the upstream dialer (with the header it finds in the context), the context's error, the
  race, the results of the response controller with the bytes a hijacked connection has buffered,
  the tunnel's ends, the error of the next handler, the request body, the transport, the upstream
  connection, and the error of copying a response body.
\<close>

record 'c http_env =
  he_lower :: "string \<Rightarrow> string"
  he_hosts :: "request \<Rightarrow> bool"
  he_draw :: nat
  he_bits :: "64 word"
  he_udp :: udp_env
  he_dial :: "header option \<Rightarrow> string \<Rightarrow> string \<Rightarrow> 'c option \<times> goerror option"
  he_ctxErr :: "goerror option"
  he_race :: "string \<Rightarrow> string \<Rightarrow> string \<Rightarrow> goerror + 'c"
  he_flush :: "goerror option"
  he_hijack :: "goerror option"
  he_buffered :: bytes
  he_hijack_flush :: "goerror option"
  he_draws :: "nat \<Rightarrow> nat"
  he_io :: tunnel_io
  he_next :: "request \<Rightarrow> goerror option"
  he_has_body :: bool
  he_read_body :: "goerror option"
  he_close_body :: "goerror option"
  he_round_trip :: "request \<Rightarrow> goerror + response"
  he_upstream_write :: "goerror option"
  he_upstream_read :: "goerror + response"
  he_copy_body :: "goerror option"

datatype 'c action =
    WriteStatus int
  | WriteText string
  | CallNext request
  | ServeUDP "serve_effect list"
  | DialTarget string
  | WriteTarget 'c bytes
  | Tunnel 'c bool
  | CloseClient
  | CloseBody
  | CloseTarget 'c
  | RoundTrip request
  | WriteUpstream 'c request
  | CopyBody reader
  | CloseResponse

record 'c served =
  sv_error :: "goerror option"
  sv_header :: header
  sv_actions :: "'c action list"
  sv_handler :: handler
  sv_metrics :: udpMetrics
  sv_request :: request

section \<open>Pages\<close>

abbreviation newline :: string where "newline \<equiv> [char_of (10 :: nat)]"
abbreviation tab :: string where "tab \<equiv> [char_of (9 :: nat)]"

definition quoted :: "string \<Rightarrow> string" where
  "quoted s = [char_of (34 :: nat)] @ s @ [char_of (34 :: nat)]"

definition hiddenPage :: "string \<Rightarrow> string" where
  "hiddenPage message =
     ''<html>'' @ newline @ ''<head>'' @ newline @ ''  <title>Hidden Proxy Page</title>'' @ newline @ ''</head>'' @ newline @
     ''<body>'' @ newline @ ''<h1>Hidden Proxy Page!</h1>'' @ newline @ message @ ''<br/>'' @ newline @ ''</body>'' @ newline @
     ''</html>''"

definition basicRealm :: string where
  "basicRealm = ''Basic realm='' @ quoted ''Caddy Secure Web Proxy''"

definition serveHiddenPage :: "header \<Rightarrow> goerror option \<Rightarrow> goerror option \<times> header \<times> 'c action list" where
  "serveHiddenPage w authErr =
     (let w1 = Header_Set w ''Content-Type'' ''text/html'' in
      case authErr of
        Some e \<Rightarrow>
          (Some e, Header_Set w1 ''Proxy-Authenticate'' basicRealm,
           [WriteStatus StatusProxyAuthRequired, WriteText (hiddenPage ''Please authenticate yourself to the proxy.'')])
      | None \<Rightarrow>
          (None, w1, [WriteText (hiddenPage
             ''Congratulations, you are successfully authenticated to the proxy! Go browse all the things!'')]))"

definition pacFile :: "string \<Rightarrow> string" where
  "pacFile host =
     newline @ ''function FindProxyForURL(url, host) {'' @ newline @
     tab @ ''if (host === '' @ quoted ''127.0.0.1'' @ '' || host === '' @ quoted ''::1'' @ '' || host === '' @ quoted ''localhost'' @
     '')'' @ newline @ tab @ tab @ ''return '' @ quoted ''DIRECT'' @ '';'' @ newline @
     tab @ ''return '' @ quoted (''HTTPS '' @ host) @ '';'' @ newline @ ''}'' @ newline"

definition shouldServePACFile :: "handler \<Rightarrow> url \<Rightarrow> bool" where
  "shouldServePACFile h u \<longleftrightarrow> length (PACPath h) > 0 \<and> Path u = PACPath h"

definition servePacFile :: "request \<Rightarrow> 'c action list" where
  "servePacFile r = [WriteText (pacFile (Host r))]"

section \<open>Tunnels\<close>

definition stream_error :: "'c http_env \<Rightarrow> bool \<Rightarrow> goerror option" where
  "stream_error env padding = fst (snd (snd (dualStream (he_draws env) (he_io env) padding)))"

definition serveHijack :: "'c http_env \<Rightarrow> 'c \<Rightarrow> goerror option \<times> 'c action list" where
  "serveHijack env conn =
     (case he_hijack env of
        Some err \<Rightarrow> (Some (HandlerError StatusInternalServerError (Errorf ''hijack failed: '' err)), [WriteStatus StatusOK])
      | None \<Rightarrow>
          let pending = (if length (he_buffered env) > 0 then [WriteTarget conn (he_buffered env)] else []) in
          (case he_hijack_flush env of
             Some err \<Rightarrow>
               (Some (HandlerError StatusInternalServerError (Errorf ''failed to flush to client: '' err)),
                [WriteStatus StatusOK] @ pending @ [CloseClient])
           | None \<Rightarrow> (stream_error env False, [WriteStatus StatusOK] @ pending @ [Tunnel conn False, CloseClient])))"

text \<open>The header that goes to the dialer with the context.\<close>

definition contextHeader :: "(string \<Rightarrow> string) \<Rightarrow> handler \<Rightarrow> request \<Rightarrow> header option" where
  "contextHeader lower h r =
     (if HideIP h then None
      else Some (Header_Add
        (\<lambda>k. if ToLower lower k = ''forwarded'' \<or> ToLower lower k = ''x-forwarded-for'' then Header r k else None)
        ''Forwarded'' (''for='' @ quoted (RemoteAddr r))))"

text \<open>The part of the CONNECT branch from the dial on; the deferred calls close the body or the hijacked
  connection first and then the target.\<close>

definition serveTunnel :: "'c http_env \<Rightarrow> handler \<Rightarrow> request \<Rightarrow> int \<Rightarrow> string \<Rightarrow> goerror option \<times> 'c action list" where
  "serveTunnel env h r paddingType hp =
     (case dialContextCheckACL h (he_dial env (contextHeader (he_lower env) h r)) (he_ctxErr env) (he_race env) ''tcp'' hp of
        Inl err \<Rightarrow> (Some err, [DialTarget hp])
      | Inr conn \<Rightarrow>
          (case he_flush env of
             Some err \<Rightarrow>
               (Some (HandlerError StatusInternalServerError (Errorf ''ResponseWriter flush error: '' err)),
                [DialTarget hp, WriteStatus StatusOK, CloseTarget conn])
           | None \<Rightarrow>
               (case (if ProtoMajor r = 1 then serveHijack env conn
                      else (stream_error env (paddingType = naivePaddingVariant1),
                        [Tunnel conn (paddingType = naivePaddingVariant1), CloseBody])) of
                  (err, acts) \<Rightarrow> (err, [DialTarget hp, WriteStatus StatusOK] @ acts @ [CloseTarget conn]))))"

section \<open>Forwarded requests\<close>

text \<open>\<open>Userinfo.String\<close> of package \<open>net/url\<close>.\<close>

definition escape_userinfo :: "string \<Rightarrow> string" where
  "escape_userinfo s =
     concat (map (\<lambda>c. if unreserved c \<or> c \<in> set ''$&+,;='' then [c]
        else [CHR ''%'', upper_hex (byte_of c div 16), upper_hex (byte_of c mod 16)]) s)"

definition Userinfo_String :: "(string \<times> string option) option \<Rightarrow> string" where
  "Userinfo_String ui =
     (case ui of
        None \<Rightarrow> []
      | Some (name, None) \<Rightarrow> escape_userinfo name
      | Some (name, Some password) \<Rightarrow> escape_userinfo name @ '':'' @ escape_userinfo password)"

text \<open>The request as it goes out: scheme and host completed, protocol version, headers.\<close>

definition outgoing :: "handler \<Rightarrow> url \<Rightarrow> request \<Rightarrow> request" where
  "outgoing h u r =
     (let u1 = (if Scheme u = [] then u\<lparr>Scheme := ''http''\<rparr> else u);
          u2 = (if url_Host u1 = [] then u1\<lparr>url_Host := Host r\<rparr> else u1);
          hdr1 = removeHopByHop (Header r);
          hdr2 = (if HideIP h then hdr1 else Header_Add hdr1 ''Forwarded'' (''for='' @ quoted (RemoteAddr r)));
          hdr3 = (if HideVia h then hdr2 else Header_Add hdr2 ''Via'' (Itoa 1 @ ''.'' @ Itoa 1 @ '' caddy''))
      in r\<lparr>URL := Some u2, Proto := ''HTTP/1.1'', ProtoMajor := 1, ProtoMinor := 1, RequestURI := [], Header := hdr3\<rparr>)"

text \<open>For an upstream: its credentials, and the port of the target.\<close>

definition outgoing_upstream :: "url \<Rightarrow> request \<Rightarrow> request" where
  "outgoing_upstream up r =
     (let creds = Userinfo_String (User up);
          hdr = (if creds \<noteq> [] then Header_Set (Header r) ''Proxy-Authorization'' (''Basic '' @ base64_encode creds) else Header r);
          u = the (URL r);
          u' = (if url_Port u = [] then u\<lparr>url_Host := JoinHostPort (url_Host u) ''80''\<rparr> else u)
      in r\<lparr>Header := hdr, URL := Some u'\<rparr>)"

text \<open>
  The response of the transport or of the upstream with the value of \<open>err\<close> after the branch, or an
  error that is returned at once; writing to a nil connection panics.  The upstream branch
  declares an \<open>err\<close> of its own, so the outer one keeps \<open>err0\<close>, the result of splitting the host
  and port at the start of \<open>ServeHTTP\<close>.
\<close>

definition fetch ::
  "'c http_env \<Rightarrow> header option \<Rightarrow> handler \<Rightarrow> goerror option \<Rightarrow> request \<Rightarrow>
     ((goerror + goerror option \<times> response option) \<times> 'c action list) option" where
  "fetch env ctxHeader h err0 r =
     (case upstream h of
        None \<Rightarrow>
          if he_has_body env \<and> Method r \<in> {''GET'', ''HEAD'', ''OPTIONS'', ''TRACE''} \<and> he_read_body env \<noteq> None
          then Some (Inl (HandlerError StatusBadRequest (Errorf ''failed to read request body: '' (the (he_read_body env)))), [])
          else Some (Inr (case he_round_trip env r of Inl err \<Rightarrow> (Some err, None) | Inr response \<Rightarrow> (None, Some response)), [RoundTrip r])
      | Some up \<Rightarrow>
          let r' = outgoing_upstream up r; hp = url_Host (the (URL r')) in
          case he_dial env ctxHeader ''tcp'' hp of
            (_, Some err) \<Rightarrow>
              Some (Inl (HandlerError StatusBadGateway (Errorf ''failed to dial upstream: '' err)), [DialTarget hp])
          | (None, None) \<Rightarrow> None
          | (Some conn, None) \<Rightarrow>
              let acts = [DialTarget hp, WriteUpstream conn r'] in
              Some (case he_upstream_write env of
                 Some err \<Rightarrow> (Inl (HandlerError StatusBadGateway (Errorf ''failed to write upstream request: '' err)), acts)
               | None \<Rightarrow>
                   (case he_upstream_read env of
                      Inl err \<Rightarrow> (Inl (HandlerError StatusBadGateway (Errorf ''failed to read upstream response: '' err)), acts)
                    | Inr response \<Rightarrow> (Inr (err0, Some response), acts))))"

definition is_HandlerError :: "goerror \<Rightarrow> bool" where
  "is_HandlerError e = (case e of HandlerError _ _ \<Rightarrow> True | _ \<Rightarrow> False)"

definition serveForward ::
  "'c http_env \<Rightarrow> header option \<Rightarrow> handler \<Rightarrow> goerror option \<Rightarrow> request \<Rightarrow> header \<Rightarrow>
     (goerror option \<times> header \<times> 'c action list) option" where
  "serveForward env ctxHeader h err0 r w =
     (case fetch env ctxHeader h err0 r of
        None \<Rightarrow> None
      | Some (Inl err, acts) \<Rightarrow> Some (Some err, w, acts)
      | Some (Inr (outer, response), acts) \<Rightarrow>
          let acts1 = acts @ [CloseBody]; closing = (if response \<noteq> None then [CloseResponse] else []) in
          case he_close_body env of
            Some err \<Rightarrow> Some (Some (HandlerError StatusBadGateway (Errorf ''failed to close response body: '' err)), w, acts1)
          | None \<Rightarrow>
              (case outer of
                 Some err \<Rightarrow>
                   Some (Some (if is_HandlerError err then err
                          else HandlerError StatusBadGateway (Errorf ''failed to read response: '' err)), w, acts1 @ closing)
               | None \<Rightarrow>
                   (case response of
                      None \<Rightarrow> None
                    | Some res \<Rightarrow>
                        (case forwardResponse (he_copy_body env) w res of
                           (err, w', status, body) \<Rightarrow>
                             Some (err, w', acts1 @ [WriteStatus status, CopyBody body] @ closing)))))"

section \<open>The handler\<close>

text \<open>The CONNECT branch, after authentication.\<close>

definition serveCONNECT ::
  "'c http_env \<Rightarrow> handler \<Rightarrow> udpMetrics \<Rightarrow> request \<Rightarrow> url \<Rightarrow> header \<Rightarrow> 'c served" where
  "serveCONNECT env h m r u w =
     (let base = \<lparr>sv_error = None, sv_header = w, sv_actions = [], sv_handler = h, sv_metrics = m, sv_request = r\<rparr> in
      case negotiateNaivePadding (Header r) of
        Inl err \<Rightarrow> base\<lparr>sv_error := Some (HandlerError StatusBadRequest err)\<rparr>
      | Inr paddingType \<Rightarrow>
          let base1 = base\<lparr>sv_header := setNaivePaddingResponseHeaders (he_draw env) (he_bits env) w (Header r) paddingType\<rparr> in
          if isConnectUDPRequest r then
            (case serveConnectUDP (he_udp env) h m r of
               (err, h', m', r', effects) \<Rightarrow>
                 base1\<lparr>sv_error := err, sv_actions := [ServeUDP effects], sv_handler := h', sv_metrics := m', sv_request := r'\<rparr>)
          else if isUnsupportedExtendedConnect r then
            base1\<lparr>sv_error := Some (HandlerError StatusNotImplemented ErrConnectUDPUnsupported)\<rparr>
          else if (ProtoMajor r = 2 \<or> ProtoMajor r = 3) \<and> (length (Scheme u) > 0 \<or> length (Path u) > 0) then
            base1\<lparr>sv_error := Some (HandlerError StatusBadRequest
              (ErrorString ''CONNECT request has :scheme and/or :path pseudo-header fields''))\<rparr>
          else
            (case serveTunnel env h r paddingType (if url_Host u = [] then Host r else url_Host u) of
               (err, acts) \<Rightarrow> base1\<lparr>sv_error := err, sv_actions := acts\<rparr>))"

definition serveRequest ::
  "'c http_env \<Rightarrow> handler \<Rightarrow> udpMetrics \<Rightarrow> request \<Rightarrow> url \<Rightarrow> header \<Rightarrow> goerror option \<Rightarrow> 'c served option" where
  "serveRequest env h m r u w authErr =
     (let base = \<lparr>sv_error = None, sv_header = w, sv_actions = [], sv_handler = h, sv_metrics = m, sv_request = r\<rparr>;
          reqHost = (case SplitHostPort (Host r) of Inl _ \<Rightarrow> Host r | Inr (host, _) \<Rightarrow> host);
          err0 = (case SplitHostPort (Host r) of Inl e \<Rightarrow> Some (AddrError e) | Inr _ \<Rightarrow> None)
      in
      if ProbeResistance h \<noteq> None \<and> length (the (ProbeResistance h)) > 0 \<and> reqHost = the (ProbeResistance h) then
        (case serveHiddenPage w authErr of
           (err, w', acts) \<Rightarrow> Some (base\<lparr>sv_error := err, sv_header := w', sv_actions := acts\<rparr>))
      else if he_hosts env r \<and>
              (Method r \<noteq> ''CONNECT'' \<or> authErr \<noteq> None \<and> (\<not> isConnectUDPRequest r \<or> ProbeResistance h \<noteq> None)) then
        (if shouldServePACFile h u then Some (base\<lparr>sv_actions := servePacFile r\<rparr>)
         else Some (base\<lparr>sv_error := he_next env r, sv_actions := [CallNext r]\<rparr>))
      else if authErr \<noteq> None then
        (if ProbeResistance h \<noteq> None then Some (base\<lparr>sv_error := he_next env r, sv_actions := [CallNext r]\<rparr>)
         else Some (base\<lparr>sv_header := Header_Set w ''Proxy-Authenticate'' basicRealm,
                         sv_error := Some (HandlerError StatusProxyAuthRequired (the authErr))\<rparr>))
      else if ProtoMajor r \<noteq> 1 \<and> ProtoMajor r \<noteq> 2 \<and> ProtoMajor r \<noteq> 3 then
        Some (base\<lparr>sv_error := Some (HandlerError StatusHTTPVersionNotSupported
          (ErrorString (''unsupported HTTP major version: '' @ Itoa (ProtoMajor r))))\<rparr>)
      else if Method r = ''CONNECT'' then Some (serveCONNECT env h m r u w)
      else
        (let r' = outgoing h u r in
         case serveForward env (contextHeader (he_lower env) h r) h err0 r' w of
           None \<Rightarrow> None
         | Some (err, w', acts) \<Rightarrow>
             Some (base\<lparr>sv_error := err, sv_header := w', sv_actions := acts,
                        sv_request := (case upstream h of None \<Rightarrow> r' | Some up \<Rightarrow> outgoing_upstream up r')\<rparr>)))"

text \<open>The server sets the URL of every request; a request without one is taken for a panic.\<close>

definition ServeHTTP :: "'c http_env \<Rightarrow> handler \<Rightarrow> udpMetrics \<Rightarrow> request \<Rightarrow> header \<Rightarrow> 'c served option" where
  "ServeHTTP env h m r w =
     (let finish = (\<lambda>s. if isConnectUDPRequest r then s\<lparr>sv_request := redactConnectUDPRequest (sv_request s)\<rparr> else s)
      in case URL r of
           None \<Rightarrow> None
         | Some u \<Rightarrow>
             (case (if AuthCredentials h = None then Some (None, None) else checkCredentials (he_lower env) h (Header r)) of
                None \<Rightarrow> None
              | Some (authErr, _) \<Rightarrow> map_option finish (serveRequest env h m r u w authErr)))"

section \<open>Access without credentials\<close>

fun contacts :: "'c action \<Rightarrow> bool" where
  "contacts (WriteStatus s) = False"
| "contacts (WriteText t) = False"
| "contacts (CallNext r) = False"
| "contacts CloseClient = False"
| "contacts CloseBody = False"
| "contacts CloseResponse = False"
| "contacts _ = True"

lemma ServeHTTP_SomeE:
  assumes "ServeHTTP env h m r w = Some s"
  obtains u authErr uid s' where "URL r = Some u"
    "(if AuthCredentials h = None then Some (None, None) else checkCredentials (he_lower env) h (Header r)) = Some (authErr, uid)"
    "serveRequest env h m r u w authErr = Some s'"
    "s = (if isConnectUDPRequest r then s'\<lparr>sv_request := redactConnectUDPRequest (sv_request s')\<rparr> else s')"
  using assms by (auto simp: ServeHTTP_def Let_def split: option.splits prod.splits)

text \<open>
  (C5) Without valid credentials nothing is proxied: when the credential check fails, no target is
  dialed, no request is forwarded and no CONNECT-UDP association is served; the handler's state
  is unchanged, and the client sees the next handler, the PAC file, the hidden page or an
  authentication error with status 407.
\<close>

theorem unauthenticated_not_proxied:
  assumes "AuthCredentials h \<noteq> None" and "checkCredentials (he_lower env) h (Header r) = Some (Some e, uid)"
    and "ServeHTTP env h m r w = Some s"
  shows "(\<forall>a \<in> set (sv_actions s). \<not> contacts a) \<and> sv_handler s = h \<and> sv_metrics s = m \<and>
    (sv_error s = he_next env r \<and> sv_actions s = [CallNext r] \<or> sv_error s \<in> {None, Some e, Some (HandlerError 407 e)})"
  using assms(3)
proof (rule ServeHTTP_SomeE)
  fix u authErr uid' s'
  assume a: "(if AuthCredentials h = None then Some (None, None) else checkCredentials (he_lower env) h (Header r)) = Some (authErr, uid')"
    "serveRequest env h m r u w authErr = Some s'"
    "s = (if isConnectUDPRequest r then s'\<lparr>sv_request := redactConnectUDPRequest (sv_request s')\<rparr> else s')"
  from a(1) assms(1,2) have "authErr = Some e" by simp
  with a(2) have "(\<forall>a \<in> set (sv_actions s'). \<not> contacts a) \<and> sv_handler s' = h \<and> sv_metrics s' = m \<and>
      (sv_error s' = he_next env r \<and> sv_actions s' = [CallNext r] \<or> sv_error s' \<in> {None, Some e, Some (HandlerError 407 e)})"
    by (auto simp: serveRequest_def Let_def serveHiddenPage_def servePacFile_def split: if_splits)
  with a(3) show ?thesis by simp
qed

text \<open>
  (C15) Probe resistance: with probe resistance configured and the credential check failing, a request
  for any host but the secret domain is handed unchanged to the next handler, as if there were no
  proxy: nothing else is done, no response header is touched and that handler's result is returned.  The only
  exception is a request for the PAC file on a matching host, which is answered with that file.
\<close>

theorem probe_resistance_transparent:
  assumes "ProbeResistance h = Some domain" and "AuthCredentials h \<noteq> None"
    and "checkCredentials (he_lower env) h (Header r) = Some (Some e, uid)"
    and "(case SplitHostPort (Host r) of Inl _ \<Rightarrow> Host r | Inr (host, _) \<Rightarrow> host) \<noteq> domain \<or> domain = []"
    and "ServeHTTP env h m r w = Some s"
  shows "sv_header s = w \<and>
    (sv_actions s = [CallNext r] \<and> sv_error s = he_next env r \<or>
     sv_actions s = [WriteText (pacFile (Host r))] \<and> sv_error s = None \<and> he_hosts env r \<and> (\<exists>u. URL r = Some u \<and> Path u = PACPath h \<and> PACPath h \<noteq> []))"
  using assms(5)
proof (rule ServeHTTP_SomeE)
  fix u authErr uid' s'
  assume a: "URL r = Some u"
    "(if AuthCredentials h = None then Some (None, None) else checkCredentials (he_lower env) h (Header r)) = Some (authErr, uid')"
    "serveRequest env h m r u w authErr = Some s'"
    "s = (if isConnectUDPRequest r then s'\<lparr>sv_request := redactConnectUDPRequest (sv_request s')\<rparr> else s')"
  from a(2) assms(2,3) have "authErr = Some e" by simp
  with a(1,3) assms(1,4) have "sv_header s' = w \<and>
      (sv_actions s' = [CallNext r] \<and> sv_error s' = he_next env r \<or>
       sv_actions s' = [WriteText (pacFile (Host r))] \<and> sv_error s' = None \<and> he_hosts env r \<and> (\<exists>u. URL r = Some u \<and> Path u = PACPath h \<and> PACPath h \<noteq> []))"
    by (auto simp: serveRequest_def Let_def servePacFile_def shouldServePACFile_def split: if_splits)
  with a(4) show ?thesis by simp
qed

section \<open>Forwarded requests carry no proxy credentials\<close>

lemma canonical_forwarding_keys:
  "CanonicalHeaderKey ''Forwarded'' = ''Forwarded''" "CanonicalHeaderKey ''Proxy-Authorization'' = ''Proxy-Authorization''"
  by code_simp+

lemma outgoing_credentials: "Header (outgoing h u r) ''Proxy-Authorization'' = None"
proof -
  have "removeHopByHop (Header r) ''Proxy-Authorization'' = None" by (simp add: removeHopByHop_eq hopByHopHeaders_def)
  then show ?thesis by (simp add: outgoing_def Let_def Header_Add_def canonical_forwarding_keys canonical_Server_Via)
qed

lemma fetch_requests:
  assumes "fetch env ctx h err0 r = Some (res, acts)"
  shows "RoundTrip r' \<in> set acts \<Longrightarrow> r' = r"
    and "WriteUpstream c r' \<in> set acts \<Longrightarrow> \<exists>up. upstream h = Some up \<and> r' = outgoing_upstream up r"
  using assms by (auto simp: fetch_def Let_def split: option.splits if_splits prod.splits sum.splits)

lemma serveForward_requests:
  assumes "serveForward env ctx h err0 r w = Some (err, w', acts)"
  shows "RoundTrip r' \<in> set acts \<Longrightarrow> r' = r"
    and "WriteUpstream c r' \<in> set acts \<Longrightarrow> \<exists>up. upstream h = Some up \<and> r' = outgoing_upstream up r"
  using assms fetch_requests [of env ctx h err0 r]
  by (auto simp: serveForward_def Let_def split: option.splits sum.splits prod.splits if_splits)

lemma serveTunnel_actions:
  "serveTunnel env h r pt hp = (err, acts) \<Longrightarrow> RoundTrip r' \<notin> set acts \<and> WriteUpstream c r' \<notin> set acts"
  by (auto simp: serveTunnel_def serveHijack_def Let_def split: sum.splits option.splits prod.splits if_splits)

lemma serveCONNECT_actions:
  "RoundTrip r' \<notin> set (sv_actions (serveCONNECT env h m r u w))" "WriteUpstream c r' \<notin> set (sv_actions (serveCONNECT env h m r u w))"
  using serveTunnel_actions [of env h r _ _ _ _ r' c]
  by (auto simp: serveCONNECT_def Let_def split: sum.splits prod.splits)

lemma serveRequest_requests:
  assumes "serveRequest env h m r u w authErr = Some s"
  shows "RoundTrip r' \<in> set (sv_actions s) \<Longrightarrow> r' = outgoing h u r"
    and "WriteUpstream c r' \<in> set (sv_actions s) \<Longrightarrow> \<exists>up. upstream h = Some up \<and> r' = outgoing_upstream up (outgoing h u r)"
  using assms serveForward_requests [of env _ h _ "outgoing h u r" w]
  by (auto simp: serveRequest_def Let_def serveHiddenPage_def servePacFile_def serveCONNECT_actions
      split: if_splits option.splits prod.splits)

text \<open>
  (C14) Proxy credentials stay with the proxy: a request that is forwarded to its target carries no
  \<open>Proxy-Authorization\<close> header, and a request sent through an upstream proxy carries the upstream's
  own credentials there, if it has any, and otherwise none; so the client's credentials are never
  passed on.  With \<open>hide_ip\<close> no \<open>Forwarded\<close> header is added.
\<close>

theorem credentials_not_forwarded:
  assumes "ServeHTTP env h m r w = Some s"
  shows "(RoundTrip r' \<in> set (sv_actions s) \<longrightarrow> Header r' ''Proxy-Authorization'' = None \<and>
      (HideIP h \<longrightarrow> Header r' ''Forwarded'' \<in> {None, Header r ''Forwarded''})) \<and>
    (WriteUpstream c r' \<in> set (sv_actions s) \<longrightarrow> (\<exists>up. upstream h = Some up \<and>
      Header r' ''Proxy-Authorization'' = (if Userinfo_String (User up) = [] then None
        else Some [''Basic '' @ base64_encode (Userinfo_String (User up))])))"
proof -
  from assms obtain u authErr s' where u: "serveRequest env h m r u w authErr = Some s'" "sv_actions s = sv_actions s'"
    by (rule ServeHTTP_SomeE) (auto split: if_splits)
  have "Header (outgoing h u r) ''Forwarded'' \<in> {None, Header r ''Forwarded''}" if "HideIP h"
    using that by (auto simp: outgoing_def Let_def Header_Add_def canonical_Server_Via removeHopByHop_eq)
  moreover have "Header (outgoing_upstream up (outgoing h u r)) ''Proxy-Authorization'' =
      (if Userinfo_String (User up) = [] then None else Some [''Basic '' @ base64_encode (Userinfo_String (User up))])" for up
    using outgoing_credentials [of h u r] by (simp add: outgoing_upstream_def Let_def Header_Set_def canonical_forwarding_keys)
  ultimately show ?thesis
    using serveRequest_requests(1) [OF u(1), of r'] serveRequest_requests(2) [OF u(1), of c r'] outgoing_credentials [of h u r]
    unfolding u(2) by (intro conjI impI) (simp, simp, metis)
qed

section \<open>Requests through an upstream\<close>

lemma serveForward_upstream:
  assumes "serveForward env ctx h err0 r w = Some (err, w', acts)" and "WriteUpstream c r' \<in> set acts"
  shows "CloseTarget c' \<notin> set acts \<and>
    (\<forall>e. err0 = Some (AddrError e) \<longrightarrow> (\<forall>b. CopyBody b \<notin> set acts) \<and> (\<exists>e'. err = Some (HandlerError 502 e')) \<and>
      (he_upstream_write env = None \<and> \<not> isl (he_upstream_read env) \<and> he_close_body env = None \<longrightarrow>
        err = Some (HandlerError 502 (Errorf ''failed to read response: '' (AddrError e)))))"
  using assms
  by (auto simp: serveForward_def fetch_def Let_def is_HandlerError_def isl_def
      split: option.splits sum.splits prod.splits if_splits)

lemma serveRequest_upstream:
  assumes "serveRequest env h m r u w authErr = Some s" and "WriteUpstream c r' \<in> set (sv_actions s)"
  obtains ctx w' where "serveForward env ctx h (case SplitHostPort (Host r) of Inl e \<Rightarrow> Some (AddrError e) | Inr _ \<Rightarrow> None)
    (outgoing h u r) w = Some (sv_error s, w', sv_actions s)"
  using assms
  by (auto simp: serveRequest_def Let_def serveHiddenPage_def servePacFile_def serveCONNECT_actions
      split: if_splits option.splits prod.splits)

text \<open>
  Through an upstream, a request whose host has no port always fails.  The error of splitting its
  host is still in the outer variable when the answer of the upstream has been read, so the client
  gets status 502 with that error instead of the response, whatever the upstream answered.  In any
  case the connection to the upstream is not closed by the handler.
\<close>

theorem upstream_host_without_port_fails:
  assumes "ServeHTTP env h m r w = Some s" and "WriteUpstream c r' \<in> set (sv_actions s)"
  shows "CloseTarget c' \<notin> set (sv_actions s) \<and>
    (\<forall>e. SplitHostPort (Host r) = Inl e \<longrightarrow>
      (\<forall>b. CopyBody b \<notin> set (sv_actions s)) \<and> (\<exists>e'. sv_error s = Some (HandlerError 502 e')) \<and>
      (he_upstream_write env = None \<and> \<not> isl (he_upstream_read env) \<and> he_close_body env = None \<longrightarrow>
        sv_error s = Some (HandlerError 502 (Errorf ''failed to read response: '' (AddrError e)))))"
  using assms(1)
proof (rule ServeHTTP_SomeE)
  fix u authErr uid s'
  assume a: "serveRequest env h m r u w authErr = Some s'"
    "s = (if isConnectUDPRequest r then s'\<lparr>sv_request := redactConnectUDPRequest (sv_request s')\<rparr> else s')"
  have s: "sv_actions s = sv_actions s'" "sv_error s = sv_error s'" by (simp_all add: a(2))
  from a(1) assms(2) [unfolded s] obtain ctx w' where "serveForward env ctx h
      (case SplitHostPort (Host r) of Inl e \<Rightarrow> Some (AddrError e) | Inr _ \<Rightarrow> None) (outgoing h u r) w = Some (sv_error s', w', sv_actions s')"
    by (rule serveRequest_upstream)
  from serveForward_upstream [OF this assms(2) [unfolded s], of c'] show ?thesis unfolding s by auto
qed

section \<open>Tunnels\<close>

lemma dial_direct:
  assumes "dialContextCheckACL h dial cerr race network hp = Inr c" and "upstream h = None"
  shows "\<exists>host port. SplitHostPort hp = Inr (host, port) \<and> portIsAllowed (AllowedPorts h) port \<and>
    \<not> domainDenied (aclRules h) host \<and> race network host port = Inr c"
  using assms by (auto simp: dialContextCheckACL_def prepareTargetPolicy_def split: if_splits sum.splits prod.splits option.splits)

lemma serveTunnel_conn:
  assumes "serveTunnel env h r pt hp = (err, acts)" and "Tunnel c p \<in> set acts"
  shows "dialContextCheckACL h (he_dial env (contextHeader (he_lower env) h r)) (he_ctxErr env) (he_race env) ''tcp'' hp = Inr c \<and>
    last acts = CloseTarget c \<and> WriteStatus 200 \<in> set acts \<and> (p \<longleftrightarrow> ProtoMajor r \<noteq> 1 \<and> pt = naivePaddingVariant1)"
  using assms by (auto simp: serveTunnel_def serveHijack_def Let_def split: sum.splits option.splits prod.splits if_splits)

lemma serveRequest_tunnel:
  assumes "serveRequest env h m r u w authErr = Some s" and "Tunnel c p \<in> set (sv_actions s)"
  obtains pt acts err where "authErr = None" "Method r = ''CONNECT''" "negotiateNaivePadding (Header r) = Inr pt"
    "serveTunnel env h r pt (if url_Host u = [] then Host r else url_Host u) = (err, acts)" "sv_actions s = acts"
    "sv_header s = setNaivePaddingResponseHeaders (he_draw env) (he_bits env) w (Header r) pt"
proof -
  have "Tunnel c p \<notin> set acts" if "serveForward env ctx h err0 r' w = Some (err, w', acts)" for ctx err0 r' err w' acts
    using that by (auto simp: serveForward_def fetch_def Let_def split: option.splits sum.splits prod.splits if_splits)
  with assms have s: "s = serveCONNECT env h m r u w" "authErr = None" "Method r = ''CONNECT''"
    by (auto simp: serveRequest_def Let_def serveHiddenPage_def servePacFile_def split: if_splits option.splits prod.splits)
  with assms(2) that show ?thesis
    by (auto simp: serveCONNECT_def Let_def split: sum.splits prod.splits if_splits)
qed

text \<open>
  (C1) A CONNECT tunnel is opened only for an authenticated request, to a target that passed the
  policy: without an upstream the port is allowed, no domain rule refuses the host, and the
  tunnel's connection is the one the race returned for that host and port.  The client has been
  sent status 200, the connection is closed as the last action, and the tunnel is padded exactly
  for HTTP/2 and HTTP/3 clients that negotiated padding.
\<close>

theorem tunnel_guarded:
  assumes "ServeHTTP env h m r w = Some s" and "Tunnel c p \<in> set (sv_actions s)"
  shows "Method r = ''CONNECT'' \<and>
    (AuthCredentials h \<noteq> None \<longrightarrow> (\<exists>uid. checkCredentials (he_lower env) h (Header r) = Some (None, uid))) \<and>
    WriteStatus 200 \<in> set (sv_actions s) \<and> last (sv_actions s) = CloseTarget c \<and>
    (p \<longleftrightarrow> ProtoMajor r \<noteq> 1 \<and> negotiateNaivePadding (Header r) = Inr 1) \<and>
    (upstream h = None \<longrightarrow> (\<exists>u host port. URL r = Some u \<and>
       SplitHostPort (if url_Host u = [] then Host r else url_Host u) = Inr (host, port) \<and>
       portIsAllowed (AllowedPorts h) port \<and> \<not> domainDenied (aclRules h) host \<and> he_race env ''tcp'' host port = Inr c))"
  using assms(1)
proof (rule ServeHTTP_SomeE)
  fix u authErr uid s'
  assume a: "URL r = Some u"
    "(if AuthCredentials h = None then Some (None, None) else checkCredentials (he_lower env) h (Header r)) = Some (authErr, uid)"
    "serveRequest env h m r u w authErr = Some s'"
    "s = (if isConnectUDPRequest r then s'\<lparr>sv_request := redactConnectUDPRequest (sv_request s')\<rparr> else s')"
  have s: "sv_actions s = sv_actions s'" by (simp add: a(4))
  from assms(2) s have "Tunnel c p \<in> set (sv_actions s')" by simp
  with a(3) obtain pt acts err where t: "authErr = None" "Method r = ''CONNECT''" "negotiateNaivePadding (Header r) = Inr pt"
    "serveTunnel env h r pt (if url_Host u = [] then Host r else url_Host u) = (err, acts)" "sv_actions s' = acts"
    by (rule serveRequest_tunnel)
  with \<open>Tunnel c p \<in> set (sv_actions s')\<close> have "Tunnel c p \<in> set acts" by simp
  note c = serveTunnel_conn [OF t(4) this]
  from c have d: "upstream h = None \<Longrightarrow> \<exists>host port. SplitHostPort (if url_Host u = [] then Host r else url_Host u) = Inr (host, port) \<and>
      portIsAllowed (AllowedPorts h) port \<and> \<not> domainDenied (aclRules h) host \<and> he_race env ''tcp'' host port = Inr c"
    using dial_direct by metis
  have "pt = naivePaddingVariant1 \<longleftrightarrow> negotiateNaivePadding (Header r) = Inr 1" using t(3) by (simp add: naivePaddingVariant1_def)
  with c d t a(1,2) show ?thesis unfolding s t(5) by (auto split: if_splits)
qed

section \<open>Credentials of an upstream\<close>

lemma Split_Basic: "Split (''Basic '' @ base64_encode x) CHR '' '' = [''Basic'', base64_encode x]"
  using base64_encode_no_space [of x] by (simp add: Split_id)

text \<open>
  The credentials for an upstream are taken from its URL in escaped form: an upstream that
  checks for the configured user and password accepts the forwarded request exactly when
  percent-encoding changes neither of them, so a password with an at sign or a space never works.
\<close>

theorem upstream_credentials_escaped:
  assumes "User up = Some (u, Some p)" and "CHR '':'' \<notin> set u" and "AuthCredentials h = Some [EncodeAuthCredentials u p]"
  shows "(\<exists>uid. checkCredentials lower h (Header (outgoing_upstream up r)) = Some (None, uid)) \<longleftrightarrow>
    escape_userinfo u @ '':'' @ escape_userinfo p = u @ '':'' @ p"
proof -
  let ?x = "escape_userinfo u @ '':'' @ escape_userinfo p"
  have hd: "Header_Get (Header (outgoing_upstream up r)) ''Proxy-Authorization'' = ''Basic '' @ base64_encode ?x"
    by (simp add: outgoing_upstream_def Let_def Userinfo_String_def assms(1))
  have c: "configured h [(u, p)]" using assms(2,3) by (simp add: configured_def)
  have "presents lower [(u, p)] (''Basic '' @ base64_encode ?x) v \<longleftrightarrow> ?x = u @ '':'' @ p \<and> v = u" for v
    unfolding presents_def Split_Basic by (auto simp: EncodeAuthCredentials_def base64_encode_inj ToLower_Basic)
  with check_presents [OF c, of lower "Header (outgoing_upstream up r)"] show ?thesis unfolding hd by auto
qed

definition sample_upstream :: url where
  "sample_upstream = \<lparr>Scheme = ''https'', User = Some (''bob'', Some ''p@s''), url_Host = ''u.example'', Path = [], RawPath = [],
     RawQuery = [], ForceQuery = False, Fragment = []\<rparr>"

theorem upstream_credentials_escaped_witness:
  "\<not> (\<exists>uid. checkCredentials (\<lambda>s. s) (new_handler\<lparr>AuthCredentials := Some [EncodeAuthCredentials ''bob'' ''p@s'']\<rparr>)
      (Header (outgoing_upstream sample_upstream sample_request)) = Some (None, uid))"
proof -
  have "escape_userinfo ''bob'' @ '':'' @ escape_userinfo ''p@s'' \<noteq> ''bob'' @ '':'' @ ''p@s''" by code_simp
  then show ?thesis
    using upstream_credentials_escaped [of sample_upstream "''bob''" "''p@s''"
        "new_handler\<lparr>AuthCredentials := Some [EncodeAuthCredentials ''bob'' ''p@s'']\<rparr>" "\<lambda>s. s" sample_request]
    by (simp add: sample_upstream_def)
qed

section \<open>Sample requests\<close>

definition sample_io :: tunnel_io where
  "sample_io = \<lparr>to_target = ideal_sink, to_client = ideal_sink, from_client = [], from_target = [], up_buffer = [], down_buffer = []\<rparr>"

definition sample_response :: response where
  "sample_response = \<lparr>res_ProtoMajor = 1, res_ProtoMinor = 1, res_StatusCode = 200, res_Header = [], res_Body = []\<rparr>"

definition sample_http_env :: "nat http_env" where
  "sample_http_env = \<lparr>he_lower = (\<lambda>s. s), he_hosts = (\<lambda>_. False), he_draw = 0, he_bits = 0, he_udp = sample_env,
     he_dial = (\<lambda>_ _ _. (None, None)), he_ctxErr = None, he_race = (\<lambda>_ _ _. Inr 1), he_flush = None, he_hijack = None,
     he_buffered = [], he_hijack_flush = None, he_draws = (\<lambda>_. 0), he_io = sample_io, he_next = (\<lambda>_. None), he_has_body = False, he_read_body = None,
     he_close_body = None, he_round_trip = (\<lambda>_. Inr sample_response), he_upstream_write = None,
     he_upstream_read = Inr sample_response, he_copy_body = None\<rparr>"

definition sample_get :: request where
  "sample_get = \<lparr>Method = ''GET'', URL = Some \<lparr>Scheme = ''http'', User = None, url_Host = ''a.b'', Path = ''/'', RawPath = [],
       RawQuery = [], ForceQuery = False, Fragment = []\<rparr>,
     Proto = ''HTTP/1.1'', ProtoMajor = 1, ProtoMinor = 1, Header = [''Proxy-Authorization'' \<mapsto> [''Basic x'']],
     Host = ''a.b'', RemoteAddr = ''192.0.2.1:1'', RequestURI = []\<rparr>"

definition sample_connect :: request where
  "sample_connect = sample_get\<lparr>Method := ''CONNECT'', Header := Map.empty,
     URL := Some ((the (URL sample_get))\<lparr>Scheme := [], url_Host := ''a.b:443'', Path := []\<rparr>)\<rparr>"

lemma sample_unauthenticated:
  "checkCredentials lower h (Header (sample_get\<lparr>Header := Map.empty\<rparr>)) =
     Some (Some (ErrorString ''Proxy-Authorization is required! Expected format: <type> <credentials>''), None)"
  by (simp add: checkCredentials_def Header_Get_def)

theorem unauthenticated_not_proxied_witness:
  "\<exists>s. ServeHTTP sample_http_env (new_handler\<lparr>AuthCredentials := Some []\<rparr>) sample_metrics (sample_get\<lparr>Header := Map.empty\<rparr>)
       Map.empty = Some s \<and> (\<forall>a \<in> set (sv_actions s). \<not> contacts a)"
proof -
  let ?h = "new_handler\<lparr>AuthCredentials := Some []\<rparr>" and ?r = "sample_get\<lparr>Header := Map.empty\<rparr>"
  have "\<exists>s. ServeHTTP sample_http_env ?h sample_metrics ?r Map.empty = Some s"
    unfolding ServeHTTP_def sample_unauthenticated
    by (simp add: serveRequest_def Let_def sample_http_env_def new_handler_def sample_get_def)
  then obtain s where s: "ServeHTTP sample_http_env ?h sample_metrics ?r Map.empty = Some s" by blast
  from unauthenticated_not_proxied [OF _ sample_unauthenticated s] s show ?thesis by auto
qed

theorem probe_resistance_transparent_witness:
  "\<exists>s. ServeHTTP sample_http_env (new_handler\<lparr>AuthCredentials := Some [], ProbeResistance := Some ''s.t''\<rparr>) sample_metrics
       (sample_get\<lparr>Header := Map.empty\<rparr>) Map.empty = Some s \<and> sv_header s = Map.empty \<and> sv_error s = None"
proof -
  let ?h = "new_handler\<lparr>AuthCredentials := Some [], ProbeResistance := Some ''s.t''\<rparr>"
  let ?r = "sample_get\<lparr>Header := Map.empty\<rparr>"
  have n: "(case SplitHostPort (Host ?r) of Inl _ \<Rightarrow> Host ?r | Inr (host, _) \<Rightarrow> host) \<noteq> ''s.t'' \<or> ''s.t'' = []"
    by (simp add: sample_get_def policy_eval)
  have "\<exists>s. ServeHTTP sample_http_env ?h sample_metrics ?r Map.empty = Some s"
    unfolding ServeHTTP_def sample_unauthenticated
    by (simp add: serveRequest_def Let_def serveHiddenPage_def sample_http_env_def new_handler_def sample_get_def)
  then obtain s where s: "ServeHTTP sample_http_env ?h sample_metrics ?r Map.empty = Some s" by blast
  from probe_resistance_transparent [OF _ _ sample_unauthenticated n s] s show ?thesis by (auto simp: sample_http_env_def)
qed

theorem credentials_not_forwarded_witness:
  "\<exists>s r'. ServeHTTP sample_http_env new_handler sample_metrics sample_get Map.empty = Some s \<and>
     RoundTrip r' \<in> set (sv_actions s) \<and> Header r' ''Proxy-Authorization'' = None"
proof -
  have "\<exists>s r'. ServeHTTP sample_http_env new_handler sample_metrics sample_get Map.empty = Some s \<and>
      RoundTrip r' \<in> set (sv_actions s)"
    by (simp add: ServeHTTP_def serveRequest_def Let_def sample_http_env_def new_handler_def sample_get_def isConnectUDPRequest_def
        serveForward_def fetch_def split: prod.splits)
  then obtain s r' where s: "ServeHTTP sample_http_env new_handler sample_metrics sample_get Map.empty = Some s"
    "RoundTrip r' \<in> set (sv_actions s)" by blast
  from credentials_not_forwarded [OF s(1), of r'] s show ?thesis by blast
qed

theorem upstream_host_without_port_fails_witness:
  "\<exists>s. ServeHTTP (sample_http_env\<lparr>he_dial := (\<lambda>_ _ _. (Some 1, None))\<rparr>) (new_handler\<lparr>upstream := Some sample_upstream\<rparr>)
       sample_metrics sample_get Map.empty = Some s \<and>
     sv_error s = Some (HandlerError 502 (Errorf ''failed to read response: '' (AddrError MissingPort)))"
proof -
  let ?env = "sample_http_env\<lparr>he_dial := (\<lambda>_ _ _. (Some 1, None))\<rparr>" and ?h = "new_handler\<lparr>upstream := Some sample_upstream\<rparr>"
  have p: "SplitHostPort (Host sample_get) = Inl MissingPort" by (simp add: sample_get_def policy_eval)
  have "\<exists>s r'. ServeHTTP ?env ?h sample_metrics sample_get Map.empty = Some s \<and> WriteUpstream 1 r' \<in> set (sv_actions s)"
    by (simp add: ServeHTTP_def serveRequest_def Let_def sample_http_env_def new_handler_def sample_get_def isConnectUDPRequest_def
        serveForward_def fetch_def forwardResponse_def split: option.splits)
  then obtain s r' where s: "ServeHTTP ?env ?h sample_metrics sample_get Map.empty = Some s" "WriteUpstream 1 r' \<in> set (sv_actions s)"
    by blast
  from upstream_host_without_port_fails [OF s] s(1) p show ?thesis by (auto simp: sample_http_env_def)
qed

theorem tunnel_guarded_witness:
  "\<exists>s. ServeHTTP sample_http_env (new_handler\<lparr>aclRules := [aclAllRule True]\<rparr>) sample_metrics sample_connect Map.empty = Some s \<and>
     Tunnel 1 False \<in> set (sv_actions s) \<and> last (sv_actions s) = CloseTarget 1"
proof -
  let ?h = "new_handler\<lparr>aclRules := [aclAllRule True]\<rparr>"
  have p: "prepareTargetPolicy ?h ''a.b:443'' = (''a.b'', ''443'', None)"
    by (simp add: prepareTargetPolicy_def new_handler_def policy_eval go_eval)
  have d: "dialContextCheckACL ?h dial cerr (\<lambda>_ _ _. Inr 1) ''tcp'' ''a.b:443'' = Inr (1 :: nat)" for dial cerr
    unfolding dialContextCheckACL_def p by (simp add: new_handler_def)
  have "\<exists>err. serveTunnel sample_http_env ?h sample_connect naivePaddingNone ''a.b:443'' =
      (err, [DialTarget ''a.b:443'', WriteStatus 200, WriteStatus 200, Tunnel 1 False, CloseClient, CloseTarget 1])"
    unfolding serveTunnel_def by (simp add: sample_http_env_def d [unfolded One_nat_def] serveHijack_def sample_connect_def sample_get_def)
  moreover have "negotiateNaivePadding Map.empty = Inr naivePaddingNone"
    by (simp add: negotiateNaivePadding_def Header_Get_def)
  ultimately have "\<exists>s. ServeHTTP sample_http_env ?h sample_metrics sample_connect Map.empty = Some s \<and> Tunnel 1 False \<in> set (sv_actions s)"
    by (auto simp: ServeHTTP_def serveRequest_def Let_def serveCONNECT_def isConnectUDPRequest_def isUnsupportedExtendedConnect_def
        sample_connect_def sample_get_def new_handler_def sample_http_env_def)
  then obtain s where s: "ServeHTTP sample_http_env ?h sample_metrics sample_connect Map.empty = Some s"
    "Tunnel 1 False \<in> set (sv_actions s)" by blast
  from tunnel_guarded [OF s] s show ?thesis by blast
qed

end
