(* ===== verification/Config.thy ===== *)
theory Config
  imports Http_Client
begin

text \<open>
  Configuration: \<open>UnmarshalCaddyfile\<close> and \<open>readLinesFromFile\<close>, and \<open>Provision\<close> with
  \<open>isLocalhost\<close>.  The Caddyfile dispenser is represented by what it hands out: the arguments of the
  directive and, in order, the subdirectives with their arguments and their nested lines.
\<close>

section \<open>Caddyfile\<close>

record subdirective =
  sub_name :: string
  sub_args :: "string list"
  sub_lines :: "(string \<times> string list) list"

datatype config_error =
    ArgErr
  | Err string
  | FileErr goerror

text \<open>\<open>bufio.Scanner\<close> with its default split function: lines without their terminator and without a
  final carriage return; a line of 64 KiB or more ends the scan with an error.\<close>

definition drop_cr :: "string \<Rightarrow> string" where
  "drop_cr s = (if s \<noteq> [] \<and> byte_of (last s) = 13 then butlast s else s)"

definition max_token :: nat where "max_token = 65536"

function scan_lines :: "string \<Rightarrow> string list \<times> bool" where
  "scan_lines s =
     (if s = [] then ([], True)
      else
        let line = takeWhile (\<lambda>c. byte_of c \<noteq> 10) s; rest = drop (Suc (length line)) s in
        if max_token \<le> length line then ([], False)
        else (case scan_lines rest of (lines, ok) \<Rightarrow> (drop_cr line # lines, ok)))"
  by pat_completeness auto
termination
  by (relation "measure length") (auto simp: length_takeWhile_le)

declare scan_lines.simps [simp del]

definition readLinesFromFile :: "(string \<Rightarrow> goerror + string) \<Rightarrow> string \<Rightarrow> goerror + string list" where
  "readLinesFromFile open filename =
     (case open filename of
        Inl err \<Rightarrow> Inl err
      | Inr contents \<Rightarrow>
          (case scan_lines contents of
             (lines, True) \<Rightarrow> Inr lines
           | (lines, False) \<Rightarrow> Inl (ErrorString ''bufio.Scanner: token too long'')))"

text \<open>
  What the parser calls: the contents of the file at the cleaned path (\<open>os.Open\<close> after
  \<open>filepath.Clean\<close>, and reading to the end), and \<open>caddy.ParseDuration\<close>.
\<close>

record config_env =
  ce_open :: "string \<Rightarrow> goerror + string"
  ce_duration :: "string \<Rightarrow> int option"

fun parse_ports :: "string list \<Rightarrow> config_error + int list" where
  "parse_ports [] = Inr []"
| "parse_ports (p # ps) =
     (case Atoi p of
        None \<Rightarrow> Inl (Err (''ports are expected to be space-separated and in 0-65535 range, but got: '' @ p))
      | Some intPort \<Rightarrow>
          if intPort \<le> 0 \<or> intPort > 65535
          then Inl (Err (''ports are expected to be space-separated and in 0-65535 range, but got: '' @ p))
          else (case parse_ports ps of Inl e \<Rightarrow> Inl e | Inr rest \<Rightarrow> Inr (intPort # rest)))"

definition parse_acl_line :: "config_env \<Rightarrow> string \<times> string list \<Rightarrow> config_error + ACLRule" where
  "parse_acl_line env line =
     (case line of
        (aclDirective, args) \<Rightarrow>
          let rule = (\<lambda>subjects allow. Inr \<lparr>Subjects = subjects, Allow = allow\<rparr>);
              file = (\<lambda>message allow.
                if length args \<noteq> 1 then Inl (Err message)
                else (case readLinesFromFile (ce_open env) (hd args) of
                        Inl err \<Rightarrow> Inl (FileErr err) | Inr subjects \<Rightarrow> rule subjects allow))
          in
          if length args = 0 then Inl ArgErr
          else if aclDirective = ''allow'' then rule args True
          else if aclDirective = ''allow_file'' then file ''allowfile accepts a single filename argument'' True
          else if aclDirective = ''deny'' then rule args False
          else if aclDirective = ''deny_file'' then file ''denyfile accepts a single filename argument'' False
          else Inl (Err (''expected acl directive: allow/allowfile/deny/denyfile.'' @ ''got: '' @ aclDirective)))"

fun parse_acl :: "config_env \<Rightarrow> (string \<times> string list) list \<Rightarrow> ACLRule list \<Rightarrow> config_error + ACLRule list" where
  "parse_acl env [] acc = Inr acc"
| "parse_acl env (line # lines) acc =
     (case parse_acl_line env line of Inl e \<Rightarrow> Inl e | Inr ar \<Rightarrow> parse_acl env lines (acc @ [ar]))"

definition parse_basic_auth :: "string list \<Rightarrow> handler \<Rightarrow> config_error + handler" where
  "parse_basic_auth args h =
     (if length args \<noteq> 2 then Inl ArgErr
      else if length (args ! 0) = 0 then Inl (Err ''empty usernames are not allowed'')
      else if Contains (args ! 0) '':'' then Inl (Err ''character ':' in usernames is not allowed'')
      else
        let creds = (case AuthCredentials h of None \<Rightarrow> [] | Some cs \<Rightarrow> cs)
        in Inr (h\<lparr>AuthCredentials := Some (creds @ [EncodeAuthCredentials (args ! 0) (args ! 1)])\<rparr>))"

definition parse_flag :: "string list \<Rightarrow> handler \<Rightarrow> config_error + handler" where
  "parse_flag args h = (if length args \<noteq> 0 then Inl ArgErr else Inr h)"

definition parse_pac :: "string list \<Rightarrow> handler \<Rightarrow> config_error + handler" where
  "parse_pac args h =
     (if length args > 1 then Inl ArgErr
      else if length (PACPath h) \<noteq> 0 then Inl (Err ''serve_pac subdirective specified twice'')
      else if length args = 1
      then Inr (h\<lparr>PACPath := (if HasPrefix (hd args) ''/'' then hd args else ''/'' @ hd args)\<rparr>)
      else Inr (h\<lparr>PACPath := ''/proxy.pac''\<rparr>))"

definition parse_int :: "string list \<Rightarrow> (int \<Rightarrow> handler) \<Rightarrow> config_error + handler" where
  "parse_int args store =
     (if length args \<noteq> 1 then Inl ArgErr
      else (case Atoi (hd args) of None \<Rightarrow> Inl ArgErr | Some val \<Rightarrow> Inr (store val)))"

definition parse_timeout :: "config_env \<Rightarrow> string list \<Rightarrow> handler \<Rightarrow> config_error + handler" where
  "parse_timeout env args h =
     (if length args \<noteq> 1 then Inl ArgErr
      else (case ce_duration env (hd args) of
              None \<Rightarrow> Inl ArgErr
            | Some timeout \<Rightarrow>
                if timeout < 0 then Inl (Err ''dial_timeout cannot be negative.'') else Inr (h\<lparr>DialTimeout := timeout\<rparr>)))"

definition parse_subdirective :: "config_env \<Rightarrow> subdirective \<Rightarrow> handler \<Rightarrow> config_error + handler" where
  "parse_subdirective env d h =
     (let args = sub_args d; name = sub_name d in
      if name = ''basic_auth'' then parse_basic_auth args h
      else if name = ''hosts'' then
        (if length args = 0 then Inl ArgErr
         else if length (Hosts h) \<noteq> 0 then Inl (Err ''hosts subdirective specified twice'')
         else Inr (h\<lparr>Hosts := args\<rparr>))
      else if name = ''ports'' then
        (if length args = 0 then Inl ArgErr
         else if length (AllowedPorts h) \<noteq> 0 then Inl (Err ''ports subdirective specified twice'')
         else (case parse_ports args of Inl e \<Rightarrow> Inl e | Inr ports \<Rightarrow> Inr (h\<lparr>AllowedPorts := ports\<rparr>)))
      else if name = ''hide_ip'' then parse_flag args (h\<lparr>HideIP := True\<rparr>)
      else if name = ''hide_via'' then parse_flag args (h\<lparr>HideVia := True\<rparr>)
      else if name = ''disable_insecure_upstreams_check'' then parse_flag args (h\<lparr>DisableInsecureUpstreamsCheck := True\<rparr>)
      else if name = ''probe_resistance'' then
        (if length args > 1 then Inl ArgErr
         else Inr (h\<lparr>ProbeResistance := Some (if length args = 1 then hd args else [])\<rparr>))
      else if name = ''serve_pac'' then parse_pac args h
      else if name = ''dial_timeout'' then parse_timeout env args h
      else if name = ''max_idle_conns'' then parse_int args (\<lambda>val. h\<lparr>MaxIdleConns := val\<rparr>)
      else if name = ''max_idle_conns_per_host'' then parse_int args (\<lambda>val. h\<lparr>MaxIdleConnsPerHost := val\<rparr>)
      else if name = ''upstream'' then
        (if length args \<noteq> 1 then Inl ArgErr
         else if Upstream h \<noteq> [] then Inl (Err ''upstream directive specified more than once'')
         else Inr (h\<lparr>Upstream := hd args\<rparr>))
      else if name = ''acl'' then
        (case parse_acl env (sub_lines d) (ACL h) of Inl e \<Rightarrow> Inl e | Inr acl \<Rightarrow> Inr (h\<lparr>ACL := acl\<rparr>))
      else Inl ArgErr)"

fun parse_block :: "config_env \<Rightarrow> subdirective list \<Rightarrow> handler \<Rightarrow> config_error + handler" where
  "parse_block env [] h = Inr h"
| "parse_block env (d # ds) h =
     (case parse_subdirective env d h of Inl e \<Rightarrow> Inl e | Inr h' \<Rightarrow> parse_block env ds h')"

definition UnmarshalCaddyfile ::
  "config_env \<Rightarrow> string list \<Rightarrow> subdirective list \<Rightarrow> handler \<Rightarrow> config_error + handler" where
  "UnmarshalCaddyfile env args subs h = (if length args > 0 then Inl ArgErr else parse_block env subs h)"

definition parseCaddyfile :: "config_env \<Rightarrow> string list \<Rightarrow> subdirective list \<Rightarrow> config_error + handler" where
  "parseCaddyfile env args subs = UnmarshalCaddyfile env args subs new_handler"

section \<open>Provisioning\<close>

definition isLocalhost :: "string \<Rightarrow> bool" where
  "isLocalhost hostname \<longleftrightarrow> hostname = ''localhost'' \<or> hostname = ''127.0.0.1'' \<or> hostname = ''::1'' \<or>
     HasSuffix hostname ''.localhost''"

text \<open>
  The transport for forwarded requests: the limit of idle connections is 50 by default, and a negative
  setting means no limit.  The dialer of an upstream is the client of \<open>Http_Client\<close>, or another one
  that the proxy library provides.
\<close>

record transport =
  tr_MaxIdleConns :: int
  tr_MaxIdleConnsPerHost :: int
  tr_IdleConnTimeout :: int
  tr_TLSHandshakeTimeout :: int

definition httpTransport :: "handler \<Rightarrow> transport" where
  "httpTransport h =
     (let n = (if MaxIdleConns h = 0 then 50 else MaxIdleConns h); maxIdleConns = (if n < 0 then 0 else n)
      in \<lparr>tr_MaxIdleConns = maxIdleConns, tr_MaxIdleConnsPerHost = MaxIdleConnsPerHost h,
          tr_IdleConnTimeout = 60 * second, tr_TLSHandshakeTimeout = 10 * second\<rparr>)"

record net_dialer =
  nd_Timeout :: int
  nd_KeepAlive :: int

datatype upstream_dialer =
    HTTPConnect net_dialer HTTPConnectDialer
  | OtherDialer

text \<open>What provisioning sets up: the handler, its transport, the dialer, and the dialer of the upstream.\<close>

record runtime =
  rt_handler :: handler
  rt_transport :: transport
  rt_dialer :: net_dialer
  rt_upstream :: "upstream_dialer option"

text \<open>The messages of \<open>isValidDomainLite\<close>; a byte becomes the UTF-8 encoding of its value.\<close>

definition byte_string :: "char \<Rightarrow> string" where
  "byte_string c = (if byte_of c < 128 then [c] else [char_of (192 + byte_of c div 64), char_of (128 + byte_of c mod 64)])"

fun domain_error_text :: "domain_error \<Rightarrow> string" where
  "domain_error_text (CharNotAllowed c) = ''character '' @ byte_string c @ '' is not allowed''"
| "domain_error_text EmptySection = ''empty section between dots in domain name or trailing dot''"
| "domain_error_text SectionTooLong = ''domain name section is too long''"

text \<open>
  \<open>Provision\<close>.  \<open>metrics\<close> is the error of registering the metrics, \<open>parse\<close> and \<open>print\<close> are
  \<open>url.Parse\<close> and \<open>URL.String\<close>, and \<open>fromURL\<close> is \<open>proxy.FromURL\<close> with its registered dialer
  type.
\<close>

definition provision_defaults :: "handler \<Rightarrow> handler" where
  "provision_defaults h = h\<lparr>
     connectUDPMaxActive := (if connectUDPMaxActive h \<le> 0 then 512 else connectUDPMaxActive h),
     connectUDPMaxClientActive := (if connectUDPMaxClientActive h \<le> 0 then 128 else connectUDPMaxClientActive h),
     connectUDPIdleTimeout := (if connectUDPIdleTimeout h \<le> 0 then 120 * second else connectUDPIdleTimeout h),
     DialTimeout := (if DialTimeout h \<le> 0 then 30 * second else DialTimeout h)\<rparr>"

definition registerHTTPDialer ::
  "(string \<Rightarrow> goerror + url) \<Rightarrow> (url \<Rightarrow> string) \<Rightarrow> net_dialer \<Rightarrow> url \<Rightarrow> goerror + upstream_dialer" where
  "registerHTTPDialer parse print dialer up =
     (case NewHTTPConnectDialer parse (print up) of
        Inl err \<Rightarrow> Inl err
      | Inr d \<Rightarrow> Inr (HTTPConnect dialer (if isLocalhost (url_Hostname up) \<and> Scheme up = ''https'' then d\<lparr>DialTLS := True\<rparr> else d)))"

definition provision_upstream ::
  "(string \<Rightarrow> goerror + url) \<Rightarrow> (url \<Rightarrow> string) \<Rightarrow> ((url \<Rightarrow> goerror + upstream_dialer) \<Rightarrow> url \<Rightarrow> goerror + upstream_dialer) \<Rightarrow>
   runtime \<Rightarrow> goerror + runtime" where
  "provision_upstream parse print fromURL rt =
     (let h = rt_handler rt in
      if Upstream h = [] then Inr rt
      else
        (case parse (Upstream h) of
           Inl err \<Rightarrow> Inl (Errorf ''bad upstream URL: '' err)
         | Inr u \<Rightarrow>
             if \<not> DisableInsecureUpstreamsCheck h \<and> \<not> isLocalhost (url_Hostname u) \<and> Scheme u \<noteq> ''https''
             then Inl (ErrorString ''insecure schemes are only allowed to localhost upstreams'')
             else
               (case fromURL (\<lambda>_. registerHTTPDialer parse print (rt_dialer rt) u) u of
                  Inl err \<Rightarrow> Inl (Errorf ''failed to create proxy to upstream: '' err)
                | Inr d \<Rightarrow> Inr (rt\<lparr>rt_handler := h\<lparr>upstream := Some u\<rparr>, rt_upstream := Some d\<rparr>))))"

definition Provision ::
  "goerror option \<Rightarrow> (string \<Rightarrow> goerror + url) \<Rightarrow> (url \<Rightarrow> string) \<Rightarrow>
   ((url \<Rightarrow> goerror + upstream_dialer) \<Rightarrow> url \<Rightarrow> goerror + upstream_dialer) \<Rightarrow> handler \<Rightarrow> goerror + runtime" where
  "Provision metrics parse print fromURL h =
     (case metrics of
        Some err \<Rightarrow> Inl err
      | None \<Rightarrow>
          let h1 = provision_defaults h in
          case provisionACL (ACL h1) of
            Inl (subject, e) \<Rightarrow>
              Inl (ErrorString (subject @ '' could not be parsed as either IP, IP network, or domain: '' @ domain_error_text e))
          | Inr rules \<Rightarrow>
              let h2 = h1\<lparr>aclRules := aclRules h1 @ rules\<rparr> in
              if ProbeResistance h2 \<noteq> None \<and> AuthCredentials h2 = None
              then Inl (ErrorString ''probe resistance requires authentication'')
              else provision_upstream parse print fromURL
                     \<lparr>rt_handler = h2, rt_transport = httpTransport h2,
                      rt_dialer = \<lparr>nd_Timeout = DialTimeout h2, nd_KeepAlive = 30 * second\<rparr>, rt_upstream = None\<rparr>)"

section \<open>Facts\<close>

lemma Contains_char: "Contains s [c] \<longleftrightarrow> c \<in> set s"
  by (induction s) (auto simp: HasPrefix_def)

text \<open>The users of a configuration, in order.\<close>

definition basic_auth_users :: "subdirective list \<Rightarrow> (string \<times> string) list" where
  "basic_auth_users subs = map (\<lambda>d. (sub_args d ! 0, sub_args d ! 1)) (filter (\<lambda>d. sub_name d = ''basic_auth'') subs)"

definition credentials :: "handler \<Rightarrow> string list" where
  "credentials h = (case AuthCredentials h of None \<Rightarrow> [] | Some cs \<Rightarrow> cs)"

lemma parse_flag_iff: "parse_flag args h = Inr h' \<longleftrightarrow> args = [] \<and> h' = h"
  by (auto simp: parse_flag_def)

lemma parse_other_keeps:
  assumes "parse_subdirective env d h = Inr h'" and "sub_name d \<noteq> ''basic_auth''"
  shows "AuthCredentials h' = AuthCredentials h"
  using assms unfolding parse_subdirective_def Let_def
  by (auto simp: parse_flag_iff parse_pac_def parse_int_def parse_timeout_def split: if_splits sum.splits option.splits)

lemma parse_basic_auth_Inr:
  "parse_basic_auth args h = Inr h' \<longleftrightarrow> length args = 2 \<and> args ! 0 \<noteq> [] \<and> CHR '':'' \<notin> set (args ! 0) \<and>
     h' = h\<lparr>AuthCredentials := Some (credentials h @ [EncodeAuthCredentials (args ! 0) (args ! 1)])\<rparr>"
  by (auto simp: parse_basic_auth_def credentials_def Let_def Contains_char)

lemma parse_block_users:
  "parse_block env subs h = Inr h' \<Longrightarrow>
     (\<forall>(u, p) \<in> set (basic_auth_users subs). u \<noteq> [] \<and> CHR '':'' \<notin> set u) \<and>
     AuthCredentials h' = (if basic_auth_users subs = [] then AuthCredentials h
       else Some (credentials h @ map (\<lambda>(u, p). EncodeAuthCredentials u p) (basic_auth_users subs)))"
proof (induction subs arbitrary: h)
  case Nil
  then show ?case by (simp add: basic_auth_users_def)
next
  case (Cons d ds)
  from Cons.prems obtain h1 where h1: "parse_subdirective env d h = Inr h1" "parse_block env ds h1 = Inr h'"
    by (auto split: sum.splits)
  note IH = Cons.IH [OF h1(2)]
  show ?case
  proof (cases "sub_name d = ''basic_auth''")
    case True
    with h1(1) have p: "sub_args d ! 0 \<noteq> []" "CHR '':'' \<notin> set (sub_args d ! 0)"
      "h1 = h\<lparr>AuthCredentials := Some (credentials h @ [EncodeAuthCredentials (sub_args d ! 0) (sub_args d ! 1)])\<rparr>"
      by (simp_all add: parse_subdirective_def parse_basic_auth_Inr)
    have "credentials h1 = credentials h @ [EncodeAuthCredentials (sub_args d ! 0) (sub_args d ! 1)]"
      "AuthCredentials h1 = Some (credentials h1)"
      by (simp_all add: p(3) credentials_def)
    with IH p(1,2) True show ?thesis by (auto simp: basic_auth_users_def)
  next
    case False
    with parse_other_keeps [OF h1(1)] have "AuthCredentials h1 = AuthCredentials h" by simp
    with IH False show ?thesis by (simp add: basic_auth_users_def credentials_def)
  qed
qed

lemma provision_keeps_users: "Provision metrics parse print fromURL h = Inr rt \<Longrightarrow> AuthCredentials (rt_handler rt) = AuthCredentials h"
  by (auto simp: Provision_def provision_upstream_def provision_defaults_def Let_def split: option.splits sum.splits if_splits)

text \<open>
  (C13) The users of the Caddyfile are the users of the proxy: after a successful parse and provisioning
  of a configuration with \<open>basic_auth\<close> lines, the credential check never panics and succeeds for
  exactly the clients that present, under the scheme \<open>basic\<close>, the encoding of a user and password of
  one of these lines; the identity recorded is that user.
\<close>

theorem configured_users_authenticate:
  assumes "parseCaddyfile env args subs = Inr h" and "Provision metrics parse print fromURL h = Inr rt" and "h' = rt_handler rt"
    and "basic_auth_users subs \<noteq> []"
  shows "checkCredentials lower h' header \<noteq> None \<and>
    (checkCredentials lower h' header = Some (None, uid) \<longleftrightarrow>
     (\<exists>kind u p. Header_Get header ''Proxy-Authorization'' = kind @ '' '' @ base64_encode (u @ '':'' @ p) \<and> CHR '' '' \<notin> set kind \<and>
        ToLower lower kind = ''basic'' \<and> (u, p) \<in> set (basic_auth_users subs) \<and> uid = Some u))"
proof -
  from assms(1) have "parse_block env subs new_handler = Inr h"
    by (simp add: parseCaddyfile_def UnmarshalCaddyfile_def split: if_splits)
  note u = parse_block_users [OF this]
  have "AuthCredentials h' = Some (map (\<lambda>(u, p). EncodeAuthCredentials u p) (basic_auth_users subs))"
    using u assms(3,4) provision_keeps_users [OF assms(2)] by (simp add: credentials_def new_handler_def)
  moreover have "\<forall>(u, p) \<in> set (basic_auth_users subs). CHR '':'' \<notin> set u" using u by auto
  ultimately have "checkCredentials lower h' header \<noteq> None \<and>
    (checkCredentials lower h' header = Some (None, uid) \<longleftrightarrow>
     (\<exists>kind u p. Header_Get header ''Proxy-Authorization'' = kind @ '' '' @ EncodeAuthCredentials u p \<and>
        CHR '' '' \<notin> set kind \<and> ToLower lower kind = ''basic'' \<and> (u, p) \<in> set (basic_auth_users subs) \<and> uid = Some u))"
    by (rule auth_decides)
  then show ?thesis unfolding EncodeAuthCredentials_def .
qed

text \<open>A configuration with one user, a rule and an upstream.\<close>

definition caddy_env :: config_env where
  "caddy_env = \<lparr>ce_open = (\<lambda>_. Inl (ErrorString ''no such file'')), ce_duration = (\<lambda>_. Some (5 * second))\<rparr>"

definition caddy_subs :: "subdirective list" where
  "caddy_subs =
     [\<lparr>sub_name = ''basic_auth'', sub_args = [''al'', ''pw''], sub_lines = []\<rparr>,
      \<lparr>sub_name = ''ports'', sub_args = [''80'', ''443''], sub_lines = []\<rparr>,
      \<lparr>sub_name = ''probe_resistance'', sub_args = [], sub_lines = []\<rparr>,
      \<lparr>sub_name = ''serve_pac'', sub_args = [''p''], sub_lines = []\<rparr>,
      \<lparr>sub_name = ''acl'', sub_args = [], sub_lines = [(''deny'', [''all''])]\<rparr>,
      \<lparr>sub_name = ''upstream'', sub_args = [''u''], sub_lines = []\<rparr>]"

definition caddy_url :: url where
  "caddy_url = \<lparr>Scheme = ''https'', User = None, url_Host = ''a'', Path = [], RawPath = [], RawQuery = [], ForceQuery = False, Fragment = []\<rparr>"

definition caddy_parsed :: handler where
  "caddy_parsed = new_handler\<lparr>AuthCredentials := Some [EncodeAuthCredentials ''al'' ''pw''], AllowedPorts := [80, 443],
     ProbeResistance := Some [], PACPath := ''/p'', ACL := [\<lparr>Subjects = [''all''], Allow = False\<rparr>], Upstream := ''u''\<rparr>"

lemma caddy_ports: "Atoi ''80'' = Some 80" "Atoi ''443'' = Some 443"
  by code_simp+

lemma caddy_parse: "parseCaddyfile caddy_env [] caddy_subs = Inr caddy_parsed"
  by (simp add: parseCaddyfile_def UnmarshalCaddyfile_def caddy_subs_def parse_subdirective_def parse_basic_auth_def
    parse_pac_def parse_acl_line_def caddy_parsed_def new_handler_def caddy_ports go_eval)

lemma caddy_provision:
  "\<exists>rt. Provision None (\<lambda>_. Inr caddy_url) (\<lambda>_. ''u'') (\<lambda>reg u. reg u) caddy_parsed = Inr rt"
proof -
  have "configuredRules (ACL caddy_parsed) = Inr [aclAllRule False]"
    by (simp add: caddy_parsed_def newACLRule_def)
  then have "\<exists>rules. provisionACL (ACL caddy_parsed) = Inr rules" by (simp add: provisionACL_iff)
  then show ?thesis
    by (auto simp: Provision_def provision_upstream_def provision_defaults_def caddy_url_def caddy_parsed_def Let_def
      registerHTTPDialer_def NewHTTPConnectDialer_def)
qed

theorem configured_users_authenticate_witness:
  "\<exists>rt. Provision None (\<lambda>_. Inr caddy_url) (\<lambda>_. ''u'') (\<lambda>reg u. reg u) caddy_parsed = Inr rt \<and>
     checkCredentials (\<lambda>s. s) (rt_handler rt) [CanonicalHeaderKey ''Proxy-Authorization'' \<mapsto> [''Basic '' @ base64_encode (''al'' @ '':'' @ ''pw'')]] =
       Some (None, Some ''al'')"
proof -
  obtain rt where rt: "Provision None (\<lambda>_. Inr caddy_url) (\<lambda>_. ''u'') (\<lambda>reg u. reg u) caddy_parsed = Inr rt"
    using caddy_provision by blast
  let ?H = "[CanonicalHeaderKey ''Proxy-Authorization'' \<mapsto> [''Basic '' @ base64_encode (''al'' @ '':'' @ ''pw'')]]"
  have u: "basic_auth_users caddy_subs = [(''al'', ''pw'')]" by (simp add: basic_auth_users_def caddy_subs_def)
  have "Header_Get ?H ''Proxy-Authorization'' = ''Basic'' @ '' '' @ base64_encode (''al'' @ '':'' @ ''pw'')" by (simp add: Header_Get_def)
  then show ?thesis
    using rt ToLower_Basic [of "\<lambda>s. s"] configured_users_authenticate [OF caddy_parse rt refl, of "\<lambda>s. s" ?H "Some ''al''"] u by force
qed

text \<open>What every subdirective keeps.\<close>

definition caddy_ok :: "handler \<Rightarrow> bool" where
  "caddy_ok h \<longleftrightarrow> (\<forall>p \<in> set (AllowedPorts h). 1 \<le> p \<and> p \<le> 65535) \<and> (PACPath h = [] \<or> HasPrefix (PACPath h) ''/'') \<and>
     0 \<le> DialTimeout h \<and> aclRules h = [] \<and> upstream h = None"

lemma parse_ports_range: "parse_ports ps = Inr ports \<Longrightarrow> p \<in> set ports \<Longrightarrow> 1 \<le> p \<and> p \<le> 65535"
  by (induction ps arbitrary: ports) (auto split: option.splits if_splits sum.splits)

lemma parse_pac_ok: "parse_pac args h = Inr h' \<Longrightarrow> caddy_ok h \<Longrightarrow> caddy_ok h'"
  by (auto simp: parse_pac_def caddy_ok_def HasPrefix_def split: if_splits)

lemma parse_subdirective_ok:
  assumes "parse_subdirective env d h = Inr h'" and "caddy_ok h"
  shows "caddy_ok h'"
proof -
  have "parse_ports (sub_args d) = Inr ports \<Longrightarrow> caddy_ok (h\<lparr>AllowedPorts := ports\<rparr>)" for ports
    using assms(2) parse_ports_range [of "sub_args d" ports] by (simp add: caddy_ok_def)
  moreover have "parse_timeout env (sub_args d) h = Inr h' \<Longrightarrow> caddy_ok h'"
    using assms(2) by (auto simp: parse_timeout_def caddy_ok_def split: if_splits option.splits)
  moreover have "parse_basic_auth (sub_args d) h = Inr h' \<Longrightarrow> caddy_ok h'"
    using assms(2) by (auto simp: parse_basic_auth_Inr caddy_ok_def)
  moreover note parse_pac_ok [OF _ assms(2), of "sub_args d" h']
  ultimately show ?thesis
    using assms unfolding parse_subdirective_def Let_def
    by (auto simp: parse_flag_iff parse_int_def split: if_splits sum.splits option.splits) (simp_all add: caddy_ok_def)
qed

lemma parse_block_ok: "parse_block env subs h = Inr h' \<Longrightarrow> caddy_ok h \<Longrightarrow> caddy_ok h'"
  by (induction subs arbitrary: h) (auto split: sum.splits dest: parse_subdirective_ok)

text \<open>What is set up before the upstream.\<close>

definition provisioned :: "handler \<Rightarrow> aclRule list \<Rightarrow> runtime" where
  "provisioned h ars =
     (let h2 = (provision_defaults h)\<lparr>aclRules := aclRules h @ ars @ defaultRules\<rparr>
      in \<lparr>rt_handler = h2, rt_transport = httpTransport h2, rt_dialer = \<lparr>nd_Timeout = DialTimeout h2, nd_KeepAlive = 30 * second\<rparr>,
          rt_upstream = None\<rparr>)"

lemma provision_upstream_Inr:
  assumes "provision_upstream parse print fromURL rt = Inr rt'"
  shows "Upstream (rt_handler rt) = [] \<and> rt' = rt \<or>
    (\<exists>u d. parse (Upstream (rt_handler rt)) = Inr u \<and> fromURL (\<lambda>_. registerHTTPDialer parse print (rt_dialer rt) u) u = Inr d \<and>
      rt' = rt\<lparr>rt_handler := (rt_handler rt)\<lparr>upstream := Some u\<rparr>, rt_upstream := Some d\<rparr> \<and>
      (DisableInsecureUpstreamsCheck (rt_handler rt) \<or> Scheme u = ''https'' \<or> isLocalhost (url_Hostname u)))"
  using assms by (auto simp: provision_upstream_def Let_def split: sum.splits if_splits)

lemma Provision_Inr:
  assumes "Provision metrics parse print fromURL h = Inr rt"
  shows "\<exists>ars. configuredRules (ACL h) = Inr ars \<and> provision_upstream parse print fromURL (provisioned h ars) = Inr rt \<and>
    (ProbeResistance h \<noteq> None \<longrightarrow> AuthCredentials h \<noteq> None)"
  using assms
  by (auto simp: Provision_def Let_def provisionACL_iff provisioned_def provision_defaults_def
    split: option.splits sum.splits if_splits)

text \<open>
  (C26) A handler that comes out of parsing and provisioning is well formed: every allowed port is a
  port, the PAC path is empty or absolute, the dial timeout, which is also that of the dialer, both
  association limits and the idle timeout are positive, the transport's limit is not negative, the rules are the configured ones followed by the built-in ones, probe
  resistance comes with credentials, and an upstream is reached over HTTPS or on the local host
  unless the check was switched off.
\<close>

theorem provisioned_handler_sound:
  assumes "parseCaddyfile env args subs = Inr h" and "Provision metrics parse print fromURL h = Inr rt" and "h' = rt_handler rt"
  shows "(\<forall>p \<in> set (AllowedPorts h'). 1 \<le> p \<and> p \<le> 65535) \<and> (PACPath h' = [] \<or> HasPrefix (PACPath h') ''/'') \<and>
    0 < DialTimeout h' \<and> nd_Timeout (rt_dialer rt) = DialTimeout h' \<and> 0 \<le> tr_MaxIdleConns (rt_transport rt) \<and>
    0 < connectUDPMaxActive h' \<and> 0 < connectUDPMaxClientActive h' \<and> 0 < connectUDPIdleTimeout h' \<and>
    (\<exists>ars. configuredRules (ACL h) = Inr ars \<and> aclRules h' = ars @ defaultRules) \<and>
    (ProbeResistance h' \<noteq> None \<longrightarrow> AuthCredentials h' \<noteq> None) \<and>
    (\<forall>u. upstream h' = Some u \<longrightarrow> DisableInsecureUpstreamsCheck h' \<or> Scheme u = ''https'' \<or> isLocalhost (url_Hostname u))"
proof -
  from assms(1) have "parse_block env subs new_handler = Inr h"
    by (simp add: parseCaddyfile_def UnmarshalCaddyfile_def split: if_splits)
  then have ok: "caddy_ok h" by (rule parse_block_ok) (simp add: caddy_ok_def new_handler_def)
  from Provision_Inr [OF assms(2)] obtain ars where p: "configuredRules (ACL h) = Inr ars"
    "provision_upstream parse print fromURL (provisioned h ars) = Inr rt" "ProbeResistance h \<noteq> None \<longrightarrow> AuthCredentials h \<noteq> None"
    by blast
  let ?rt0 = "provisioned h ars"
  from provision_upstream_Inr [OF p(2)] consider (none) "rt = ?rt0"
    | (some) u d where "rt = ?rt0\<lparr>rt_handler := (rt_handler ?rt0)\<lparr>upstream := Some u\<rparr>, rt_upstream := Some d\<rparr>"
      "DisableInsecureUpstreamsCheck (rt_handler ?rt0) \<or> Scheme u = ''https'' \<or> isLocalhost (url_Hostname u)"
    by metis
  then obtain up where h': "h' = (rt_handler ?rt0)\<lparr>upstream := up\<rparr>"
    "rt_dialer rt = rt_dialer ?rt0" "rt_transport rt = rt_transport ?rt0"
    "\<forall>u. up = Some u \<longrightarrow> upstream (rt_handler ?rt0) = Some u \<or> DisableInsecureUpstreamsCheck (rt_handler ?rt0) \<or>
       Scheme u = ''https'' \<or> isLocalhost (url_Hostname u)"
  proof cases
    case none
    then show thesis using that [of "upstream (rt_handler ?rt0)"] by (simp add: assms(3))
  next
    case (some u d)
    then show thesis using that [of "Some u"] by (simp add: assms(3))
  qed
  show ?thesis using ok p(1,3) h'(4)
    by (simp add: h'(1-3) provisioned_def provision_defaults_def httpTransport_def caddy_ok_def Let_def)
qed

theorem provisioned_handler_sound_witness:
  "\<exists>rt. Provision None (\<lambda>_. Inr caddy_url) (\<lambda>_. ''u'') (\<lambda>reg u. reg u) caddy_parsed = Inr rt \<and> 0 < DialTimeout (rt_handler rt) \<and>
     aclRules (rt_handler rt) = [aclAllRule False] @ defaultRules \<and> (\<forall>p \<in> set (AllowedPorts (rt_handler rt)). 1 \<le> p \<and> p \<le> 65535)"
proof -
  obtain rt where rt: "Provision None (\<lambda>_. Inr caddy_url) (\<lambda>_. ''u'') (\<lambda>reg u. reg u) caddy_parsed = Inr rt"
    using caddy_provision by blast
  have "configuredRules (ACL caddy_parsed) = Inr [aclAllRule False]" by (simp add: caddy_parsed_def newACLRule_def)
  with rt provisioned_handler_sound [OF caddy_parse rt refl] show ?thesis by auto
qed

end
