(* ===== verification/Upstream.thy ===== *)
theory Upstream
  imports Serve_Http Config
begin

text \<open>
  The handler together with its upstream client: what \<open>Provision\<close> builds for an upstream URL, the
  CONNECT requests that the built client sends for the tunnels and the forwarded requests of
  \<open>ServeHTTP\<close>, and what a failure of the client comes to in the handler.
\<close>

section \<open>Tunnels authenticate to the upstream\<close>

lemma ToLower_Proxy_Authorization: "ToLower lower ''Proxy-Authorization'' = ''proxy-authorization''"
proof -
  have "list_all is_ascii ''Proxy-Authorization''" "map ascii_lower ''Proxy-Authorization'' = ''proxy-authorization''" by code_simp+
  then show ?thesis unfolding ToLower_def by (simp only: if_True)
qed

lemma contextHeader_credentials:
  assumes "contextHeader lower h r = Some hdr"
  shows "hdr ''Proxy-Authorization'' = None"
proof -
  have n: "''proxy-authorization'' \<noteq> ''forwarded''" "''proxy-authorization'' \<noteq> ''x-forwarded-for''" "''Forwarded'' \<noteq> ''Proxy-Authorization''"
    by simp_all
  from assms have "hdr = Header_Add (\<lambda>k. if ToLower lower k = ''forwarded'' \<or> ToLower lower k = ''x-forwarded-for'' then Header r k else None)
      ''Forwarded'' (''for='' @ quoted (RemoteAddr r))"
    by (simp add: contextHeader_def split: if_splits)
  then show ?thesis unfolding Header_Add_def canonical_forwarding_keys
    by (simp only: fun_upd_other [OF n(3) [symmetric]] ToLower_Proxy_Authorization n simp_thms if_False)
qed

lemma connect_request_credentials:
  "Header (connect_request c (contextHeader lower h r) address) ''Proxy-Authorization'' = DefaultHeader c ''Proxy-Authorization''"
  by (auto simp: connect_request_def map_add_def dest: contextHeader_credentials split: option.splits)

lemma with_default_port_keeps: "User (with_default_port port u) = User u" "Scheme (with_default_port port u) = Scheme u"
  by (simp_all add: with_default_port_def)

lemma NewHTTPConnectDialer_Inr:
  assumes "NewHTTPConnectDialer parse s = Inr c" and "parse s = Inr u"
  shows "DefaultHeader c = default_header u \<and> Scheme (ProxyURL c) = Scheme u \<and> EnableH2ConnReuse c"
  using assms by (auto simp: NewHTTPConnectDialer_def Let_def default_header_def with_default_port_keeps split: if_splits)

text \<open>
  (C33) Tunnels through an upstream authenticate as configured.  Assume that \<open>proxy.FromURL\<close> calls the
  function registered for the schemes \<open>http\<close> and \<open>https\<close>, and that the upstream URL parses back
  from its printed form.  Then provisioning gives the HTTP client, and the CONNECT request that it
  sends for any request and target names that target, carries the user and password of the URL as
  they are, and passes the credential check of an upstream that knows this user.
\<close>

theorem upstream_connect_authenticates:
  assumes "Provision metrics parse print fromURL h = Inr rt" and "Upstream h \<noteq> []"
    and "\<forall>reg u. Scheme u = ''http'' \<or> Scheme u = ''https'' \<longrightarrow> fromURL reg u = reg u"
    and "parse (Upstream h) = Inr up" and "parse (print up) = Inr up" and "Scheme up = ''http'' \<or> Scheme up = ''https''"
    and "User up = Some (user, Some password)" and "user \<noteq> []" and "CHR '':'' \<notin> set user"
    and "AuthCredentials server = Some [EncodeAuthCredentials user password]"
  shows "\<exists>dialer c. rt_upstream rt = Some (HTTPConnect dialer c) \<and> upstream (rt_handler rt) = Some up \<and>
    (let req = connect_request c (contextHeader lower (rt_handler rt) r) address
     in Method req = ''CONNECT'' \<and> Host req = address \<and> checkCredentials lower server (Header req) = Some (None, Some user))"
proof -
  from Provision_Inr [OF assms(1)] obtain ars where ars: "provision_upstream parse print fromURL (provisioned h ars) = Inr rt" by blast
  have "Upstream (rt_handler (provisioned h ars)) = Upstream h" by (simp add: provisioned_def provision_defaults_def Let_def)
  with provision_upstream_Inr [OF ars] assms(2,4) obtain d where
    "fromURL (\<lambda>_. registerHTTPDialer parse print (rt_dialer (provisioned h ars)) up) up = Inr d"
    and rt: "rt = (provisioned h ars)\<lparr>rt_handler := (rt_handler (provisioned h ars))\<lparr>upstream := Some up\<rparr>, rt_upstream := Some d\<rparr>"
    by (metis sum.inject(2))
  with assms(3,6) have d: "registerHTTPDialer parse print (rt_dialer (provisioned h ars)) up = Inr d" by metis
  then obtain c0 where c0: "NewHTTPConnectDialer parse (print up) = Inr c0"
    "d = HTTPConnect (rt_dialer (provisioned h ars)) (if isLocalhost (url_Hostname up) \<and> Scheme up = ''https'' then c0\<lparr>DialTLS := True\<rparr> else c0)"
    by (auto simp: registerHTTPDialer_def split: sum.splits)
  define c where "c = (if isLocalhost (url_Hostname up) \<and> Scheme up = ''https'' then c0\<lparr>DialTLS := True\<rparr> else c0)"
  have c: "DefaultHeader c = default_header up" using NewHTTPConnectDialer_Inr [OF c0(1) assms(5)] by (simp add: c_def)
  have "DefaultHeader c ''Proxy-Authorization'' = Some [''Basic '' @ EncodeAuthCredentials user password]"
    using c assms(7,8) by (simp add: default_header_def Header_Set_def canonical_forwarding_keys EncodeAuthCredentials_def)
  then have "Header_Get (Header (connect_request c (contextHeader lower (rt_handler rt) r) address)) ''Proxy-Authorization'' =
      ''Basic'' @ '' '' @ EncodeAuthCredentials user password"
    by (simp add: Header_Get_def canonical_forwarding_keys connect_request_credentials)
  then have "\<exists>kind u p. Header_Get (Header (connect_request c (contextHeader lower (rt_handler rt) r) address)) ''Proxy-Authorization'' =
      kind @ '' '' @ EncodeAuthCredentials u p \<and> CHR '' '' \<notin> set kind \<and> ToLower lower kind = ''basic'' \<and>
      (u, p) \<in> set [(user, password)] \<and> Some user = Some u"
    by (intro exI [of _ "''Basic''"] exI [of _ user] exI [of _ password]) (simp add: ToLower_Basic)
  then have "checkCredentials lower server (Header (connect_request c (contextHeader lower (rt_handler rt) r) address)) = Some (None, Some user)"
    using auth_decides [of server "[(user, password)]" lower _ "Some user"] assms(9,10) by simp
  moreover have "rt_upstream rt = Some (HTTPConnect (rt_dialer (provisioned h ars)) c)" "upstream (rt_handler rt) = Some up"
    unfolding rt c0(2) c_def by simp_all
  ultimately show ?thesis by (auto simp: connect_request_def Let_def)
qed

section \<open>A failed upstream request\<close>

text \<open>
  (C38) A broken shared connection makes a forwarded request panic: when the HTTP client has a shared
  HTTP/2 connection on which the request fails, and closing that connection succeeds, the client
  returns neither a connection nor an error, and the handler writes the request to a nil
  connection.
\<close>

theorem upstream_failure_panics:
  assumes "upstream h = Some up" and "URL r = Some u" and "Method r \<noteq> ''CONNECT''" and "ProtoMajor r \<in> {1, 2, 3}"
    and "AuthCredentials h = None" and "ProbeResistance h = None" and "\<not> he_hosts env r"
    and "he_dial env = (\<lambda>ctx network address. fst (fst (DialContext cenv c ctx network address)))"
    and "EnableH2ConnReuse c" and "cachedH2ClientConn c = Some cc" and "cachedH2RawConn c = Some rc" and "cl_can_take cenv cc"
    and "\<forall>req. isl (cl_round_trip cenv cc req)" and "cl_close cenv False rc = None"
  shows "ServeHTTP env h m r w = None"
proof -
  have d: "he_dial env ctx network address = (None, None)" for ctx network address
  proof -
    let ?req = "connect_request c ctx address"
    have "dial_shared cenv c ?req = Some (connectHttp2 cenv ?req rc cc)" using assms(9-12) by (simp add: dial_shared_def)
    moreover obtain e where "cl_round_trip cenv cc (?req\<lparr>Proto := ''HTTP/2.0'', ProtoMajor := 2, ProtoMinor := 0\<rparr>) = Inl e"
      using assms(13) by (auto simp: isl_def)
    ultimately show ?thesis using assms(8,14) by (simp add: DialContext_def connectHttp2_def Let_def)
  qed
  have "serveForward env ctx h err0 r' w = None" for ctx err0 r'
    using assms(1) d by (simp add: serveForward_def fetch_def Let_def)
  with assms(2-7) show ?thesis by (auto simp: ServeHTTP_def serveRequest_def Let_def)
qed

section \<open>Samples\<close>

lemma upstream_provision:
  "\<exists>rt. Provision None (\<lambda>_. Inr sample_upstream) (\<lambda>_. ''u'') (\<lambda>reg u. reg u) (new_handler\<lparr>Upstream := ''u''\<rparr>) = Inr rt"
proof -
  have "configuredRules [] = Inr []" by simp
  then have "\<exists>rules. provisionACL [] = Inr rules" by (simp add: provisionACL_iff)
  then show ?thesis
    by (auto simp: Provision_def provision_upstream_def provision_defaults_def sample_upstream_def new_handler_def Let_def
        registerHTTPDialer_def NewHTTPConnectDialer_def)
qed

theorem upstream_connect_authenticates_witness:
  "\<exists>(rt :: runtime) dialer c. rt_upstream rt = Some (HTTPConnect dialer c) \<and>
     checkCredentials (\<lambda>s. s) (new_handler\<lparr>AuthCredentials := Some [EncodeAuthCredentials ''bob'' ''p@s'']\<rparr>)
       (Header (connect_request c (contextHeader (\<lambda>s. s) (rt_handler rt) sample_get) ''a.b:80'')) = Some (None, Some ''bob'')"
proof -
  obtain rt where rt: "Provision None (\<lambda>_. Inr sample_upstream) (\<lambda>_. ''u'') (\<lambda>reg u. reg u) (new_handler\<lparr>Upstream := ''u''\<rparr>) = Inr rt"
    using upstream_provision by blast
  from upstream_connect_authenticates [OF rt, of sample_upstream "''bob''" "''p@s''"
      "new_handler\<lparr>AuthCredentials := Some [EncodeAuthCredentials ''bob'' ''p@s'']\<rparr>" "\<lambda>s. s" sample_get "''a.b:80''"]
  have "\<exists>dialer c. rt_upstream rt = Some (HTTPConnect dialer c) \<and>
     checkCredentials (\<lambda>s. s) (new_handler\<lparr>AuthCredentials := Some [EncodeAuthCredentials ''bob'' ''p@s'']\<rparr>)
       (Header (connect_request c (contextHeader (\<lambda>s. s) (rt_handler rt) sample_get) ''a.b:80'')) = Some (None, Some ''bob'')"
    unfolding Let_def by (simp add: sample_upstream_def) blast
  then show ?thesis by (rule exI [of _ rt])
qed

theorem upstream_failure_panics_witness:
  "ServeHTTP \<lparr>he_lower = (\<lambda>s. s), he_hosts = (\<lambda>_. False), he_draw = 0, he_bits = 0, he_udp = sample_env,
     he_dial = (\<lambda>ctx network address. fst (fst (DialContext broken_env broken_client ctx network address))), he_ctxErr = None,
     he_race = (\<lambda>_ _ _. Inl EOF), he_flush = None, he_hijack = None, he_buffered = [], he_hijack_flush = None,
     he_draws = (\<lambda>_. 0), he_io = sample_io, he_next = (\<lambda>_. None), he_has_body = False, he_read_body = None,
     he_close_body = None, he_round_trip = (\<lambda>_. Inl EOF), he_upstream_write = None, he_upstream_read = Inl EOF, he_copy_body = None\<rparr>
     (new_handler\<lparr>upstream := Some sample_upstream\<rparr>) sample_metrics sample_get Map.empty = None"
  by (rule upstream_failure_panics [of _ sample_upstream _ "the (URL sample_get)" _ broken_env broken_client 1 2])
    (simp_all add: sample_get_def new_handler_def broken_client_def broken_env_def)

end
