(* ===== verification/Tcp_Static.thy ===== *)
theory Tcp_Static
  imports Tcp_Incremental
begin

text \<open>
  The race over a fixed list of addresses, \<open>dialTCPAddresses\<close> of \<open>connect_dial.go\<close>, as a transition
  system.  Its dial goroutines are the attempts of \<open>Tcp_Pool\<close>; the order of the addresses is
  \<open>interleaveTCPAddresses\<close>.
\<close>

section \<open>The state\<close>

text \<open>
  \<open>Launching\<close> is the check of the context before a start, \<open>Launched\<close> the position between a start and
  the recording of its time, \<open>Listening\<close> the select statement.
\<close>

datatype static_pc = Launching | Launched | Listening | Ended "goerror + nat"

record static_race =
  st_conns :: pool
  st_begun :: "(string \<times> int) list"
  st_next :: nat
  st_pending :: int
  st_lastStart :: int
  st_lastErr :: "goerror option"
  st_timer :: "int option"
  st_now :: int
  st_ctxErr :: "goerror option"
  st_pc :: static_pc

definition static_start :: "string list \<Rightarrow> int \<Rightarrow> goerror option \<Rightarrow> static_race" where
  "static_start addrs t err =
     \<lparr>st_conns = empty_pool, st_begun = [], st_next = 0, st_pending = 0, st_lastStart = t, st_lastErr = None,
      st_timer = None, st_now = t, st_ctxErr = err,
      st_pc = (if length addrs = 0 then Ended (Inl ErrTCPDialFailed) else Launching)\<rparr>"

section \<open>The steps\<close>

definition static_return :: "goerror + nat \<Rightarrow> static_race \<Rightarrow> static_race" where
  "static_return r s = s\<lparr>st_pc := Ended r, st_timer := None,
     st_ctxErr := (case st_ctxErr s of None \<Rightarrow> Some ContextCanceled | Some e \<Rightarrow> Some e)\<rparr>"

definition static_launch :: "string list \<Rightarrow> static_race \<Rightarrow> static_race option" where
  "static_launch addrs s =
     guarded (st_pc s = Launching)
       (case st_ctxErr s of
          Some err \<Rightarrow> static_return (Inl err) s
        | None \<Rightarrow> s\<lparr>st_conns := pool_start (st_conns s), st_begun := st_begun s @ [(addrs ! st_next s, st_now s)],
                    st_pc := Launched\<rparr>)"

definition static_stamp :: "static_race \<Rightarrow> static_race option" where
  "static_stamp s =
     guarded (st_pc s = Launched)
       (s\<lparr>st_lastStart := st_now s, st_next := st_next s + 1, st_pending := st_pending s + 1,
          st_timer := Some (st_now s + tcpFallbackDelay), st_pc := Listening\<rparr>)"

definition static_done :: "static_race \<Rightarrow> static_race option" where
  "static_done s =
     (case st_ctxErr s of None \<Rightarrow> None | Some err \<Rightarrow> guarded (st_pc s = Listening) (static_return (Inl err) s))"

definition static_result :: "string list \<Rightarrow> nat \<Rightarrow> static_race \<Rightarrow> static_race option" where
  "static_result addrs i s =
     (if st_pc s = Listening then
        (case pool_take i (st_conns s) of
           None \<Rightarrow> None
         | Some (r, p) \<Rightarrow>
             let s1 = s\<lparr>st_conns := p, st_pending := st_pending s - 1\<rparr> in
             Some (case r of
                     None \<Rightarrow>
                       (case st_ctxErr s1 of
                          Some err \<Rightarrow> static_return (Inl err) (s1\<lparr>st_conns := pool_close i p\<rparr>)
                        | None \<Rightarrow> static_return (Inr i) s1)
                   | Some err \<Rightarrow>
                       let s2 = s1\<lparr>st_lastErr := Some err\<rparr> in
                       if st_next s2 = length addrs \<and> st_pending s2 = 0 then static_return (Inl err) s2
                       else if st_next s2 < length addrs
                       then s2\<lparr>st_timer := Some (st_now s2 + max 0 (tcpMinimumDelay - (st_now s2 - st_lastStart s2)))\<rparr>
                       else s2))
      else None)"

definition static_timer :: "string list \<Rightarrow> static_race \<Rightarrow> static_race option" where
  "static_timer addrs s =
     (case st_timer s of
        None \<Rightarrow> None
      | Some t \<Rightarrow> guarded (st_pc s = Listening \<and> t \<le> st_now s)
                  (s\<lparr>st_timer := None, st_pc := (if st_next s < length addrs then Launching else Listening)\<rparr>))"

text \<open>The attempt's context is a child of the race's.\<close>

definition static_dial_return :: "nat \<Rightarrow> bool \<Rightarrow> goerror option \<Rightarrow> goerror option \<Rightarrow> static_race \<Rightarrow> static_race option" where
  "static_dial_return i conn err attemptErr s =
     (if st_ctxErr s \<noteq> None \<and> attemptErr = None then None
      else map_option (\<lambda>p. s\<lparr>st_conns := p\<rparr>) (pool_return i conn err attemptErr (st_conns s)))"

definition static_abandon :: "nat \<Rightarrow> static_race \<Rightarrow> static_race option" where
  "static_abandon i s =
     (if st_ctxErr s = None then None else map_option (\<lambda>p. s\<lparr>st_conns := p\<rparr>) (pool_drop i (st_conns s)))"

datatype static_event =
    Pass nat
  | Cancel goerror
  | Return nat bool "goerror option" "goerror option"
  | Discard nat
  | Launch
  | Record
  | OnDone
  | OnResult nat
  | OnTimer

text \<open>The steps of \<open>dialTCPAddresses\<close> for a network and a list of addresses.\<close>

fun static_step :: "string list \<Rightarrow> static_event \<Rightarrow> static_race \<Rightarrow> static_race option" where
  "static_step addrs (Pass d) s = Some (s\<lparr>st_now := st_now s + int d\<rparr>)"
| "static_step addrs (Cancel e) s = guarded (st_ctxErr s = None) (s\<lparr>st_ctxErr := Some e\<rparr>)"
| "static_step addrs (Return i conn err attemptErr) s = static_dial_return i conn err attemptErr s"
| "static_step addrs (Discard i) s = static_abandon i s"
| "static_step addrs Launch s = static_launch addrs s"
| "static_step addrs Record s = static_stamp s"
| "static_step addrs OnDone s = static_done s"
| "static_step addrs (OnResult i) s = static_result addrs i s"
| "static_step addrs OnTimer s = static_timer addrs s"

definition dialTCPAddresses ::
  "string \<Rightarrow> string list \<Rightarrow> int \<Rightarrow> goerror option \<Rightarrow> static_event list \<Rightarrow> static_race option" where
  "dialTCPAddresses network addrs t err evs =
     (let ordered = interleaveTCPAddresses network addrs
      in run_trace (static_step ordered) evs (static_start ordered t err))"

section \<open>Case analysis\<close>

lemma static_step_cases:
  assumes "static_step addrs ev s = Some s'"
  obtains
    (Pass) d where "ev = Pass d" "s' = s\<lparr>st_now := st_now s + int d\<rparr>"
  | (Cancel) e where "ev = Cancel e" "st_ctxErr s = None" "s' = s\<lparr>st_ctxErr := Some e\<rparr>"
  | (Return) i c e a p where "ev = Return i c e a" "st_ctxErr s \<noteq> None \<longrightarrow> a \<noteq> None"
      "pool_return i c e a (st_conns s) = Some p" "s' = s\<lparr>st_conns := p\<rparr>"
  | (Discard) i p where "ev = Discard i" "st_ctxErr s \<noteq> None" "pool_drop i (st_conns s) = Some p" "s' = s\<lparr>st_conns := p\<rparr>"
  | (Refuse) err where "ev = Launch" "st_pc s = Launching" "st_ctxErr s = Some err" "s' = static_return (Inl err) s"
  | (Launch) "ev = Launch" "st_pc s = Launching" "st_ctxErr s = None"
      "s' = s\<lparr>st_conns := pool_start (st_conns s), st_begun := st_begun s @ [(addrs ! st_next s, st_now s)], st_pc := Launched\<rparr>"
  | (Record) "ev = Record" "st_pc s = Launched"
      "s' = s\<lparr>st_lastStart := st_now s, st_next := st_next s + 1, st_pending := st_pending s + 1,
         st_timer := Some (st_now s + tcpFallbackDelay), st_pc := Listening\<rparr>"
  | (Context) err where "ev = OnDone" "st_pc s = Listening" "st_ctxErr s = Some err" "s' = static_return (Inl err) s"
  | (Late) i p err where "ev = OnResult i" "st_pc s = Listening" "pool_take i (st_conns s) = Some (None, p)"
      "st_ctxErr s = Some err" "s' = static_return (Inl err) (s\<lparr>st_pending := st_pending s - 1, st_conns := pool_close i p\<rparr>)"
  | (Win) i p where "ev = OnResult i" "st_pc s = Listening" "pool_take i (st_conns s) = Some (None, p)"
      "st_ctxErr s = None" "s' = static_return (Inr i) (s\<lparr>st_conns := p, st_pending := st_pending s - 1\<rparr>)"
  | (Exhausted) i p e where "ev = OnResult i" "st_pc s = Listening" "pool_take i (st_conns s) = Some (Some e, p)"
      "st_next s = length addrs" "st_pending s = 1"
      "s' = static_return (Inl e) (s\<lparr>st_conns := p, st_pending := st_pending s - 1, st_lastErr := Some e\<rparr>)"
  | (Fail) i p e where "ev = OnResult i" "st_pc s = Listening" "pool_take i (st_conns s) = Some (Some e, p)"
      "\<not> (st_next s = length addrs \<and> st_pending s = 1)"
      "s' = s\<lparr>st_conns := p, st_pending := st_pending s - 1, st_lastErr := Some e,
         st_timer := (if st_next s < length addrs
           then Some (st_now s + max 0 (tcpMinimumDelay - (st_now s - st_lastStart s))) else st_timer s)\<rparr>"
  | (Timer) t where "ev = OnTimer" "st_pc s = Listening" "st_timer s = Some t" "t \<le> st_now s"
      "s' = s\<lparr>st_timer := None, st_pc := (if st_next s < length addrs then Launching else Listening)\<rparr>"
proof (cases ev)
  case (Pass d)
  with assms that(1) show ?thesis by simp
next
  case (Cancel e)
  with assms that(2) show ?thesis by simp
next
  case (Return i c e a)
  with assms that(3) show ?thesis by (auto simp: static_dial_return_def split: if_splits)
next
  case (Discard i)
  with assms that(4) show ?thesis by (auto simp: static_abandon_def split: if_splits)
next
  case Launch
  with assms that(5,6) show ?thesis by (cases "st_ctxErr s") (simp_all add: static_launch_def)
next
  case Record
  with assms that(7) show ?thesis by (simp add: static_stamp_def)
next
  case OnDone
  with assms that(8) show ?thesis by (cases "st_ctxErr s") (simp_all add: static_done_def)
next
  case OnTimer
  with assms that(13) show ?thesis by (cases "st_timer s") (simp_all add: static_timer_def)
next
  case (OnResult i)
  with assms obtain r p where p: "st_pc s = Listening" "pool_take i (st_conns s) = Some (r, p)"
    by (auto simp: static_result_def split: if_splits option.splits)
  with OnResult assms show ?thesis
    using that(9) [OF OnResult] that(10) [OF OnResult] that(11) [OF OnResult] that(12) [OF OnResult]
    by (cases r; cases "st_ctxErr s") (auto simp: static_result_def Let_def split: if_splits)
qed

section \<open>Invariants\<close>

definition static_owner :: "static_race \<Rightarrow> nat set" where
  "static_owner s = (case st_pc s of Ended (Inr i) \<Rightarrow> {i} | _ \<Rightarrow> {})"

lemma static_owner_simps [simp]:
  "st_pc s = Launching \<Longrightarrow> static_owner s = {}" "st_pc s = Launched \<Longrightarrow> static_owner s = {}"
  "st_pc s = Listening \<Longrightarrow> static_owner s = {}" "static_owner (static_return (Inl e) s) = {}"
  "static_owner (static_return (Inr i) s) = {i}"
  by (simp_all add: static_owner_def static_return_def)

lemma static_owner_cong: "st_pc s' = st_pc s \<Longrightarrow> static_owner s' = static_owner s"
  by (simp add: static_owner_def)

lemma static_return_fields [simp]:
  "st_pc (static_return r s) = Ended r" "st_conns (static_return r s) = st_conns s" "st_begun (static_return r s) = st_begun s"
  "st_next (static_return r s) = st_next s" "st_pending (static_return r s) = st_pending s"
  "st_lastErr (static_return r s) = st_lastErr s" "st_lastStart (static_return r s) = st_lastStart s"
  "st_now (static_return r s) = st_now s" "st_timer (static_return r s) = None" "st_ctxErr (static_return r s) \<noteq> None"
  by (simp_all add: static_return_def split: option.splits)

text \<open>Connections: who owns them, as in the incremental race.\<close>

definition static_pool_ok :: "static_race \<Rightarrow> bool" where
  "static_pool_ok s \<longleftrightarrow> pool_ok (static_owner s) (st_conns s) \<and> length (slots (st_conns s)) = length (st_begun s)"

lemma pool_lengths:
  "pool_return i c e a p = Some p' \<Longrightarrow> length (slots p') = length (slots p)"
  "pool_drop i p = Some p' \<Longrightarrow> length (slots p') = length (slots p)"
  "pool_take i p = Some (r, p') \<Longrightarrow> length (slots p') = length (slots p)"
  "length (slots (pool_close i p)) = length (slots p)"
  "length (slots (pool_start p)) = Suc (length (slots p))"
  by (auto simp: pool_return_def pool_drop_Some pool_take_Some pool_close_def pool_start_def Let_def)

lemma static_pool_step:
  assumes "static_step addrs ev s = Some s'" and "static_pool_ok s"
  shows "static_pool_ok s'"
  using assms(1)
proof (cases rule: static_step_cases)
  case (Late i p err)
  with assms(2) pool_ok_take [of i "st_conns s" None p "{}"] have "pool_ok {i} p"
    by (simp add: static_pool_ok_def)
  then have "pool_ok {} (pool_close i p)" using Late(3) by (intro pool_ok_close) (simp_all add: slot_take)
  with Late assms(2) show ?thesis by (simp add: static_pool_ok_def pool_lengths)
next
  case (Win i p)
  with assms(2) pool_ok_take [of i "st_conns s" None p "{}"] show ?thesis by (simp add: static_pool_ok_def pool_lengths(3))
next
  case (Exhausted i p e)
  with assms(2) pool_ok_take [of i "st_conns s" "Some e" p "{}"] show ?thesis by (simp add: static_pool_ok_def pool_lengths(3))
next
  case (Fail i p e)
  with assms(2) pool_ok_take [of i "st_conns s" "Some e" p "{}"] show ?thesis by (simp add: static_pool_ok_def pool_lengths(3))
next
  case Launch
  with assms(2) show ?thesis by (simp add: static_pool_ok_def pool_ok_start pool_lengths)
next
  case (Return i c e a p)
  with assms(2) show ?thesis
    by (simp add: static_pool_ok_def pool_ok_return pool_lengths(1) static_owner_cong [of "s\<lparr>st_conns := p\<rparr>" s])
next
  case (Discard i p)
  with assms(2) show ?thesis
    by (simp add: static_pool_ok_def pool_ok_drop pool_lengths(2) static_owner_cong [of "s\<lparr>st_conns := p\<rparr>" s])
qed (use assms(2) in \<open>auto simp: static_pool_ok_def static_owner_def\<close>)

text \<open>Positions: the addresses are started in order, and what the loop waits for exists.\<close>

definition static_order_ok :: "string list \<Rightarrow> static_race \<Rightarrow> bool" where
  "static_order_ok addrs s \<longleftrightarrow>
     map fst (st_begun s) = take (length (st_begun s)) addrs \<and> length (st_begun s) \<le> length addrs \<and>
     (st_pc s = Launching \<longrightarrow> length (st_begun s) = st_next s \<and> st_next s < length addrs) \<and>
     (st_pc s = Launched \<longrightarrow> length (st_begun s) = Suc (st_next s)) \<and>
     (st_pc s = Listening \<longrightarrow> length (st_begun s) = st_next s \<and> (st_next s < length addrs \<longrightarrow> st_timer s \<noteq> None) \<and>
       (st_next s = length addrs \<longrightarrow> 0 < st_pending s)) \<and> 0 \<le> st_pending s"

definition static_pending_ok :: "static_race \<Rightarrow> bool" where
  "static_pending_ok s \<longleftrightarrow> (\<forall>r. st_pc s \<noteq> Ended r) \<longrightarrow>
     int (card (unfinished (st_conns s))) \<le> st_pending s + (if st_pc s = Launched then 1 else 0) \<and>
     (st_ctxErr s = None \<longrightarrow> int (card (unfinished (st_conns s))) = st_pending s + (if st_pc s = Launched then 1 else 0))"

lemma static_pending_step:
  assumes "static_step addrs ev s = Some s'" and "static_pending_ok s"
  shows "static_pending_ok s'"
  using assms(1)
proof (cases rule: static_step_cases)
  case Launch
  with assms(2) card_unfinished_start [of "st_conns s"] show ?thesis
    by (simp add: static_pending_ok_def del: unfinished_start)
next
  case (Fail i p e)
  with assms(2) card_unfinished_take [OF Fail(3)] show ?thesis by (simp add: static_pending_ok_def)
next
  case (Discard i p)
  with assms(2) card_unfinished_drop [OF Discard(3)] show ?thesis by (auto simp: static_pending_ok_def)
next
  case (Return i c e a p)
  with assms(2) unfinished_return [OF Return(3)] show ?thesis by (simp add: static_pending_ok_def)
qed (use assms(2) in \<open>simp_all add: static_pending_ok_def\<close>)

lemma pending_positive:
  assumes "static_pending_ok s" and "st_pc s = Listening" and "pool_take i (st_conns s) = Some (r, p)"
  shows "1 \<le> st_pending s"
proof -
  have "unfinished (st_conns s) \<noteq> {}" using unfinished_take [OF assms(3)] by auto
  then have "1 \<le> int (card (unfinished (st_conns s)))" by (simp add: Suc_le_eq card_gt_0_iff)
  moreover have "int (card (unfinished (st_conns s))) \<le> st_pending s" using assms(1,2) by (simp add: static_pending_ok_def)
  ultimately show ?thesis by linarith
qed

lemma static_order_step:
  assumes "static_step addrs ev s = Some s'" and "static_order_ok addrs s" and "static_pending_ok s"
  shows "static_order_ok addrs s'"
  using assms(1)
proof (cases rule: static_step_cases)
  case Launch
  with assms(2) show ?thesis by (simp add: static_order_ok_def take_Suc_conv_app_nth)
next
  case (Fail i p e)
  with assms(2) pending_positive [OF assms(3) Fail(2,3)] show ?thesis by (auto simp: static_order_ok_def)
next
  case (Win i p)
  with assms(2) pending_positive [OF assms(3) Win(2,3)] show ?thesis by (simp add: static_order_ok_def)
next
  case (Late i p err)
  with assms(2) pending_positive [OF assms(3) Late(2,3)] show ?thesis by (simp add: static_order_ok_def)
qed (use assms(2) in \<open>auto simp: static_order_ok_def\<close>)

text \<open>Times: the gap is the fallback delay until a dial has failed, and the minimum delay from then on.\<close>

definition static_gap :: "static_race \<Rightarrow> int" where
  "static_gap s = (if st_lastErr s = None then tcpFallbackDelay else tcpMinimumDelay)"

definition static_timing_ok :: "static_race \<Rightarrow> bool" where
  "static_timing_ok s \<longleftrightarrow> spaced (static_gap s) (st_begun s) \<and>
     (st_begun s \<noteq> [] \<longrightarrow> snd (last (st_begun s)) \<le> st_now s \<and>
       (st_pc s = Launching \<longrightarrow> snd (last (st_begun s)) + static_gap s \<le> st_now s) \<and>
       (st_pc s = Listening \<longrightarrow> snd (last (st_begun s)) \<le> st_lastStart s \<and>
         (\<forall>t. st_timer s = Some t \<longrightarrow> snd (last (st_begun s)) + static_gap s \<le> t)))"

lemma static_gap_bounds: "tcpMinimumDelay \<le> static_gap s" "static_gap s \<le> tcpFallbackDelay"
  by (simp_all add: static_gap_def tcpMinimumDelay_def tcpFallbackDelay_def)

lemma static_gap_cong: "st_lastErr s' = st_lastErr s \<Longrightarrow> static_gap s' = static_gap s"
  by (simp add: static_gap_def)

lemma static_timing_step:
  assumes "static_step addrs ev s = Some s'" and "static_timing_ok s"
  shows "static_timing_ok s'"
proof (cases "st_lastErr s' = st_lastErr s")
  case True
  note g = static_gap_cong [OF True]
  from assms(1) show ?thesis
  proof (cases rule: static_step_cases)
    case Launch
    with assms(2) show ?thesis unfolding static_timing_ok_def g by (auto simp: spaced_snoc)
  next
    case Record
    with assms(2) static_gap_bounds(2) [of s] show ?thesis unfolding static_timing_ok_def g by auto
  next
    case (Fail i p e)
    then have "st_lastErr s' = Some e" by simp
    with True have "st_lastErr s = Some e" by simp
    then have "static_gap s = tcpMinimumDelay" by (simp add: static_gap_def)
    with Fail assms(2) show ?thesis unfolding static_timing_ok_def g by (auto split: if_splits)
  next
    case (Timer t)
    with assms(2) show ?thesis unfolding static_timing_ok_def g by auto
  qed (use assms(2) g in \<open>auto simp: static_timing_ok_def\<close>)
next
  case False
  with assms(1) have g: "static_gap s' = tcpMinimumDelay"
    by (cases rule: static_step_cases) (auto simp: static_gap_def)
  have "spaced tcpMinimumDelay (st_begun s)"
    using assms(2) static_gap_bounds(1) [of s] by (auto simp: static_timing_ok_def intro: spaced_mono)
  with assms(1) False show ?thesis unfolding static_timing_ok_def g
    by (cases rule: static_step_cases)
      (use assms(2) static_gap_bounds(1) [of s] in \<open>auto simp: static_timing_ok_def split: if_splits\<close>)
qed

text \<open>Errors: that of the context, or that of the last dial after all addresses have been tried.\<close>

definition static_error_ok :: "(goerror \<Rightarrow> bool) \<Rightarrow> string list \<Rightarrow> static_race \<Rightarrow> bool" where
  "static_error_ok known addrs s \<longleftrightarrow>
     (\<forall>e. st_ctxErr s = Some e \<longrightarrow> (\<forall>r. st_pc s \<noteq> Ended r) \<longrightarrow> known e) \<and>
     (\<forall>e. st_pc s = Ended (Inl e) \<longrightarrow> known e \<or> addrs = [] \<and> e = ErrTCPDialFailed \<or>
        length (st_begun s) = length addrs \<and> st_lastErr s = Some e)"

lemma static_error_step:
  assumes "static_step addrs ev s = Some s'" and "static_error_ok known addrs s" and "static_order_ok addrs s"
    and "\<And>e. ev = Cancel e \<Longrightarrow> known e"
  shows "static_error_ok known addrs s'"
  using assms(1)
proof (cases rule: static_step_cases)
  case (Cancel e)
  with assms(2) assms(4) [OF Cancel(1)] show ?thesis by (simp add: static_error_ok_def)
next
  case (Exhausted i p e)
  with assms(3) have "length (st_begun s) = length addrs" by (simp add: static_order_ok_def)
  with Exhausted show ?thesis by (simp add: static_error_ok_def)
qed (use assms(2) in \<open>simp_all add: static_error_ok_def\<close>)

definition static_ok :: "string list \<Rightarrow> static_race \<Rightarrow> bool" where
  "static_ok addrs s \<longleftrightarrow> static_pool_ok s \<and> static_pending_ok s \<and> static_order_ok addrs s \<and> static_timing_ok s"

interpretation tcp_static: preserved "static_step addrs" "static_ok addrs" for addrs
  by unfold_locales
    (auto simp: static_ok_def intro: static_pool_step static_pending_step static_order_step static_timing_step)

lemma static_ok_start: "static_ok addrs (static_start addrs t err)"
  by (auto simp: static_ok_def static_start_def static_pool_ok_def static_owner_def static_pending_ok_def static_order_ok_def
      static_timing_ok_def unfinished_def slot_def empty_pool_def pool_ok_def)

lemma static_error_trace:
  "run_trace (static_step addrs) evs (static_start addrs t err) = Some s \<Longrightarrow>
     static_error_ok (\<lambda>e. err = Some e \<or> Cancel e \<in> set evs) addrs s"
proof (induction evs arbitrary: s rule: rev_induct)
  case Nil
  then show ?case by (auto simp: static_error_ok_def static_start_def split: if_splits)
next
  case (snoc ev evs)
  then obtain s1 where s1: "run_trace (static_step addrs) evs (static_start addrs t err) = Some s1" "static_step addrs ev s1 = Some s"
    by (auto simp: run_trace_snoc)
  with snoc.IH [of s1] tcp_static.trace_invar [OF s1(1) static_ok_start] show ?case
    by (intro static_error_step [OF s1(2)]) (auto simp: static_error_ok_def static_ok_def)
qed

lemma dialTCPAddresses_ok:
  assumes "dialTCPAddresses network addrs t err evs = Some s"
  shows "static_ok (interleaveTCPAddresses network addrs) s"
    and "static_error_ok (\<lambda>e. err = Some e \<or> Cancel e \<in> set evs) (interleaveTCPAddresses network addrs) s"
  using assms static_error_trace [of "interleaveTCPAddresses network addrs" evs t err s]
    tcp_static.trace_invar [OF _ static_ok_start, of "interleaveTCPAddresses network addrs" evs t err s]
  by (simp_all add: dialTCPAddresses_def Let_def)

section \<open>What the race guarantees\<close>

text \<open>
  (C20) In every execution of the race over a fixed list, the addresses are dialed one by one in the
  interleaved order, at least 100 ms apart and 250 ms apart while no dial has failed.  A returned
  connection is open and belongs to a started attempt; once the race has returned and all attempts
  have ended, no other connection is open.  An error is that of the context, or, after every address
  has been dialed, that of the last failed dial, or the fixed error for an empty list.
\<close>

theorem static_race_sound:
  assumes "dialTCPAddresses network addrs t err evs = Some s"
  defines "ordered \<equiv> interleaveTCPAddresses network addrs"
  shows "map fst (st_begun s) = take (length (st_begun s)) ordered \<and>
    spaced (if st_lastErr s = None then 250000000 else 100000000) (st_begun s) \<and>
    (\<forall>i. st_pc s = Ended (Inr i) \<longrightarrow> i < length (st_begun s) \<and> i \<in> opened (st_conns s) - closed_conns (st_conns s)) \<and>
    (\<forall>r. st_pc s = Ended r \<and> unfinished (st_conns s) = {} \<longrightarrow>
       opened (st_conns s) - closed_conns (st_conns s) = (case r of Inl _ \<Rightarrow> {} | Inr i \<Rightarrow> {i})) \<and>
    (\<forall>e. st_pc s = Ended (Inl e) \<longrightarrow> err = Some e \<or> Cancel e \<in> set evs \<or> ordered = [] \<and> e = ErrTCPDialFailed \<or>
       length (st_begun s) = length ordered \<and> st_lastErr s = Some e)"
proof -
  from dialTCPAddresses_ok(1) [OF assms(1)] have ok: "pool_ok (static_owner s) (st_conns s)"
    "length (slots (st_conns s)) = length (st_begun s)" "static_order_ok ordered s" "static_timing_ok s"
    by (simp_all add: static_ok_def static_pool_ok_def ordered_def)
  have own: "i < length (st_begun s) \<and> i \<in> opened (st_conns s) - closed_conns (st_conns s)" if "st_pc s = Ended (Inr i)" for i
  proof -
    from that have i: "i \<in> static_owner s" by (simp add: static_owner_def)
    from pool_ok_owned [OF ok(1) i] have "i \<in> opened (st_conns s) - closed_conns (st_conns s)" .
    moreover have "slot (st_conns s) i \<noteq> None"
    proof
      assume "slot (st_conns s) i = None"
      moreover have "conn_ok (i \<in> static_owner s) (i \<in> opened (st_conns s)) (i \<in> closed_conns (st_conns s)) (slot (st_conns s) i)"
        using ok(1) by (simp add: pool_ok_def)
      ultimately show False using i by simp
    qed
    ultimately show ?thesis using ok(2) by (auto simp: slot_def split: if_splits)
  qed
  have all: "opened (st_conns s) - closed_conns (st_conns s) = (case r of Inl _ \<Rightarrow> {} | Inr i \<Rightarrow> {i})"
    if "st_pc s = Ended r" "unfinished (st_conns s) = {}" for r
    using pool_ok_live [OF ok(1) that(2)] that(1) by (cases r) (simp_all add: static_owner_def live_def)
  have "spaced (static_gap s) (st_begun s)" using ok(4) by (simp add: static_timing_ok_def)
  then have "spaced (if st_lastErr s = None then 250000000 else 100000000) (st_begun s)"
    by (auto simp: static_gap_def tcpFallbackDelay_def tcpMinimumDelay_def split: if_splits)
  moreover have "map fst (st_begun s) = take (length (st_begun s)) ordered" using ok(3) by (simp add: static_order_ok_def)
  ultimately show ?thesis
    using own all dialTCPAddresses_ok(2) [OF assms(1)] unfolding ordered_def static_error_ok_def by blast
qed

text \<open>What the race itself or an attempt can do next, and what it waits for.\<close>

fun static_environment :: "static_event \<Rightarrow> bool" where
  "static_environment (Pass d) = True"
| "static_environment (Cancel e) = True"
| "static_environment (Return i c e a) = True"
| "static_environment _ = False"

text \<open>
  The race over a fixed list is never stuck: until it has returned, it or one of its attempts can
  take a step, or it waits for its armed timer, or for an attempt that is still dialing.
\<close>

theorem static_race_not_stuck:
  assumes "dialTCPAddresses network addrs t err evs = Some s" and "\<forall>r. st_pc s \<noteq> Ended r"
  shows "(\<exists>ev. \<not> static_environment ev \<and> static_step (interleaveTCPAddresses network addrs) ev s \<noteq> None) \<or>
    st_timer s \<noteq> None \<or> (\<exists>i < length (st_begun s). slots (st_conns s) ! i = Dialing)"
proof -
  let ?ordered = "interleaveTCPAddresses network addrs"
  from dialTCPAddresses_ok(1) [OF assms(1)] have ok: "static_pending_ok s" "static_order_ok ?ordered s"
    "length (slots (st_conns s)) = length (st_begun s)"
    by (simp_all add: static_ok_def static_pool_ok_def)
  consider "st_pc s = Launching" | "st_pc s = Launched" | "st_pc s = Listening" "st_next s < length ?ordered"
    | "st_pc s = Listening" "st_next s = length ?ordered"
    using assms(2) ok(2) by (cases "st_pc s") (auto simp: static_order_ok_def le_less)
  then show ?thesis
  proof cases
    case 1
    then have "static_step ?ordered Launch s \<noteq> None" by (simp add: static_launch_def)
    then show ?thesis by (metis static_environment.simps(5))
  next
    case 2
    then have "static_step ?ordered Record s \<noteq> None" by (simp add: static_stamp_def)
    then show ?thesis by (metis static_environment.simps(6))
  next
    case 3
    with ok(2) show ?thesis by (simp add: static_order_ok_def)
  next
    case 4
    show ?thesis
    proof (cases "st_ctxErr s")
      case None
      from 4 ok(2) have "0 < st_pending s" by (simp add: static_order_ok_def)
      with None 4 ok(1) have "card (unfinished (st_conns s)) \<noteq> 0" by (auto simp: static_pending_ok_def)
      then obtain i where "i \<in> unfinished (st_conns s)" by (metis card.empty ex_in_conv)
      then consider "slot (st_conns s) i = Some Dialing" | r where "slot (st_conns s) i = Some (Offering r)"
        by (auto simp: unfinished_def)
      then show ?thesis
      proof cases
        case 1
        with ok(3) have "i < length (st_begun s) \<and> slots (st_conns s) ! i = Dialing"
          by (auto simp: slot_def split: if_splits)
        then show ?thesis by blast
      next
        case (2 r)
        with 4(1) have "static_step ?ordered (OnResult i) s \<noteq> None"
          by (simp add: static_result_def pool_take_def slot_def Let_def split: if_splits)
        then show ?thesis by (metis static_environment.simps(8))
      qed
    next
      case (Some e)
      with 4 have "static_step ?ordered OnDone s \<noteq> None" by (simp add: static_done_def)
      then show ?thesis by (metis static_environment.simps(7))
    qed
  qed
qed

section \<open>An execution\<close>

text \<open>The first dial fails, the second one is brought forward and wins.\<close>

definition static_events :: "static_event list" where
  "static_events = [Launch, Record, Pass 50000000, Return 0 False (Some (NetError False)) None, OnResult 0, Pass 50000000, OnTimer,
     Launch, Record, Return 1 True None None]"

lemma static_sample_order:
  "interleaveTCPAddresses ''tcp'' [''192.0.2.1:443'', ''[2001:db8::1]:443''] = [''192.0.2.1:443'', ''[2001:db8::1]:443'']"
  by (simp add: interleave_eq sample_addresses)

definition static_sample :: static_race where
  "static_sample = \<lparr>st_conns = \<lparr>slots = [Delivered, Offering None], opened = {1}, closed_conns = {}\<rparr>,
     st_begun = [(''192.0.2.1:443'', 0), (''[2001:db8::1]:443'', 100000000)], st_next = 2, st_pending = 1, st_lastStart = 100000000,
     st_lastErr = Some (NetError False), st_timer = Some 350000000, st_now = 100000000, st_ctxErr = None, st_pc = Listening\<rparr>"

lemma static_sample_run:
  "dialTCPAddresses ''tcp'' [''192.0.2.1:443'', ''[2001:db8::1]:443''] 0 None static_events = Some static_sample"
  by (simp add: dialTCPAddresses_def static_sample_order static_events_def static_start_def static_launch_def static_stamp_def
      static_dial_return_def static_result_def static_timer_def static_sample_def pool_start_def pool_return_def pool_take_def
      empty_pool_def guarded_def Let_def tcpFallbackDelay_def tcpMinimumDelay_def)

theorem static_race_sound_witness:
  "spaced 100000000 (st_begun static_sample) \<and> map fst (st_begun static_sample) = [''192.0.2.1:443'', ''[2001:db8::1]:443'']"
  using static_race_sound [OF static_sample_run] unfolding static_sample_order by (simp add: static_sample_def)

theorem static_race_not_stuck_witness:
  "(\<exists>ev. \<not> static_environment ev \<and> static_step [''192.0.2.1:443'', ''[2001:db8::1]:443''] ev static_sample \<noteq> None) \<or>
    st_timer static_sample \<noteq> None \<or> (\<exists>i < length (st_begun static_sample). slots (st_conns static_sample) ! i = Dialing)"
  using static_race_not_stuck [OF static_sample_run] unfolding static_sample_order by (simp add: static_sample_def)

end
