(* ===== verification/Udp_Metrics.thy ===== *)
theory Udp_Metrics
  imports Udp_Admission
begin

text \<open>
  Creation and registration of the CONNECT-UDP collectors: \<open>initConnectUDPMetrics\<close> of
  \<open>native_udp_metrics.go\<close>.  The registry of the metrics library is a parameter: \<open>Register\<close> adds a
  collector to it, or reports that it is registered already, or another error.
\<close>

datatype collector_kind = Gauge | Counter | CounterVec "string list" | Histogram "int list"

record collector =
  col_kind :: collector_kind
  col_name :: string
  col_help :: string

text \<open>The fully qualified name; the bounds of the histogram are in hundredths of a second.\<close>

definition metric_name :: "string \<Rightarrow> string" where
  "metric_name name = ''caddy'' @ ''_'' @ ''forward_proxy'' @ ''_'' @ name"

definition metric_collectors :: "collector list" where
  "metric_collectors =
     [\<lparr>col_kind = Gauge, col_name = metric_name ''connect_udp_active_associations'',
       col_help = ''Current CONNECT-UDP associations admitted by forward proxy.''\<rparr>,
      \<lparr>col_kind = Gauge, col_name = metric_name ''connect_udp_active_associations_peak'',
       col_help = ''Highest number of concurrent CONNECT-UDP associations since process start.''\<rparr>,
      \<lparr>col_kind = Counter, col_name = metric_name ''connect_udp_associations_total'',
       col_help = ''Total CONNECT-UDP associations admitted by forward proxy.''\<rparr>,
      \<lparr>col_kind = CounterVec [''limit''], col_name = metric_name ''connect_udp_admission_rejections_total'',
       col_help = ''CONNECT-UDP requests rejected by an admission limit.''\<rparr>,
      \<lparr>col_kind = CounterVec [''reason''], col_name = metric_name ''connect_udp_closures_total'',
       col_help = ''CONNECT-UDP associations closed by reason.''\<rparr>,
      \<lparr>col_kind = Histogram [1, 10, 100, 500, 3000, 12000, 30000], col_name = metric_name ''connect_udp_association_duration_seconds'',
       col_help = ''Lifetime of admitted CONNECT-UDP associations in seconds.''\<rparr>]"

datatype register_error = AlreadyRegisteredError | RegisterError goerror

fun register_collectors ::
  "(collector \<Rightarrow> 'r \<Rightarrow> register_error option \<times> 'r) \<Rightarrow> collector list \<Rightarrow> 'r \<Rightarrow> goerror option \<times> 'r" where
  "register_collectors Register [] registry = (None, registry)"
| "register_collectors Register (c # cs) registry =
     (case Register c registry of
        (Some (RegisterError err), registry') \<Rightarrow> (Some err, registry')
      | (_, registry') \<Rightarrow> register_collectors Register cs registry')"

text \<open>The collectors are created once per process, which makes the recording operations effective.\<close>

definition initConnectUDPMetrics ::
  "(collector \<Rightarrow> 'r \<Rightarrow> register_error option \<times> 'r) \<Rightarrow> 'r option \<Rightarrow> udpMetrics \<Rightarrow> goerror option \<times> 'r option \<times> udpMetrics" where
  "initConnectUDPMetrics Register registry m =
     (case registry of
        None \<Rightarrow> (Some (ErrorString ''no metrics registry found''), None, m)
      | Some reg \<Rightarrow>
          (case register_collectors Register metric_collectors reg of (err, reg') \<Rightarrow> (err, Some reg', m\<lparr>ready := True\<rparr>)))"

section \<open>Provisioning again\<close>

lemma register_twice:
  assumes "\<And>c reg. c \<in> registered reg \<Longrightarrow> Register c reg = (Some AlreadyRegisteredError, reg)"
  shows "set cs \<subseteq> registered reg \<Longrightarrow> register_collectors Register cs reg = (None, reg)"
  by (induction cs) (simp_all add: assms)

lemma register_all:
  assumes "\<And>c reg. c \<in> registered reg \<Longrightarrow> Register c reg = (Some AlreadyRegisteredError, reg)"
    and "\<And>c reg reg'. Register c reg = (None, reg') \<Longrightarrow> registered reg' = insert c (registered reg)"
    and "\<And>c reg reg'. Register c reg = (Some AlreadyRegisteredError, reg') \<Longrightarrow> c \<in> registered reg"
  shows "register_collectors Register cs reg = (None, reg') \<Longrightarrow> registered reg' = set cs \<union> registered reg"
proof (induction cs arbitrary: reg)
  case (Cons c cs)
  obtain e reg1 where r: "Register c reg = (e, reg1)" by (metis prod.exhaust)
  show ?case
  proof (cases e)
    case None
    with Cons r assms(2) [of c reg reg1] show ?thesis by auto
  next
    case (Some err)
    with Cons.prems r have e: "err = AlreadyRegisteredError" by (cases err) auto
    with Some r assms(3) [of c reg reg1] have c: "c \<in> registered reg" by simp
    with assms(1) [OF this] r have "reg1 = reg" by simp
    with Cons e Some r c show ?thesis by auto
  qed
qed simp

text \<open>
  Provisioning is repeatable: a second initialisation with the same registry, as after a reload of the
  configuration, succeeds and changes neither the registry nor the recorded metrics.
\<close>

theorem metrics_init_repeatable:
  assumes already: "\<And>c reg. c \<in> registered reg \<Longrightarrow> Register c reg = (Some AlreadyRegisteredError, reg)"
    and added: "\<And>c reg reg'. Register c reg = (None, reg') \<Longrightarrow> registered reg' = insert c (registered reg)"
    and present: "\<And>c reg reg'. Register c reg = (Some AlreadyRegisteredError, reg') \<Longrightarrow> c \<in> registered reg"
    and "initConnectUDPMetrics Register registry m = (None, registry', m')"
  shows "initConnectUDPMetrics Register registry' m' = (None, registry', m') \<and> ready m' \<and>
    activePeakValue m' = activePeakValue m \<and> calls m' = calls m"
proof -
  from assms(4) obtain reg reg' where r: "registry = Some reg" "registry' = Some reg'" "m' = m\<lparr>ready := True\<rparr>"
    "register_collectors Register metric_collectors reg = (None, reg')"
    by (auto simp: initConnectUDPMetrics_def split: option.splits prod.splits)
  have "registered reg' = set metric_collectors \<union> registered reg"
    by (rule register_all [where Register = Register]) (fact already added present r(4))+
  then have "set metric_collectors \<subseteq> registered reg'" by blast
  then have "register_collectors Register metric_collectors reg' = (None, reg')"
    by (rule register_twice [where Register = Register and registered = registered, rotated]) (fact already)
  with r show ?thesis by (simp add: initConnectUDPMetrics_def)
qed

lemma metric_names_distinct: "distinct (map col_name metric_collectors)"
  by (simp add: metric_collectors_def metric_name_def)

end
