(* ===== verification/Interop_Client.thy ===== *)
theory Interop_Client
  imports Go_Io Go_Http Go_Base64 "HOL-Library.State_Monad"
begin

text \<open>
  The interoperability client \<open>cmd/m4-rfc9298-client/main.go\<close>.  The QUIC and HTTP/3 libraries, the
  sockets and the clock are the operations of a network over a world of type \<open>'w\<close>; a function of the
  client is a state transformer of that world that ends with an error or a value.  \<open>parse\<close> is
  \<open>url.Parse\<close>.  Durations are in nanoseconds.
\<close>

section \<open>Functions with errors\<close>

type_synonym ('w, 'a) io = "('w, goerror + 'a) state"

definition go_return :: "'a \<Rightarrow> ('w, 'a) io" where
  "go_return x = State_Monad.return (Inr x)"

definition go_error :: "goerror \<Rightarrow> ('w, 'a) io" where
  "go_error err = State_Monad.return (Inl err)"

text \<open>\<open>x, err := m; if err != nil { return err }\<close> followed by the rest, and \<open>defer\<close>.\<close>

definition go_try :: "('w, 'a) io \<Rightarrow> ('a \<Rightarrow> ('w, 'b) io) \<Rightarrow> ('w, 'b) io" where
  "go_try m f = do { r \<leftarrow> m; case r of Inl err \<Rightarrow> go_error err | Inr x \<Rightarrow> f x }"

definition deferred :: "('w, 'a) state \<Rightarrow> ('w, unit) state \<Rightarrow> ('w, 'a) state" where
  "deferred m cleanup = do { r \<leftarrow> m; cleanup; State_Monad.return r }"

text \<open>\<open>if err := m; err != nil { return fmt.Errorf("...: %w", err) }\<close>.\<close>

definition wrap_error :: "string \<Rightarrow> ('w, 'a) io \<Rightarrow> ('w, 'a) io" where
  "wrap_error message m =
     do { r \<leftarrow> m; State_Monad.return (case r of Inl err \<Rightarrow> Inl (Errorf message err) | Inr x \<Rightarrow> Inr x) }"

section \<open>The network\<close>

text \<open>
  Connections, streams and sockets are numbers.  \<open>nw_wait_settings\<close> waits for the settings or the
  context and gives the two flags if the settings are not nil; \<open>nw_receive\<close> takes the timeout of
  a derived context; \<open>nw_spawn\<close> starts the goroutine that answers the packets of a socket and
  \<open>nw_spawn_tcp\<close> the one that serves a connection of a listener, which is told the error of its
  write; \<open>nw_wait_stream\<close> tells whether the stream's context ended before the operation's.
\<close>

type_synonym udp_fixture = "bytes \<Rightarrow> bytes option"
type_synonym tcp_fixture = "goerror + reader \<Rightarrow> goerror option \<Rightarrow> bytes \<times> goerror option"

record 'w network =
  nw_dial :: "string \<Rightarrow> string \<Rightarrow> ('w, nat) io"
  nw_wait_settings :: "nat \<Rightarrow> ('w, (bool \<times> bool) option) io"
  nw_close_conn :: "nat \<Rightarrow> string \<Rightarrow> ('w, unit) state"
  nw_open :: "nat \<Rightarrow> ('w, nat) io"
  nw_send_header :: "nat \<Rightarrow> request \<Rightarrow> ('w, unit) io"
  nw_read_response :: "nat \<Rightarrow> ('w, int \<times> header) io"
  nw_send :: "nat \<Rightarrow> bytes \<Rightarrow> ('w, unit) io"
  nw_receive :: "int option \<Rightarrow> nat \<Rightarrow> ('w, bytes) io"
  nw_cancel_read :: "nat \<Rightarrow> ('w, unit) state"
  nw_cancel_write :: "nat \<Rightarrow> ('w, unit) state"
  nw_write :: "nat \<Rightarrow> bytes \<Rightarrow> ('w, unit) io"
  nw_read :: "nat \<Rightarrow> ('w, reader) state"
  nw_unread :: "nat \<Rightarrow> reader \<Rightarrow> ('w, unit) state"
  nw_wait_stream :: "nat \<Rightarrow> ('w, bool) state"
  nw_resolve :: "string \<Rightarrow> string \<Rightarrow> ('w, string) io"
  nw_listen :: "string \<Rightarrow> string \<Rightarrow> ('w, nat \<times> int) io"
  nw_spawn :: "nat \<Rightarrow> udp_fixture \<Rightarrow> ('w, unit) state"
  nw_close_socket :: "nat \<Rightarrow> ('w, unit) state"
  nw_listen_tcp :: "string \<Rightarrow> string \<Rightarrow> ('w, nat \<times> string) io"
  nw_spawn_tcp :: "nat \<Rightarrow> tcp_fixture \<Rightarrow> ('w, unit) state"
  nw_target_result :: "nat \<Rightarrow> ('w, unit) io"
  nw_now :: "('w, int) state"
  nw_sleep :: "int \<Rightarrow> ('w, unit) state"
  nw_print :: "string \<Rightarrow> ('w, unit) state"
  nw_stderr :: "goerror \<Rightarrow> ('w, unit) state"

abbreviation msec :: int where "msec \<equiv> 1000000"
abbreviation sec :: int where "sec \<equiv> 1000000000"

section \<open>Opening a stream\<close>

definition clientProtocol :: string where "clientProtocol = ''connect-udp''"
definition clientURIPrefix :: string where "clientURIPrefix = ''/.well-known/masque/udp/''"
definition privateDomainTarget :: string where "privateDomainTarget = ''m4-private-target.localhost''"
definition privatePayload :: string where "privatePayload = ''m4-g5-private-payload''"

record interop_client =
  c_proxy :: string
  c_auth :: string
  c_conn :: nat

definition basic_auth :: "string \<Rightarrow> string \<Rightarrow> string" where
  "basic_auth username password =
     (if username \<noteq> [] \<or> password \<noteq> [] then ''Basic '' @ base64_encode (username @ '':'' @ password) else [])"

definition dialClient :: "'w network \<Rightarrow> string \<Rightarrow> string \<Rightarrow> string \<Rightarrow> ('w, interop_client) io" where
  "dialClient net proxy username password =
     (case SplitHostPort proxy of
        Inl err \<Rightarrow> go_error (AddrError err)
      | Inr (host, _) \<Rightarrow>
          go_try (nw_dial net proxy host) (\<lambda>qconn. do {
            waited \<leftarrow> nw_wait_settings net qconn;
            case waited of
              Inl err \<Rightarrow> do { nw_close_conn net qconn ''settings timeout''; go_error err }
            | Inr settings \<Rightarrow>
                if settings \<noteq> Some (True, True) then do {
                  nw_close_conn net qconn ''missing settings'';
                  go_error (ErrorString ''server did not negotiate RFC 9297 settings'') }
                else go_return \<lparr>c_proxy = proxy, c_auth = basic_auth username password, c_conn = qconn\<rparr> }))"

definition close_client :: "'w network \<Rightarrow> interop_client \<Rightarrow> ('w, unit) state" where
  "close_client net c = nw_close_conn net (c_conn c) ''interop complete''"

text \<open>\<open>url.PathEscape\<close>.\<close>

definition PathEscape :: "string \<Rightarrow> string" where
  "PathEscape s =
     concat (map (\<lambda>c. if unreserved c \<or> c \<in> set ''$&+:=@'' then [c]
        else [CHR ''%'', upper_hex (byte_of c div 16), upper_hex (byte_of c mod 16)]) s)"

definition open_url :: "interop_client \<Rightarrow> string \<Rightarrow> int \<Rightarrow> string" where
  "open_url c host port =
     ''https://'' @ c_proxy c @ clientURIPrefix @ PathEscape host @ ''/'' @ Itoa port @ ''/''"

definition open_request :: "interop_client \<Rightarrow> url \<Rightarrow> request" where
  "open_request c u =
     (let hdr = Header_Set Map.empty ''Capsule-Protocol'' ''?1'';
          hdr' = (if c_auth c \<noteq> [] then Header_Set hdr ''Proxy-Authorization'' (c_auth c) else hdr)
      in \<lparr>Method = ''CONNECT'', URL = Some u, Proto = clientProtocol, ProtoMajor = 3, ProtoMinor = 0,
          Header = hdr', Host = url_Host u, RemoteAddr = [], RequestURI = []\<rparr>)"

definition open_stream ::
  "'w network \<Rightarrow> (string \<Rightarrow> goerror + url) \<Rightarrow> interop_client \<Rightarrow> string \<Rightarrow> int \<Rightarrow> ('w, nat \<times> int) io" where
  "open_stream net parse c host port =
     go_try (nw_open net (c_conn c)) (\<lambda>stream.
       case parse (open_url c host port) of
         Inl err \<Rightarrow> go_error err
       | Inr u \<Rightarrow>
           go_try (nw_send_header net stream (open_request c u)) (\<lambda>_.
             go_try (nw_read_response net stream) (\<lambda>(status, _). go_return (stream, status))))"

definition closeStream :: "'w network \<Rightarrow> nat \<Rightarrow> ('w, unit) state" where
  "closeStream net stream = do { nw_cancel_read net stream; nw_cancel_write net stream }"

section \<open>Datagrams\<close>

definition encode :: "bytes \<Rightarrow> bytes" where
  "encode payload = [0] @ payload"

definition decode :: "bytes \<Rightarrow> goerror + bytes" where
  "decode datagram =
     (if length datagram = 0 \<or> datagram ! 0 \<noteq> 0 then Inl (ErrorString ''non-canonical or unsupported Context ID'')
      else Inr (drop 1 datagram))"

text \<open>The verb \<open>%x\<close> of package \<open>fmt\<close> on bytes, and \<open>[]byte(s)\<close>.\<close>

definition hex :: "bytes \<Rightarrow> string" where
  "hex bs = concat (map (\<lambda>b. map (\<lambda>d. ''0123456789abcdef'' ! d) [unat b div 16, unat b mod 16]) bs)"

definition bytes_of :: "string \<Rightarrow> bytes" where
  "bytes_of s = map (\<lambda>c. word_of_nat (byte_of c)) s"

definition echo ::
  "'w network \<Rightarrow> (string \<Rightarrow> goerror + url) \<Rightarrow> interop_client \<Rightarrow> string \<Rightarrow> int \<Rightarrow> bytes \<Rightarrow> ('w, unit) io" where
  "echo net parse c host port payload =
     go_try (open_stream net parse c host port) (\<lambda>(stream, status).
       deferred
         (if status \<noteq> StatusOK then go_error (ErrorString (''CONNECT-UDP returned '' @ Itoa status))
          else
            go_try (nw_send net stream (encode payload)) (\<lambda>_.
              go_try (nw_receive net None stream) (\<lambda>datagram.
                case decode datagram of
                  Inl err \<Rightarrow> go_error err
                | Inr got \<Rightarrow>
                    if got \<noteq> payload
                    then go_error (ErrorString (''echo mismatch: got '' @ hex got @ '' want '' @ hex payload))
                    else go_return ())))
         (closeStream net stream))"

section \<open>Fixtures\<close>

text \<open>What the goroutines of the fixtures answer to a packet, read into their buffers.\<close>

definition echo_reply :: udp_fixture where
  "echo_reply packet = Some (take 65535 packet)"

definition dns_reply :: udp_fixture where
  "dns_reply packet =
     (let received = take 512 packet in
      if length received < 12 then None
      else Some (received[2 := received ! 2 OR 0x80, 3 := received ! 3 OR 0x80, 6 := 0, 7 := 0]))"

definition startEcho :: "'w network \<Rightarrow> string \<Rightarrow> string \<Rightarrow> ('w, nat \<times> int) io" where
  "startEcho net network address =
     go_try (nw_resolve net network address) (\<lambda>udpAddress.
       go_try (nw_listen net network udpAddress) (\<lambda>(conn, port). do {
         nw_spawn net conn echo_reply;
         go_return (conn, port) }))"

definition startDualStackEcho :: "'w network \<Rightarrow> ('w, nat \<times> nat \<times> int) io" where
  "startDualStackEcho net =
     go_try (startEcho net ''udp6'' ''[::1]:0'') (\<lambda>(ipv6, port). do {
       r \<leftarrow> startEcho net ''udp4'' (JoinHostPort ''127.0.0.1'' (Itoa port));
       case r of
         Inl err \<Rightarrow> do { nw_close_socket net ipv6; go_error err }
       | Inr (ipv4, _) \<Rightarrow> go_return (ipv4, ipv6, port) })"

definition startDNSFixture :: "'w network \<Rightarrow> ('w, nat \<times> int) io" where
  "startDNSFixture net =
     go_try (nw_listen net ''udp4'' ''127.0.0.1:0'') (\<lambda>(conn, port). do {
       nw_spawn net conn dns_reply;
       go_return (conn, port) })"

definition dnsQuery :: bytes where
  "dnsQuery =
     [0x4d, 0x34, 0x01, 0x00, 0x00, 0x01, 0x00, 0x00,
      0x00, 0x00, 0x00, 0x00, 0x02] @ bytes_of ''m4'' @ [0x07] @ bytes_of ''example'' @
     [0x00, 0x00, 0x01, 0x00, 0x01]"

section \<open>Mode matrix\<close>

definition loopback :: string where "loopback = ''127.0.0.1''"

definition matrix_echoes ::
  "'w network \<Rightarrow> (string \<Rightarrow> goerror + url) \<Rightarrow> interop_client \<Rightarrow> int \<Rightarrow> int \<Rightarrow> ('w, unit) io" where
  "matrix_echoes net parse c ipv4Port dualPort =
     go_try (echo net parse c loopback ipv4Port (bytes_of (privatePayload @ ''-ipv4''))) (\<lambda>_.
     go_try (echo net parse c ''::1'' dualPort (bytes_of (privatePayload @ ''-ipv6''))) (\<lambda>_.
     go_try (echo net parse c privateDomainTarget dualPort (bytes_of (privatePayload @ ''-domain''))) (\<lambda>_.
     go_try (wrap_error ''zero-length datagram: '' (echo net parse c loopback ipv4Port [])) (\<lambda>_.
     wrap_error ''safe maximum probe: '' (echo net parse c loopback ipv4Port (replicate 1024 0xa5))))))"

definition dns_response_ok :: "bytes \<Rightarrow> bool" where
  "dns_response_ok r \<longleftrightarrow> \<not> (length r < 12 \<or> r ! 0 \<noteq> 0x4d \<or> r ! 1 \<noteq> 0x34 \<or> r ! 2 AND 0x80 = 0)"

definition matrix_dns ::
  "'w network \<Rightarrow> (string \<Rightarrow> goerror + url) \<Rightarrow> interop_client \<Rightarrow> int \<Rightarrow> ('w, unit) io" where
  "matrix_dns net parse c dnsPort =
     go_try (open_stream net parse c loopback dnsPort) (\<lambda>(stream, status).
       if status \<noteq> StatusOK then do {
         closeStream net stream;
         go_error (ErrorString (''DNS CONNECT-UDP returned '' @ Itoa status)) }
       else do {
         sent \<leftarrow> nw_send net stream (encode dnsQuery);
         case sent of
           Inl err \<Rightarrow> do { closeStream net stream; go_error err }
         | Inr _ \<Rightarrow> do {
             received \<leftarrow> nw_receive net None stream;
             closeStream net stream;
             case received of
               Inl err \<Rightarrow> go_error err
             | Inr dnsDatagram \<Rightarrow>
                 (case decode dnsDatagram of
                    Inl err \<Rightarrow> go_error (Errorf ''invalid deterministic DNS response:  '' err)
                  | Inr dnsResponse \<Rightarrow>
                      if dns_response_ok dnsResponse then go_return ()
                      else go_error (ErrorString (''invalid deterministic DNS response: '' @ hex dnsResponse @ '' <nil>''))) } })"

text \<open>\<open>fmt.Errorf("...: status=%d err=%v", status, err)\<close> when the two are not as wanted.\<close>

definition status_error :: "string \<Rightarrow> goerror + nat \<times> int \<Rightarrow> goerror" where
  "status_error message r =
     (case r of
        Inl err \<Rightarrow> Errorf (message @ '': status=0 err='') err
      | Inr (_, status) \<Rightarrow> ErrorString (message @ '': status='' @ Itoa status @ '' err=<nil>''))"

definition opened_ok :: "goerror + nat \<times> int \<Rightarrow> bool" where
  "opened_ok r = (case r of Inl _ \<Rightarrow> False | Inr (_, status) \<Rightarrow> status = StatusOK)"

abbreviation opened_stream :: "goerror + nat \<times> int \<Rightarrow> nat" where
  "opened_stream r \<equiv> fst (projr r)"

definition matrix_oversize ::
  "'w network \<Rightarrow> (string \<Rightarrow> goerror + url) \<Rightarrow> interop_client \<Rightarrow> int \<Rightarrow> ('w, unit) io" where
  "matrix_oversize net parse c ipv4Port = do {
     r \<leftarrow> open_stream net parse c loopback ipv4Port;
     if \<not> opened_ok r then go_error (status_error ''oversize stream'' r)
     else do {
       let stream = opened_stream r;
       oversize \<leftarrow> nw_send net stream (encode (replicate 65535 0));
       if oversize \<noteq> Inl ErrDatagramTooLarge then do {
         closeStream net stream;
         go_error (case oversize of
            Inl err \<Rightarrow> Errorf ''oversize datagram was not rejected locally: '' err
          | Inr _ \<Rightarrow> ErrorString ''oversize datagram was not rejected locally: <nil>'') }
       else do {
         sent \<leftarrow> nw_send net stream (encode (bytes_of ''post-oversize''));
         case sent of
           Inl err \<Rightarrow> do { closeStream net stream; go_error err }
         | Inr _ \<Rightarrow> do {
             received \<leftarrow> nw_receive net None stream;
             closeStream net stream;
             case received of
               Inl err \<Rightarrow> go_error err
             | Inr postOversize \<Rightarrow>
                 (case decode postOversize of
                    Inl err \<Rightarrow> go_error (Errorf ''association unhealthy after oversize:  '' err)
                  | Inr decoded \<Rightarrow>
                      if decoded = bytes_of ''post-oversize'' then go_return ()
                      else go_error (ErrorString (''association unhealthy after oversize: '' @ hex decoded @ '' <nil>''))) } } } }"

text \<open>
  The eight goroutines take turns as wholes, in the order in which they finish; the channel then holds
  their errors in that order.
\<close>

fun parallel_errors ::
  "'w network \<Rightarrow> (string \<Rightarrow> goerror + url) \<Rightarrow> interop_client \<Rightarrow> int \<Rightarrow> nat list \<Rightarrow> ('w, goerror list) state" where
  "parallel_errors net parse c port [] = State_Monad.return []"
| "parallel_errors net parse c port (index # order) = do {
     r \<leftarrow> echo net parse c loopback port (bytes_of (''parallel-'' @ Itoa (int index)));
     errs \<leftarrow> parallel_errors net parse c port order;
     State_Monad.return (case r of Inl err \<Rightarrow> err # errs | Inr _ \<Rightarrow> errs) }"

definition matrix_parallel ::
  "'w network \<Rightarrow> (string \<Rightarrow> goerror + url) \<Rightarrow> interop_client \<Rightarrow> int \<Rightarrow> nat list \<Rightarrow> ('w, unit) io" where
  "matrix_parallel net parse c port order = do {
     errs \<leftarrow> parallel_errors net parse c port order;
     case errs of [] \<Rightarrow> go_return () | err # _ \<Rightarrow> go_error (Errorf ''parallel stream: '' err) }"

definition matrix_cancel ::
  "'w network \<Rightarrow> (string \<Rightarrow> goerror + url) \<Rightarrow> interop_client \<Rightarrow> int \<Rightarrow> ('w, unit) io" where
  "matrix_cancel net parse c port = do {
     r \<leftarrow> open_stream net parse c loopback port;
     if \<not> opened_ok r then go_error (status_error ''cancel stream'' r)
     else do {
       closeStream net (opened_stream r);
       nw_sleep net (50 * msec);
       wrap_error ''association unhealthy after cancellation: ''
         (echo net parse c loopback port (bytes_of ''post-cancel'')) } }"

definition matrix_report :: "'w network \<Rightarrow> ('w, unit) io" where
  "matrix_report net = do {
     nw_print net ''M4_G5_IPV4_OK'';
     nw_print net ''M4_G5_IPV6_OK'';
     nw_print net ''M4_G5_DOMAIN_OK'';
     nw_print net ''M4_G5_DNS_OK'';
     nw_print net ''M4_G5_ZERO_MAX_OVERSIZE_OK'';
     nw_print net ''M4_G5_MULTISTREAM_CANCEL_OK'';
     nw_print net ''M4_G5_H3_DATAGRAM_EVIDENCE_OK settings=extended-connect,datagram transport=RequestStream.SendDatagram'';
     go_return () }"

definition matrix_checks ::
  "'w network \<Rightarrow> (string \<Rightarrow> goerror + url) \<Rightarrow> interop_client \<Rightarrow> nat list \<Rightarrow> int \<Rightarrow> int \<Rightarrow> int \<Rightarrow> ('w, unit) io" where
  "matrix_checks net parse c order ipv4Port dualPort dnsPort =
     go_try (matrix_echoes net parse c ipv4Port dualPort) (\<lambda>_.
     go_try (matrix_dns net parse c dnsPort) (\<lambda>_.
     go_try (matrix_oversize net parse c ipv4Port) (\<lambda>_.
     go_try (matrix_parallel net parse c ipv4Port order) (\<lambda>_.
     go_try (matrix_cancel net parse c ipv4Port) (\<lambda>_. matrix_report net)))))"

definition runMatrix ::
  "'w network \<Rightarrow> (string \<Rightarrow> goerror + url) \<Rightarrow> nat list \<Rightarrow> interop_client \<Rightarrow> ('w, unit) io" where
  "runMatrix net parse order c =
     go_try (startEcho net ''udp4'' ''127.0.0.1:0'') (\<lambda>(ipv4, ipv4Port).
       deferred
         (go_try (startDualStackEcho net) (\<lambda>(ipv4Domain, ipv6, dualPort).
            deferred
              (deferred
                (go_try (startDNSFixture net) (\<lambda>(dns, dnsPort).
                   deferred (matrix_checks net parse c order ipv4Port dualPort dnsPort) (nw_close_socket net dns)))
                (nw_close_socket net ipv6))
              (nw_close_socket net ipv4Domain)))
         (nw_close_socket net ipv4))"

section \<open>Mode limits\<close>

text \<open>The streams opened so far are closed at the end in every case, so they are part of the results.\<close>

type_synonym 'w with_streams = "('w, goerror option \<times> nat list) state"

fun admit_streams ::
  "'w network \<Rightarrow> (string \<Rightarrow> goerror + url) \<Rightarrow> interop_client \<Rightarrow> interop_client \<Rightarrow> int \<Rightarrow> nat list \<Rightarrow> nat list \<Rightarrow>
   'w with_streams" where
  "admit_streams net parse c second port [] streams = State_Monad.return (None, streams)"
| "admit_streams net parse c second port (i # rest) streams = do {
     r \<leftarrow> open_stream net parse (if i \<ge> 64 then second else c) loopback port;
     if \<not> opened_ok r then
       State_Monad.return (Some (status_error (''association admission '' @ Itoa (int (length streams + 1))) r), streams)
     else admit_streams net parse c second port rest (streams @ [opened_stream r]) }"

fun replace_stream ::
  "'w network \<Rightarrow> (string \<Rightarrow> goerror + url) \<Rightarrow> interop_client \<Rightarrow> int \<Rightarrow> nat \<Rightarrow> nat list \<Rightarrow> 'w with_streams" where
  "replace_stream net parse c port 0 streams =
     State_Monad.return (Some (ErrorString ''released association capacity was not reusable''), streams)"
| "replace_stream net parse c port (Suc attempts) streams = do {
     nw_sleep net (50 * msec);
     r \<leftarrow> open_stream net parse c loopback port;
     case r of
       Inl err \<Rightarrow> State_Monad.return (Some err, streams)
     | Inr (replacement, replacementStatus) \<Rightarrow>
         if replacementStatus = StatusOK then do {
           nw_print net ''M4_G5_RESOURCE_LIMIT_OK'';
           State_Monad.return (None, streams @ [replacement]) }
         else do {
           closeStream net replacement;
           replace_stream net parse c port attempts streams } }"

definition limit_checks ::
  "'w network \<Rightarrow> (string \<Rightarrow> goerror + url) \<Rightarrow> interop_client \<Rightarrow> interop_client \<Rightarrow> int \<Rightarrow> 'w with_streams" where
  "limit_checks net parse c second port = do {
     admitted \<leftarrow> admit_streams net parse c second port [0..<128] [];
     case admitted of
       (Some err, streams) \<Rightarrow> State_Monad.return (Some err, streams)
     | (None, streams) \<Rightarrow> do {
         r \<leftarrow> open_stream net parse c loopback port;
         case r of
           Inl err \<Rightarrow> State_Monad.return (Some err, streams)
         | Inr (rejected, status) \<Rightarrow> do {
             closeStream net rejected;
             if status \<noteq> StatusServiceUnavailable then
               State_Monad.return
                 (Some (ErrorString (''129th association: got '' @ Itoa status @ '' want 503'')), streams)
             else do {
               closeStream net (hd streams);
               replace_stream net parse c port 20 (tl streams) } } } }"

fun close_streams :: "'w network \<Rightarrow> nat list \<Rightarrow> ('w, unit) state" where
  "close_streams net [] = State_Monad.return ()"
| "close_streams net (stream # streams) = do { closeStream net stream; close_streams net streams }"

definition runLimits :: "'w network \<Rightarrow> (string \<Rightarrow> goerror + url) \<Rightarrow> interop_client \<Rightarrow> ('w, unit) io" where
  "runLimits net parse c =
     go_try (dialClient net (c_proxy c) [] []) (\<lambda>dialed.
       deferred
         (let second = dialed\<lparr>c_auth := c_auth c\<rparr> in
          go_try (startEcho net ''udp4'' ''127.0.0.1:0'') (\<lambda>(echo_socket, port).
            deferred
              (do {
                 checked \<leftarrow> limit_checks net parse c second port;
                 close_streams net (snd checked);
                 case fst checked of None \<Rightarrow> go_return () | Some err \<Rightarrow> go_error err })
              (nw_close_socket net echo_socket)))
         (close_client net dialed))"

section \<open>Modes idle and shutdown\<close>

text \<open>The checks on an open stream in mode idle; the printed duration is left out.\<close>

definition idle_checks ::
  "'w network \<Rightarrow> (string \<Rightarrow> goerror + url) \<Rightarrow> interop_client \<Rightarrow> int \<Rightarrow> nat \<Rightarrow> ('w, unit) io" where
  "idle_checks net parse c port stream = do {
     started \<leftarrow> nw_now net;
     waited \<leftarrow> nw_receive net (Some (125 * sec)) stream;
     ended \<leftarrow> nw_now net;
     case waited of
       Inr _ \<Rightarrow> go_error (ErrorString ''idle association unexpectedly produced a datagram'')
     | Inl _ \<Rightarrow>
         if ended - started < 120 * sec
         then go_error (ErrorString ''association closed before production idle bound'')
         else do {
           sent \<leftarrow> nw_send net stream (encode (bytes_of ''expired-stream''));
           late \<leftarrow> (case sent of
             Inl err \<Rightarrow> go_error err
           | Inr _ \<Rightarrow> nw_receive net (Some (500 * msec)) stream);
           case late of
             Inr datagram \<Rightarrow> go_error (ErrorString (''expired association still echoed: '' @ hex datagram))
           | Inl _ \<Rightarrow>
               go_try (wrap_error ''fresh association after idle expiry: ''
                 (echo net parse c loopback port (bytes_of ''post-idle''))) (\<lambda>_. do {
                   nw_print net ''M4_G5_IDLE_CLIENT_RECOVERY_OK'';
                   go_return () }) } }"

definition runIdle :: "'w network \<Rightarrow> (string \<Rightarrow> goerror + url) \<Rightarrow> interop_client \<Rightarrow> ('w, unit) io" where
  "runIdle net parse c =
     go_try (startEcho net ''udp4'' ''127.0.0.1:0'') (\<lambda>(echo_socket, port).
       deferred
         (do {
            r \<leftarrow> open_stream net parse c loopback port;
            if \<not> opened_ok r then go_error (status_error ''idle stream'' r)
            else deferred (idle_checks net parse c port (opened_stream r)) (closeStream net (opened_stream r)) })
         (nw_close_socket net echo_socket))"

definition runShutdown :: "'w network \<Rightarrow> (string \<Rightarrow> goerror + url) \<Rightarrow> interop_client \<Rightarrow> ('w, unit) io" where
  "runShutdown net parse c =
     go_try (startEcho net ''udp4'' ''127.0.0.1:0'') (\<lambda>(echo_socket, port).
       deferred
         (do {
            r \<leftarrow> open_stream net parse c loopback port;
            if \<not> opened_ok r then go_error (status_error ''shutdown stream'' r)
            else
              let stream = opened_stream r in
              deferred
                (go_try (nw_send net stream (encode (bytes_of ''shutdown-ready''))) (\<lambda>_.
                 go_try (nw_receive net None stream) (\<lambda>_. do {
                   nw_print net ''M4_G5_SHUTDOWN_CLIENT_READY'';
                   stream_ended \<leftarrow> nw_wait_stream net stream;
                   if stream_ended then do {
                     nw_print net ''M4_G5_SERVER_SHUTDOWN_OBSERVED'';
                     go_return () }
                   else go_error (ErrorString ''server shutdown did not close the active H3 stream'') })))
                (closeStream net stream) })
         (nw_close_socket net echo_socket))"

section \<open>Mode tcp-padding\<close>

text \<open>The goroutine of the target: what it writes, and the result it puts into the channel.\<close>

definition tcp_target :: tcp_fixture where
  "tcp_target accepted write_error =
     (case accepted of
        Inl err \<Rightarrow> ([], Some err)
      | Inr conn \<Rightarrow>
          (case ReadFull 1 conn of
             (_, Some err, _) \<Rightarrow> ([], Some err)
           | (bs, None, _) \<Rightarrow>
               if bs ! 0 \<noteq> 120 then ([], Some (ErrorString ''unexpected TCP request byte''))
               else ([121], write_error)))"

text \<open>\<open>http.NewRequest\<close> for the method CONNECT and a URL with a port.\<close>

definition new_connect :: "url \<Rightarrow> request" where
  "new_connect u =
     \<lparr>Method = ''CONNECT'', URL = Some u, Proto = ''HTTP/1.1'', ProtoMajor = 1, ProtoMinor = 1,
      Header = Map.empty, Host = url_Host u, RemoteAddr = [], RequestURI = []\<rparr>"

definition padding_request :: "interop_client \<Rightarrow> url \<Rightarrow> request" where
  "padding_request c u =
     (let req = new_connect u;
          hdr = (if c_auth c \<noteq> [] then Header_Set (Header req) ''Proxy-Authorization'' (c_auth c) else Header req);
          hdr1 = Header_Set hdr ''Padding'' ''cover'';
          hdr2 = Header_Set hdr1 ''Padding-Type-Request'' ''1, 0''
      in req\<lparr>Header := hdr2\<rparr>)"

definition padding_reply_ok :: "header \<Rightarrow> bool" where
  "padding_reply_ok hdr \<longleftrightarrow> \<not> (Header_Get hdr ''Padding-Type-Reply'' \<noteq> ''1'' \<or> Header_Get hdr ''Padding'' = [])"

text \<open>Reading the padded response; indexing the empty slice of a frame without bytes does not happen,
  since the size is compared first.\<close>

definition read_padded :: "reader \<Rightarrow> (goerror + unit) \<times> reader" where
  "read_padded stream =
     (case ReadFull 3 stream of
        (_, Some err, rest) \<Rightarrow> (Inl err, rest)
      | (header, None, rest) \<Rightarrow>
          let payloadSize = unat (header ! 0) * 256 + unat (header ! 1); paddingSize = unat (header ! 2) in
          (case ReadFull (payloadSize + paddingSize) rest of
             (_, Some err, rest') \<Rightarrow> (Inl err, rest')
           | (framed, None, rest') \<Rightarrow>
               (if payloadSize \<noteq> 1 \<or> framed ! 0 \<noteq> 121
                then Inl (ErrorString ''TCP CONNECT padded response mismatch'') else Inr (), rest')))"

definition padding_checks ::
  "'w network \<Rightarrow> (string \<Rightarrow> goerror + url) \<Rightarrow> interop_client \<Rightarrow> nat \<Rightarrow> string \<Rightarrow> nat \<Rightarrow> ('w, unit) io" where
  "padding_checks net parse c target addr stream =
     (case parse (''https://'' @ addr @ ''/'') of
        Inl err \<Rightarrow> go_error err
      | Inr u \<Rightarrow>
          go_try (nw_send_header net stream (padding_request c u)) (\<lambda>_.
          go_try (nw_write net stream [0, 1, 0, 120]) (\<lambda>_.
          go_try (nw_read_response net stream) (\<lambda>(status, hdr).
            if status \<noteq> StatusOK then go_error (ErrorString (''TCP CONNECT returned '' @ Itoa status))
            else if \<not> padding_reply_ok hdr
            then go_error (ErrorString ''TCP CONNECT response lacks negotiated padding headers'')
            else do {
              r \<leftarrow> nw_read net stream;
              nw_unread net stream (snd (read_padded r));
              case fst (read_padded r) of
                Inl err \<Rightarrow> go_error err
              | Inr _ \<Rightarrow>
                  go_try (nw_target_result net target) (\<lambda>_. do {
                    nw_print net ''M6_H3_TCP_PADDING_INTEROP_OK'';
                    go_return () }) }))))"

definition runTCPPadding :: "'w network \<Rightarrow> (string \<Rightarrow> goerror + url) \<Rightarrow> interop_client \<Rightarrow> ('w, unit) io" where
  "runTCPPadding net parse c =
     go_try (nw_listen_tcp net ''tcp4'' ''127.0.0.1:0'') (\<lambda>(target, addr).
       deferred
         (do {
            nw_spawn_tcp net target tcp_target;
            go_try (nw_open net (c_conn c)) (\<lambda>stream.
              deferred (padding_checks net parse c target addr stream) (closeStream net stream)) })
         (nw_close_socket net target))"

section \<open>The program\<close>

text \<open>The socket of mode smoke is closed when \<open>main\<close> returns, which it does on success only.\<close>

definition runSmoke :: "'w network \<Rightarrow> (string \<Rightarrow> goerror + url) \<Rightarrow> interop_client \<Rightarrow> ('w, unit) io" where
  "runSmoke net parse c =
     go_try (startEcho net ''udp4'' ''127.0.0.1:0'') (\<lambda>(echo_socket, port).
       go_try (echo net parse c loopback port (bytes_of ''smoke'')) (\<lambda>_. do {
         nw_print net ''M4_G5_BINARY_SMOKE_OK'';
         nw_close_socket net echo_socket;
         go_return () }))"

definition run_mode ::
  "'w network \<Rightarrow> (string \<Rightarrow> goerror + url) \<Rightarrow> nat list \<Rightarrow> string \<Rightarrow> interop_client \<Rightarrow> ('w, unit) io" where
  "run_mode net parse order mode c =
     (if mode = ''smoke'' then runSmoke net parse c
      else if mode = ''matrix'' then runMatrix net parse order c
      else if mode = ''limits'' then runLimits net parse c
      else if mode = ''idle'' then runIdle net parse c
      else if mode = ''shutdown'' then runShutdown net parse c
      else if mode = ''tcp-padding'' then runTCPPadding net parse c
      else go_error (ErrorString (''unknown mode '' @ [char_of (34 :: nat)] @ mode @ [char_of (34 :: nat)])))"

text \<open>The exit status; \<open>os.Exit(1)\<close> runs no deferred calls, so the connection is closed on success only.\<close>

definition client_main ::
  "'w network \<Rightarrow> (string \<Rightarrow> goerror + url) \<Rightarrow> nat list \<Rightarrow> string \<Rightarrow> string \<Rightarrow> string \<Rightarrow> string \<Rightarrow> ('w, int) state" where
  "client_main net parse order mode proxy username password = do {
     dialed \<leftarrow> dialClient net proxy username password;
     case dialed of
       Inl err \<Rightarrow> do { nw_stderr net err; State_Monad.return 1 }
     | Inr c \<Rightarrow> do {
         r \<leftarrow> run_mode net parse order mode c;
         case r of
           Inl err \<Rightarrow> do { nw_stderr net err; State_Monad.return 1 }
         | Inr _ \<Rightarrow> do { close_client net c; State_Monad.return 0 } } }"

end
