(* ===== verification/Interop_Service.thy ===== *)
theory Interop_Service
  imports Interop_Client
begin

text \<open>
  What the interoperability client relies on: the contract of a CONNECT-UDP service as a locale over
  the client's network, and the client's checks proved from it once.
\<close>

section \<open>Running\<close>

lemma run_go_return [simp]: "run_state (go_return x) w = (Inr x, w)"
  by (simp add: go_return_def)

lemma run_go_error [simp]: "run_state (go_error err) w = (Inl err, w)"
  by (simp add: go_error_def)

lemma run_go_try [simp]:
  "run_state (go_try m f) w =
     (case run_state m w of (Inl err, w') \<Rightarrow> (Inl err, w') | (Inr x, w') \<Rightarrow> run_state (f x) w')"
  by (auto simp: go_try_def split: sum.splits prod.splits)

lemma run_deferred [simp]:
  "run_state (deferred m cleanup) w =
     (case run_state m w of (r, w') \<Rightarrow> (case run_state cleanup w' of (_, w'') \<Rightarrow> (r, w'')))"
  by (auto simp: deferred_def split: prod.splits)

lemma run_wrap_error [simp]:
  "run_state (wrap_error message m) w =
     (case run_state m w of (Inl err, w') \<Rightarrow> (Inl (Errorf message err), w') | (Inr x, w') \<Rightarrow> (Inr x, w'))"
  by (auto simp: wrap_error_def split: sum.splits prod.splits)

lemma decode_encode [simp]: "decode (encode p) = Inr p"
  by (simp add: decode_def encode_def)

section \<open>The contract\<close>

text \<open>
  \<open>tunnels\<close> are the open associations with the address they lead to and the datagrams that wait for the
  client; \<open>sockets\<close> are the fixtures that answer at an address.  A free slot is given to a member for
  an approved target, a full table refuses with 503, closing frees the slot, a payload that fits is
  answered by the fixture, and one that does not fit is rejected locally.
\<close>

locale udp_service =
  fixes net :: "'w network" and parse :: "string \<Rightarrow> goerror + url" and member :: "interop_client \<Rightarrow> bool"
    and inv :: "'w \<Rightarrow> bool" and tunnels :: "'w \<Rightarrow> nat \<rightharpoonup> string \<times> bytes list"
    and sockets :: "'w \<Rightarrow> string \<rightharpoonup> udp_fixture" and approved :: "string \<Rightarrow> int \<Rightarrow> bool"
    and route :: "string \<Rightarrow> int \<Rightarrow> string" and capacity :: nat and mtu :: nat
  assumes tunnels_finite: "inv w \<Longrightarrow> finite (dom (tunnels w))"
    and open_free: "inv w \<Longrightarrow> member c \<Longrightarrow> approved host port \<Longrightarrow> sockets w (route host port) \<noteq> None \<Longrightarrow>
      card (dom (tunnels w)) < capacity \<Longrightarrow>
      \<exists>s w'. run_state (open_stream net parse c host port) w = (Inr (s, StatusOK), w') \<and> inv w' \<and>
        sockets w' = sockets w \<and> tunnels w s = None \<and> tunnels w' = (tunnels w)(s \<mapsto> (route host port, []))"
    and open_full: "inv w \<Longrightarrow> member c \<Longrightarrow> approved host port \<Longrightarrow> capacity \<le> card (dom (tunnels w)) \<Longrightarrow>
      \<exists>s w'. run_state (open_stream net parse c host port) w = (Inr (s, StatusServiceUnavailable), w') \<and> inv w' \<and>
        sockets w' = sockets w \<and> tunnels w s = None \<and> tunnels w' = tunnels w"
    and closing: "inv w \<Longrightarrow> \<exists>w'. run_state (closeStream net s) w = ((), w') \<and> inv w' \<and> sockets w' = sockets w \<and>
      tunnels w' = (tunnels w)(s := None)"
    and sending: "inv w \<Longrightarrow> tunnels w s = Some (a, q) \<Longrightarrow> sockets w a = Some f \<Longrightarrow> length p < mtu \<Longrightarrow>
      \<exists>w'. run_state (nw_send net s (0 # p)) w = (Inr (), w') \<and> inv w' \<and> sockets w' = sockets w \<and>
        tunnels w' = (tunnels w)(s \<mapsto>
          (a, q @ (case f p of None \<Rightarrow> [] | Some r \<Rightarrow> if length r < mtu then [0 # r] else [])))"
    and oversized: "inv w \<Longrightarrow> mtu < length d \<Longrightarrow> run_state (nw_send net s d) w = (Inl ErrDatagramTooLarge, w)"
    and receiving: "inv w \<Longrightarrow> tunnels w s = Some (a, d # q) \<Longrightarrow>
      \<exists>w'. run_state (nw_receive net None s) w = (Inr d, w') \<and> inv w' \<and> sockets w' = sockets w \<and>
        tunnels w' = (tunnels w)(s \<mapsto> (a, q))"
    and printing: "inv w \<Longrightarrow> \<exists>w'. run_state (nw_print net t) w = ((), w') \<and> inv w' \<and> sockets w' = sockets w \<and>
      tunnels w' = tunnels w"
    and sleeping: "inv w \<Longrightarrow> \<exists>w'. run_state (nw_sleep net dur) w = ((), w') \<and> inv w' \<and> sockets w' = sockets w \<and>
      tunnels w' = tunnels w"
begin

definition kept :: "'w \<Rightarrow> 'w \<Rightarrow> bool" where
  "kept w w' \<longleftrightarrow> inv w' \<and> sockets w' = sockets w \<and> tunnels w' = tunnels w"

text \<open>One exchange on an open stream: send, receive, close.\<close>

lemma exchange:
  assumes "inv w" and "tunnels w s = Some (a, [])" and "sockets w a = Some f" and "length p < mtu"
    and "f p = Some r" and "length r < mtu"
  shows "\<exists>w1 w2 w3. run_state (nw_send net s (encode p)) w = (Inr (), w1) \<and>
    run_state (nw_receive net None s) w1 = (Inr (encode r), w2) \<and> run_state (closeStream net s) w2 = ((), w3) \<and>
    inv w3 \<and> sockets w3 = sockets w \<and> tunnels w3 = (tunnels w)(s := None)"
proof -
  from sending [OF assms(1-4)] assms(5,6) obtain w1 where
    w1: "run_state (nw_send net s (encode p)) w = (Inr (), w1)" "inv w1" "sockets w1 = sockets w"
      "tunnels w1 = (tunnels w)(s \<mapsto> (a, [encode r]))" by (auto simp: encode_def)
  from receiving [OF w1(2), of s a "encode r" "[]"] w1 obtain w2 where
    w2: "run_state (nw_receive net None s) w1 = (Inr (encode r), w2)" "inv w2" "sockets w2 = sockets w"
      "tunnels w2 = (tunnels w)(s \<mapsto> (a, []))" by auto
  from closing [OF w2(2), of s] w2 obtain w3 where
    "run_state (closeStream net s) w2 = ((), w3)" "inv w3" "sockets w3 = sockets w" "tunnels w3 = (tunnels w)(s := None)"
    by auto
  with w1 w2 show ?thesis by blast
qed

lemma echo_ok:
  assumes "inv w" and "member c" and "approved host port" and "sockets w (route host port) = Some echo_reply"
    and "card (dom (tunnels w)) < capacity" and "length payload < mtu" and "length payload \<le> 65535"
  shows "\<exists>w'. run_state (echo net parse c host port payload) w = (Inr (), w') \<and> kept w w'"
proof -
  from open_free [OF assms(1-3) _ assms(5)] assms(4) obtain s w1 where
    w1: "run_state (open_stream net parse c host port) w = (Inr (s, StatusOK), w1)" "inv w1"
      "sockets w1 = sockets w" "tunnels w s = None" "tunnels w1 = (tunnels w)(s \<mapsto> (route host port, []))" by auto
  have r: "echo_reply payload = Some payload" using assms(7) by (simp add: echo_reply_def)
  from exchange [of w1 s "route host port" echo_reply payload payload] w1 assms(4,6) r obtain w2 w3 w4 where
    "run_state (nw_send net s (encode payload)) w1 = (Inr (), w2)"
    "run_state (nw_receive net None s) w2 = (Inr (encode payload), w3)" "run_state (closeStream net s) w3 = ((), w4)"
    "inv w4" "sockets w4 = sockets w1" "tunnels w4 = (tunnels w1)(s := None)" by auto
  moreover from w1(4) have "(tunnels w)(s := None) = tunnels w" by auto
  ultimately show ?thesis
    using w1 by (auto simp: echo_def kept_def)
qed

lemma kept_refl: "inv w \<Longrightarrow> kept w w"
  by (simp add: kept_def)

lemma kept_trans: "kept w w' \<Longrightarrow> kept w' w'' \<Longrightarrow> kept w w''"
  by (simp add: kept_def)

lemma print_kept:
  assumes "inv w"
  obtains w' where "run_state (nw_print net t) w = ((), w')" "kept w w'"
  using printing [OF assms] by (auto simp: kept_def)

text \<open>The world in which the checks of mode matrix start.\<close>

definition fixtures_run :: "interop_client \<Rightarrow> int \<Rightarrow> int \<Rightarrow> int \<Rightarrow> 'w \<Rightarrow> bool" where
  "fixtures_run c ipv4Port dualPort dnsPort w \<longleftrightarrow>
     inv w \<and> member c \<and> card (dom (tunnels w)) < capacity \<and> 1024 < mtu \<and> mtu < 65536 \<and>
     approved loopback ipv4Port \<and> approved ''::1'' dualPort \<and> approved privateDomainTarget dualPort \<and>
     approved loopback dnsPort \<and>
     sockets w (route loopback ipv4Port) = Some echo_reply \<and> sockets w (route ''::1'' dualPort) = Some echo_reply \<and>
     sockets w (route privateDomainTarget dualPort) = Some echo_reply \<and>
     sockets w (route loopback dnsPort) = Some dns_reply"

lemma fixtures_kept: "fixtures_run c p d n w \<Longrightarrow> kept w w' \<Longrightarrow> fixtures_run c p d n w'"
  by (simp add: fixtures_run_def kept_def)

lemma matrix_echo:
  assumes "fixtures_run c p d n w" and "(host, port) \<in> {(loopback, p), (''::1'', d), (privateDomainTarget, d)}"
    and "length payload \<le> 1024"
  shows "\<exists>w'. run_state (echo net parse c host port payload) w = (Inr (), w') \<and> kept w w' \<and> fixtures_run c p d n w'"
proof -
  have "\<exists>w'. run_state (echo net parse c host port payload) w = (Inr (), w') \<and> kept w w'"
    by (rule echo_ok) (use assms in \<open>auto simp: fixtures_run_def\<close>)
  with fixtures_kept [OF assms(1)] show ?thesis by blast
qed

lemma matrix_echoes_ok:
  assumes "fixtures_run c p d n w"
  shows "\<exists>w'. run_state (matrix_echoes net parse c p d) w = (Inr (), w') \<and> kept w w' \<and> fixtures_run c p d n w'"
proof -
  have len: "length (bytes_of (privatePayload @ t)) = 21 + length t" for t
    by (simp add: bytes_of_def privatePayload_def)
  obtain w1 where w1: "run_state (echo net parse c loopback p (bytes_of (privatePayload @ ''-ipv4''))) w = (Inr (), w1)"
    "kept w w1" "fixtures_run c p d n w1"
    using matrix_echo [OF assms, of loopback p "bytes_of (privatePayload @ ''-ipv4'')"] len by auto
  obtain w2 where w2: "run_state (echo net parse c ''::1'' d (bytes_of (privatePayload @ ''-ipv6''))) w1 = (Inr (), w2)"
    "kept w1 w2" "fixtures_run c p d n w2"
    using matrix_echo [OF w1(3), of "''::1''" d "bytes_of (privatePayload @ ''-ipv6'')"] len by auto
  obtain w3 where w3: "run_state (echo net parse c privateDomainTarget d (bytes_of (privatePayload @ ''-domain''))) w2 = (Inr (), w3)"
    "kept w2 w3" "fixtures_run c p d n w3"
    using matrix_echo [OF w2(3), of privateDomainTarget d "bytes_of (privatePayload @ ''-domain'')"] len by auto
  obtain w4 where w4: "run_state (echo net parse c loopback p []) w3 = (Inr (), w4)"
    "kept w3 w4" "fixtures_run c p d n w4"
    using matrix_echo [OF w3(3), of loopback p "[]"] by auto
  obtain w5 where w5: "run_state (echo net parse c loopback p (replicate 1024 0xa5)) w4 = (Inr (), w5)"
    "kept w4 w5" "fixtures_run c p d n w5"
    using matrix_echo [OF w4(3), of loopback p "replicate 1024 0xa5"] by auto
  have "kept w w5" using w1(2) w2(2) w3(2) w4(2) w5(2) kept_trans by blast
  with w1(1) w2(1) w3(1) w4(1) w5(1,3) show ?thesis by (simp add: matrix_echoes_def)
qed

lemma dns_reply_query: "\<exists>r. dns_reply dnsQuery = Some r \<and> dns_response_ok r \<and> length r \<le> 1024"
  by (simp add: dns_reply_def dnsQuery_def bytes_of_def dns_response_ok_def)

lemma matrix_dns_ok:
  assumes "fixtures_run c p d n w"
  shows "\<exists>w'. run_state (matrix_dns net parse c n) w = (Inr (), w') \<and> kept w w' \<and> fixtures_run c p d n w'"
proof -
  from assms have f: "inv w" "member c" "approved loopback n" "sockets w (route loopback n) = Some dns_reply"
    "card (dom (tunnels w)) < capacity" "1024 < mtu" by (simp_all add: fixtures_run_def)
  from open_free [OF f(1-3) _ f(5)] f(4) obtain s w1 where
    w1: "run_state (open_stream net parse c loopback n) w = (Inr (s, StatusOK), w1)" "inv w1"
      "sockets w1 = sockets w" "tunnels w s = None" "tunnels w1 = (tunnels w)(s \<mapsto> (route loopback n, []))" by auto
  obtain r where r: "dns_reply dnsQuery = Some r" "dns_response_ok r" "length r < mtu"
    using dns_reply_query f(6) by auto
  have q: "length dnsQuery < mtu" using f(6) by (simp add: dnsQuery_def bytes_of_def)
  from exchange [of w1 s "route loopback n" dns_reply dnsQuery r] w1 f(4) q r(1,3) obtain w2 w3 w4 where
    x: "run_state (nw_send net s (encode dnsQuery)) w1 = (Inr (), w2)"
    "run_state (nw_receive net None s) w2 = (Inr (encode r), w3)" "run_state (closeStream net s) w3 = ((), w4)"
    "inv w4" "sockets w4 = sockets w1" "tunnels w4 = (tunnels w1)(s := None)" by auto
  moreover from w1(4) have "(tunnels w)(s := None) = tunnels w" by auto
  ultimately have "kept w w4" using w1 by (simp add: kept_def)
  with fixtures_kept [OF assms] w1(1) x(1-3) r(2) show ?thesis by (simp add: matrix_dns_def)
qed

lemma matrix_oversize_ok:
  assumes "fixtures_run c p d n w"
  shows "\<exists>w'. run_state (matrix_oversize net parse c p) w = (Inr (), w') \<and> kept w w' \<and> fixtures_run c p d n w'"
proof -
  let ?p = "bytes_of ''post-oversize''"
  from assms have f: "inv w" "member c" "approved loopback p" "sockets w (route loopback p) = Some echo_reply"
    "card (dom (tunnels w)) < capacity" "1024 < mtu" "mtu < 65536" by (simp_all add: fixtures_run_def)
  from open_free [OF f(1-3) _ f(5)] f(4) obtain s w1 where
    w1: "run_state (open_stream net parse c loopback p) w = (Inr (s, StatusOK), w1)" "inv w1"
      "sockets w1 = sockets w" "tunnels w s = None" "tunnels w1 = (tunnels w)(s \<mapsto> (route loopback p, []))" by auto
  have large: "run_state (nw_send net s (encode (replicate 65535 0))) w1 = (Inl ErrDatagramTooLarge, w1)"
    by (rule oversized [OF w1(2)]) (use f(7) in \<open>simp add: encode_def\<close>)
  have q: "length ?p < mtu" "echo_reply ?p = Some ?p" using f(6) by (simp_all add: bytes_of_def echo_reply_def)
  from exchange [of w1 s "route loopback p" echo_reply ?p ?p] w1 f(4) q obtain w2 w3 w4 where
    x: "run_state (nw_send net s (encode ?p)) w1 = (Inr (), w2)"
    "run_state (nw_receive net None s) w2 = (Inr (encode ?p), w3)" "run_state (closeStream net s) w3 = ((), w4)"
    "inv w4" "sockets w4 = sockets w1" "tunnels w4 = (tunnels w1)(s := None)" by auto
  moreover from w1(4) have "(tunnels w)(s := None) = tunnels w" by auto
  ultimately have "kept w w4" using w1 by (simp add: kept_def)
  with fixtures_kept [OF assms] w1(1) x(1-3) large show ?thesis
    by (simp add: matrix_oversize_def opened_ok_def)
qed

lemma parallel_ok:
  assumes "fixtures_run c p d n w" and "set order \<subseteq> {..<8}"
  shows "\<exists>w'. run_state (parallel_errors net parse c p order) w = ([], w') \<and> kept w w' \<and> fixtures_run c p d n w'"
  using assms
proof (induction order arbitrary: w)
  case Nil
  then show ?case by (auto simp: fixtures_run_def intro: kept_refl)
next
  case (Cons i order)
  have "length (bytes_of (''parallel-'' @ Itoa (int i))) \<le> 1024"
  proof -
    have "i < 8" using Cons.prems(2) by simp
    then consider "i = 0" | "i = 1" | "i = 2" | "i = 3" | "i = 4" | "i = 5" | "i = 6" | "i = 7" by linarith
    then show ?thesis by cases (simp_all add: bytes_of_def Itoa_def nat_digits.simps)
  qed
  then obtain w1 where w1: "run_state (echo net parse c loopback p (bytes_of (''parallel-'' @ Itoa (int i)))) w = (Inr (), w1)"
    "kept w w1" "fixtures_run c p d n w1" using matrix_echo [OF Cons.prems(1)] by blast
  from Cons.IH [OF w1(3)] Cons.prems(2) obtain w2 where
    "run_state (parallel_errors net parse c p order) w1 = ([], w2)" "kept w1 w2" "fixtures_run c p d n w2" by auto
  with w1 kept_trans show ?case by auto
qed

lemma matrix_cancel_ok:
  assumes "fixtures_run c p d n w"
  shows "\<exists>w'. run_state (matrix_cancel net parse c p) w = (Inr (), w') \<and> kept w w' \<and> fixtures_run c p d n w'"
proof -
  from assms have f: "inv w" "member c" "approved loopback p" "sockets w (route loopback p) = Some echo_reply"
    "card (dom (tunnels w)) < capacity" by (simp_all add: fixtures_run_def)
  from open_free [OF f(1-3) _ f(5)] f(4) obtain s w1 where
    w1: "run_state (open_stream net parse c loopback p) w = (Inr (s, StatusOK), w1)" "inv w1"
      "sockets w1 = sockets w" "tunnels w s = None" "tunnels w1 = (tunnels w)(s \<mapsto> (route loopback p, []))" by auto
  from closing [OF w1(2), of s] obtain w2 where w2: "run_state (closeStream net s) w1 = ((), w2)" "inv w2"
    "sockets w2 = sockets w1" "tunnels w2 = (tunnels w1)(s := None)" by auto
  from sleeping [OF w2(2)] obtain w3 where w3: "run_state (nw_sleep net (50 * msec)) w2 = ((), w3)" "inv w3"
    "sockets w3 = sockets w2" "tunnels w3 = tunnels w2" by blast
  from w1(4) have "(tunnels w)(s := None) = tunnels w" by auto
  with w1 w2 w3 have k: "kept w w3" by (simp add: kept_def)
  obtain w4 where w4: "run_state (echo net parse c loopback p (bytes_of ''post-cancel'')) w3 = (Inr (), w4)"
    "kept w3 w4" "fixtures_run c p d n w4"
    using matrix_echo [OF fixtures_kept [OF assms k], of loopback p "bytes_of ''post-cancel''"]
    by (auto simp: bytes_of_def)
  with kept_trans [OF k] w1(1) w2(1) w3(1) show ?thesis by (simp add: matrix_cancel_def opened_ok_def)
qed

lemma print_then:
  assumes "inv w" and "\<And>w1. inv w1 \<Longrightarrow> \<exists>w'. run_state m w1 = (Inr (), w') \<and> kept w1 w'"
  shows "\<exists>w'. run_state (do { nw_print net t; m }) w = (Inr (), w') \<and> kept w w'"
proof -
  obtain w1 where w1: "run_state (nw_print net t) w = ((), w1)" "kept w w1" using assms(1) by (rule print_kept)
  moreover from this assms(2) [of w1] obtain w' where "run_state m w1 = (Inr (), w')" "kept w1 w'" by (auto simp: kept_def)
  ultimately show ?thesis using kept_trans by auto
qed

lemma matrix_report_ok: "inv w \<Longrightarrow> \<exists>w'. run_state (matrix_report net) w = (Inr (), w') \<and> kept w w'"
  unfolding matrix_report_def by (intro print_then) (auto intro: kept_refl)

lemma matrix_checks_ok:
  assumes "fixtures_run c p d n w" and "set order \<subseteq> {..<8}"
  shows "\<exists>w'. run_state (matrix_checks net parse c order p d n) w = (Inr (), w') \<and> kept w w'"
proof -
  from matrix_echoes_ok [OF assms(1)] obtain w1 where
    w1: "run_state (matrix_echoes net parse c p d) w = (Inr (), w1)" "kept w w1" "fixtures_run c p d n w1" by blast
  from matrix_dns_ok [OF w1(3)] obtain w2 where
    w2: "run_state (matrix_dns net parse c n) w1 = (Inr (), w2)" "kept w1 w2" "fixtures_run c p d n w2" by blast
  from matrix_oversize_ok [OF w2(3)] obtain w3 where
    w3: "run_state (matrix_oversize net parse c p) w2 = (Inr (), w3)" "kept w2 w3" "fixtures_run c p d n w3" by blast
  from parallel_ok [OF w3(3) assms(2)] obtain w4 where
    w4: "run_state (parallel_errors net parse c p order) w3 = ([], w4)" "kept w3 w4" "fixtures_run c p d n w4" by blast
  from matrix_cancel_ok [OF w4(3)] obtain w5 where
    w5: "run_state (matrix_cancel net parse c p) w4 = (Inr (), w5)" "kept w4 w5" "fixtures_run c p d n w5" by blast
  have k: "kept w w5" using w1(2) w2(2) w3(2) w4(2) w5(2) kept_trans by blast
  from w5(3) have "inv w5" by (simp add: fixtures_run_def)
  from matrix_report_ok [OF this] obtain w' where "run_state (matrix_report net) w5 = (Inr (), w')" "kept w5 w'" by blast
  with k kept_trans w1(1) w2(1) w3(1) w4(1) w5(1) show ?thesis
    by (auto simp: matrix_checks_def matrix_parallel_def)
qed

section \<open>Mode limits\<close>

lemma admit_streams_ok:
  assumes "inv w" and "member c" and "member c2" and "approved loopback port" and "sockets w (route loopback port) \<noteq> None"
    and "dom (tunnels w) = set streams" and "distinct streams" and "length streams + length indices \<le> capacity"
  shows "\<exists>w' streams'. run_state (admit_streams net parse c c2 port indices streams) w = ((None, streams'), w') \<and>
    inv w' \<and> sockets w' = sockets w \<and> dom (tunnels w') = set streams' \<and> distinct streams' \<and>
    length streams' = length streams + length indices"
  using assms(1,5-8)
proof (induction indices arbitrary: w streams)
  case (Cons i indices)
  have "card (dom (tunnels w)) < capacity"
    using Cons.prems(3-5) by (simp add: distinct_card)
  moreover have "member (if i \<ge> 64 then c2 else c)" using assms(2,3) by simp
  ultimately obtain s w1 where
    w1: "run_state (open_stream net parse (if i \<ge> 64 then c2 else c) loopback port) w = (Inr (s, StatusOK), w1)" "inv w1"
      "sockets w1 = sockets w" "tunnels w s = None" "tunnels w1 = (tunnels w)(s \<mapsto> (route loopback port, []))"
    using open_free [OF Cons.prems(1) _ assms(4) Cons.prems(2)] by blast
  have "\<exists>w' streams'. run_state (admit_streams net parse c c2 port indices (streams @ [s])) w1 = ((None, streams'), w') \<and>
    inv w' \<and> sockets w' = sockets w1 \<and> dom (tunnels w') = set streams' \<and> distinct streams' \<and>
    length streams' = length (streams @ [s]) + length indices"
  proof (rule Cons.IH)
    have "s \<notin> set streams" using w1(4) Cons.prems(3) by auto
    then show "distinct (streams @ [s])" "dom (tunnels w1) = set (streams @ [s])"
      using Cons.prems(3,4) w1(5) by simp_all
  qed (use w1 Cons.prems in simp_all)
  then obtain w' streams' where
    "run_state (admit_streams net parse c c2 port indices (streams @ [s])) w1 = ((None, streams'), w')"
    "inv w'" "sockets w' = sockets w1" "dom (tunnels w') = set streams'" "distinct streams'"
    "length streams' = length (streams @ [s]) + length indices" by blast
  with w1 show ?case by (simp add: opened_ok_def)
qed auto

lemma close_streams_ok:
  assumes "inv w" and "dom (tunnels w) \<subseteq> set streams"
  shows "\<exists>w'. run_state (close_streams net streams) w = ((), w') \<and> inv w' \<and> sockets w' = sockets w \<and>
    tunnels w' = Map.empty"
  using assms
proof (induction streams arbitrary: w)
  case (Cons s streams)
  from closing [OF Cons.prems(1), of s] obtain w1 where
    w1: "run_state (closeStream net s) w = ((), w1)" "inv w1" "sockets w1 = sockets w"
      "tunnels w1 = (tunnels w)(s := None)" by blast
  have "dom (tunnels w1) \<subseteq> set streams" using w1(4) Cons.prems(2) by auto
  from Cons.IH [OF w1(2) this] w1 show ?case by auto
qed auto

lemma limit_checks_ok:
  assumes "inv w" and "member c" and "member c2" and "approved loopback port" and "sockets w (route loopback port) \<noteq> None"
    and "tunnels w = Map.empty" and "capacity = 128"
  shows "\<exists>streams w1 w2. run_state (limit_checks net parse c c2 port) w = ((None, streams), w1) \<and>
    length streams = 128 \<and> dom (tunnels w1) = set streams \<and> distinct streams \<and>
    run_state (close_streams net streams) w1 = ((), w2) \<and> inv w2 \<and> sockets w2 = sockets w \<and> tunnels w2 = Map.empty"
proof -
  from admit_streams_ok [OF assms(1-5), of "[]" "[0..<128]"] assms(6,7) obtain wa streams where
    a: "run_state (admit_streams net parse c c2 port [0..<128] []) w = ((None, streams), wa)" "inv wa"
      "sockets wa = sockets w" "dom (tunnels wa) = set streams" "distinct streams" "length streams = 128" by auto
  then have "capacity \<le> card (dom (tunnels wa))" using assms(7) by (simp add: distinct_card)
  from open_full [OF a(2) assms(2,4) this] obtain s wb where
    b: "run_state (open_stream net parse c loopback port) wa = (Inr (s, StatusServiceUnavailable), wb)" "inv wb"
      "sockets wb = sockets wa" "tunnels wa s = None" "tunnels wb = tunnels wa" by blast
  have "(tunnels wa)(s := None) = tunnels wa" using b(4) by auto
  with closing [OF b(2), of s] b(3,5) obtain wc where
    c: "run_state (closeStream net s) wb = ((), wc)" "inv wc" "sockets wc = sockets wa" "tunnels wc = tunnels wa" by auto
  from a(6) obtain x xs where st: "streams = x # xs" by (cases streams) auto
  from closing [OF c(2), of x] c obtain wd where
    d: "run_state (closeStream net x) wc = ((), wd)" "inv wd" "sockets wd = sockets wa"
      "tunnels wd = (tunnels wa)(x := None)" by auto
  from sleeping [OF d(2)] d obtain we where
    e: "run_state (nw_sleep net (50 * msec)) wd = ((), we)" "inv we" "sockets we = sockets wa"
      "tunnels we = (tunnels wa)(x := None)" by auto
  have dom: "dom (tunnels we) = set xs" using e(4) a(4,5) st by auto
  then have "card (dom (tunnels we)) < capacity" using a(5,6) st assms(7) by (simp add: distinct_card)
  from open_free [OF e(2) assms(2,4) _ this] e(3) a(3) assms(5) obtain r wf where
    f: "run_state (open_stream net parse c loopback port) we = (Inr (r, StatusOK), wf)" "inv wf"
      "sockets wf = sockets wa" "tunnels we r = None" "tunnels wf = (tunnels we)(r \<mapsto> (route loopback port, []))" by auto
  obtain wg where g: "run_state (nw_print net ''M4_G5_RESOURCE_LIMIT_OK'') wf = ((), wg)" "kept wf wg"
    using f(2) by (rule print_kept)
  have r: "r \<notin> set xs" "dom (tunnels wg) = set (xs @ [r])" using f(4,5) g(2) dom by (auto simp: kept_def)
  have n: "20 = Suc 19" by simp
  have "run_state (replace_stream net parse c port 20 xs) wd = ((None, xs @ [r]), wg)"
    unfolding n replace_stream.simps(2) using e(1) f(1) g(1) by simp
  with a(1) b(1) c(1) d(1) st have "run_state (limit_checks net parse c c2 port) w = ((None, xs @ [r]), wg)"
    by (simp add: limit_checks_def)
  moreover from close_streams_ok [of wg "xs @ [r]"] r g(2) f(3) a(3) obtain wh where
    "run_state (close_streams net (xs @ [r])) wg = ((), wh)" "inv wh" "sockets wh = sockets w" "tunnels wh = Map.empty"
    by (auto simp: kept_def)
  ultimately show ?thesis using r a(5,6) st by auto
qed

end

end
