(* ===== verification/Interop_Proxy.thy ===== *)
theory Interop_Proxy
  imports Interop_Service Serve_Http
begin

text \<open>
  The interoperability client against the proxy: a network whose far end is \<open>ServeHTTP\<close>, the admission
  counters and the two pumps of the model, with the client's own fixtures as targets.  The network
  keeps the contract the client relies on, so the client's checks succeed on it.
\<close>

section \<open>The proxy as a network\<close>

text \<open>An open association: where it leads, its pumps, and the datagrams on their way to the client.\<close>

record tunnel =
  tn_address :: string
  tn_up :: pump_state
  tn_down :: pump_state
  tn_queue :: "bytes list"

record proxy_world =
  pw_handler :: handler
  pw_metrics :: udpMetrics
  pw_next :: nat
  pw_status :: "nat \<Rightarrow> int"
  pw_tunnels :: "nat \<rightharpoonup> tunnel"
  pw_count :: nat
  pw_names :: "nat \<rightharpoonup> string"
  pw_sockets :: "string \<rightharpoonup> udp_fixture"
  pw_output :: "string list"

text \<open>The proxy's surroundings, its configuration with the users, its address, the client's address, the
  largest datagram of the connection, and the ports the system hands out.\<close>

record proxy_setup =
  su_http :: "nat http_env"
  su_handler :: handler
  su_users :: "(string \<times> string) list"
  su_proxy :: string
  su_remote :: string
  su_mtu :: nat
  su_port :: "nat \<Rightarrow> int"

definition su_key :: "proxy_setup \<Rightarrow> string" where
  "su_key S = clientAddressKey (env_lower (he_udp (su_http S))) (su_remote S)"

definition live_udp :: "proxy_setup \<Rightarrow> proxy_world \<Rightarrow> udp_env" where
  "live_udp S w = (he_udp (su_http S))\<lparr>env_dial :=
     (\<lambda>address. if pw_sockets w address \<noteq> None then Inr (Some 0) else Inl (NetError False))\<rparr>"

definition new_pump :: pump_state where
  "new_pump = \<lparr>assoc = \<lparr>assoc_id = 0, has_logger = False, counters = (\<lambda>_. 0), entries = []\<rparr>, passed = [], signals = 0\<rparr>"

definition new_tunnel :: "string \<Rightarrow> tunnel" where
  "new_tunnel address = \<lparr>tn_address = address, tn_up = new_pump, tn_down = new_pump, tn_queue = []\<rparr>"

fun dialed_udp :: "serve_effect list \<Rightarrow> string option" where
  "dialed_udp [] = None"
| "dialed_udp (DialUDP a # es) = (case dialed_udp es of None \<Rightarrow> Some a | Some b \<Rightarrow> Some b)"
| "dialed_udp (e # es) = dialed_udp es"

fun dialed :: "'c action list \<Rightarrow> string option" where
  "dialed [] = None"
| "dialed (ServeUDP es # acts) = dialed_udp es"
| "dialed (a # acts) = dialed acts"

text \<open>A request header arrives: the handler decides; while an association is served its slot is held.\<close>

definition answer_request :: "proxy_setup \<Rightarrow> nat \<Rightarrow> request \<Rightarrow> proxy_world \<Rightarrow> proxy_world" where
  "answer_request S s r w =
     (case ServeHTTP ((su_http S)\<lparr>he_udp := live_udp S w\<rparr>) (pw_handler w) (pw_metrics w)
             (r\<lparr>RemoteAddr := su_remote S\<rparr>) Map.empty of
        None \<Rightarrow> w\<lparr>pw_status := (pw_status w)(s := StatusInternalServerError)\<rparr>
      | Some sv \<Rightarrow>
          (case sv_error sv of
             Some err \<Rightarrow>
               w\<lparr>pw_handler := sv_handler sv, pw_metrics := sv_metrics sv, pw_status := (pw_status w)(s :=
                   (case error_status err of Some status \<Rightarrow> status | None \<Rightarrow> StatusInternalServerError))\<rparr>
           | None \<Rightarrow>
               (case (dialed (sv_actions sv), acquireConnectUDP (su_key S) (pw_handler w) (pw_metrics w)) of
                  (Some address, _, h, m) \<Rightarrow>
                    w\<lparr>pw_handler := h, pw_metrics := m, pw_status := (pw_status w)(s := StatusOK),
                      pw_tunnels := (pw_tunnels w)(s \<mapsto> new_tunnel address)\<rparr>
                | (None, _) \<Rightarrow> w\<lparr>pw_status := (pw_status w)(s := StatusOK)\<rparr>)))"

definition end_tunnel :: "proxy_setup \<Rightarrow> nat \<Rightarrow> proxy_world \<Rightarrow> proxy_world" where
  "end_tunnel S s w =
     (case pw_tunnels w s of
        None \<Rightarrow> w
      | Some _ \<Rightarrow>
          (case releaseConnectUDP (su_key S) [''canceled''] 0 False (pw_handler w) (pw_metrics w) of
             (_, h, m) \<Rightarrow> w\<lparr>pw_handler := h, pw_metrics := m, pw_tunnels := (pw_tunnels w)(s := None)\<rparr>))"

text \<open>A datagram goes through the pump to the target, whose answers go through the other pump.\<close>

definition relay :: "proxy_setup \<Rightarrow> udp_fixture \<Rightarrow> bytes \<Rightarrow> tunnel \<Rightarrow> tunnel" where
  "relay S f d t =
     (let up = snd (pumpH3ToUDP rfc_Parse rfc_Len [(Inr d, length d - 1, None)] ((tn_up t)\<lparr>passed := []\<rparr>));
          replies = concat (map (\<lambda>p. case f p of None \<Rightarrow> [] | Some q \<Rightarrow> [q]) (passed up));
          rounds = map (\<lambda>q. (Inr q, if su_mtu S \<le> length q then Some ErrDatagramTooLarge else None, None)) replies;
          down = snd (pumpUDPToH3 rfc_Append rounds ((tn_down t)\<lparr>passed := []\<rparr>))
      in t\<lparr>tn_up := up, tn_down := down, tn_queue := tn_queue t @ filter (\<lambda>d. length d \<le> su_mtu S) (passed down)\<rparr>)"

definition send_datagram :: "proxy_setup \<Rightarrow> nat \<Rightarrow> bytes \<Rightarrow> proxy_world \<Rightarrow> (goerror + unit) \<times> proxy_world" where
  "send_datagram S s d w =
     (if su_mtu S < length d then (Inl ErrDatagramTooLarge, w)
      else
        (case pw_tunnels w s of
           None \<Rightarrow> (Inl ErrConnectUDPClosed, w)
         | Some t \<Rightarrow>
             let f = (case pw_sockets w (tn_address t) of None \<Rightarrow> (\<lambda>_. None) | Some f \<Rightarrow> f) in
             (Inr (), w\<lparr>pw_tunnels := (pw_tunnels w)(s \<mapsto> relay S f d t)\<rparr>)))"

definition receive_datagram :: "nat \<Rightarrow> proxy_world \<Rightarrow> (goerror + bytes) \<times> proxy_world" where
  "receive_datagram s w =
     (case pw_tunnels w s of
        None \<Rightarrow> (Inl ErrConnectUDPClosed, w)
      | Some t \<Rightarrow>
          (case tn_queue t of
             [] \<Rightarrow> (Inl ContextDeadlineExceeded, w)
           | d # q \<Rightarrow> (Inr d, w\<lparr>pw_tunnels := (pw_tunnels w)(s \<mapsto> t\<lparr>tn_queue := q\<rparr>)\<rparr>)))"

definition listen_udp :: "proxy_setup \<Rightarrow> string \<Rightarrow> proxy_world \<Rightarrow> (goerror + nat \<times> int) \<times> proxy_world" where
  "listen_udp S address w =
     (case SplitHostPort address of
        Inl err \<Rightarrow> (Inl (AddrError err), w)
      | Inr (host, port) \<Rightarrow>
          let n = pw_count w;
              p = (case Atoi port of None \<Rightarrow> 0 | Some p \<Rightarrow> if p = 0 then su_port S n else p)
          in (Inr (n, p), w\<lparr>pw_count := Suc n, pw_names := (pw_names w)(n \<mapsto> JoinHostPort host (Itoa p))\<rparr>))"

definition spawn_fixture :: "nat \<Rightarrow> udp_fixture \<Rightarrow> proxy_world \<Rightarrow> proxy_world" where
  "spawn_fixture n f w =
     (case pw_names w n of None \<Rightarrow> w | Some a \<Rightarrow> w\<lparr>pw_sockets := (pw_sockets w)(a \<mapsto> f)\<rparr>)"

definition close_fixture :: "nat \<Rightarrow> proxy_world \<Rightarrow> proxy_world" where
  "close_fixture n w =
     (case pw_names w n of None \<Rightarrow> w | Some a \<Rightarrow> w\<lparr>pw_sockets := (pw_sockets w)(a := None)\<rparr>)"

abbreviation effect :: "('w \<Rightarrow> 'w) \<Rightarrow> ('w, unit) state" where
  "effect f \<equiv> State (\<lambda>w. ((), f w))"

text \<open>TCP targets are not part of this network.\<close>

definition proxy_net :: "proxy_setup \<Rightarrow> proxy_world network" where
  "proxy_net S =
     \<lparr>nw_dial = (\<lambda>proxy name. go_return 0),
      nw_wait_settings = (\<lambda>conn. go_return (Some (True, True))),
      nw_close_conn = (\<lambda>conn reason. effect id),
      nw_open = (\<lambda>conn. State (\<lambda>w. (Inr (pw_next w), w\<lparr>pw_next := Suc (pw_next w)\<rparr>))),
      nw_send_header = (\<lambda>s r. State (\<lambda>w. (Inr (), answer_request S s r w))),
      nw_read_response = (\<lambda>s. State (\<lambda>w. (Inr (pw_status w s, Map.empty), w))),
      nw_send = (\<lambda>s d. State (send_datagram S s d)),
      nw_receive = (\<lambda>timeout s. State (receive_datagram s)),
      nw_cancel_read = (\<lambda>s. effect id),
      nw_cancel_write = (\<lambda>s. effect (end_tunnel S s)),
      nw_write = (\<lambda>s bs. go_error ErrConnectUDPClosed),
      nw_read = (\<lambda>s. State_Monad.return []),
      nw_unread = (\<lambda>s r. effect id),
      nw_wait_stream = (\<lambda>s. State_Monad.return False),
      nw_resolve = (\<lambda>network address. go_return address),
      nw_listen = (\<lambda>network address. State (listen_udp S address)),
      nw_spawn = (\<lambda>n f. effect (spawn_fixture n f)),
      nw_close_socket = (\<lambda>n. effect (close_fixture n)),
      nw_listen_tcp = (\<lambda>network address. go_error (NetError False)),
      nw_spawn_tcp = (\<lambda>n f. effect id),
      nw_target_result = (\<lambda>n. go_error (NetError False)),
      nw_now = State_Monad.return 0,
      nw_sleep = (\<lambda>d. effect id),
      nw_print = (\<lambda>t. effect (\<lambda>w. w\<lparr>pw_output := pw_output w @ [t]\<rparr>)),
      nw_stderr = (\<lambda>err. effect id)\<rparr>"

section \<open>Configuration\<close>

definition capable :: "udp_env \<Rightarrow> bool" where
  "capable env \<longleftrightarrow>
     http3CapabilitiesFromResponseWriter (env_streams env) (env_settingser env) (env_unwrap env) (env_writer env) \<in> range Inr \<and>
     env_settings_wait env = None \<and> env_settings env = Some True \<and> env_has_stream env"

definition setup_ok :: "proxy_setup \<Rightarrow> bool" where
  "setup_ok S \<longleftrightarrow>
     connectUDPMaxActive (su_handler S) \<le> 0 \<and> connectUDPMaxClientActive (su_handler S) \<le> 0 \<and>
     upstream (su_handler S) = None \<and> ProbeResistance (su_handler S) = None \<and>
     configured (su_handler S) (su_users S) \<and> capable (he_udp (su_http S)) \<and>
     su_proxy S \<noteq> [] \<and> list_all is_ascii (su_proxy S) \<and> su_mtu S < 65536"

text \<open>The clients that may use the proxy, the URL of a target, and what is relied on of \<open>url.Parse\<close>.\<close>

definition may_use :: "proxy_setup \<Rightarrow> interop_client \<Rightarrow> bool" where
  "may_use S c \<longleftrightarrow> c_proxy c = su_proxy S \<and>
     (\<exists>(u, p) \<in> set (su_users S). c_auth c = ''Basic '' @ EncodeAuthCredentials u p)"

definition target_url :: "string \<Rightarrow> string \<Rightarrow> int \<Rightarrow> url" where
  "target_url proxy host port =
     \<lparr>Scheme = ''https'', User = None, url_Host = proxy, Path = target_path host (Itoa port), RawPath = [],
      RawQuery = [], ForceQuery = False, Fragment = []\<rparr>"

definition parses_https :: "(string \<Rightarrow> goerror + url) \<Rightarrow> string \<Rightarrow> bool" where
  "parses_https parse proxy \<longleftrightarrow>
     (\<forall>host port. good_host host \<and> 0 \<le> port \<longrightarrow>
        parse (''https://'' @ proxy @ target_path host (Itoa port)) = Inr (target_url proxy host port))"

definition allowed_target :: "proxy_setup \<Rightarrow> string \<Rightarrow> int \<Rightarrow> bool" where
  "allowed_target S host port \<longleftrightarrow>
     good_host host \<and> 1 \<le> port \<and> port \<le> 65535 \<and>
     (ParseIP host = [] \<longrightarrow> env_toASCII (he_udp (su_http S)) host = Inr host) \<and>
     (\<exists>t address. resolveTargetCheckACL (su_handler S) (env_lookup (he_udp (su_http S))) (JoinHostPort host (Itoa port)) = Inr t \<and>
        addresses t = [address])"

definition target_address :: "proxy_setup \<Rightarrow> string \<Rightarrow> int \<Rightarrow> string" where
  "target_address S host port =
     (case resolveTargetCheckACL (su_handler S) (env_lookup (he_udp (su_http S))) (JoinHostPort host (Itoa port)) of
        Inl _ \<Rightarrow> [] | Inr t \<Rightarrow> hd (addresses t))"

text \<open>The handler while \<open>k\<close> associations of the client are open.\<close>

definition holding :: "proxy_setup \<Rightarrow> int \<Rightarrow> 64 word \<Rightarrow> handler" where
  "holding S k n = (su_handler S)\<lparr>connectUDPActive := k,
     connectUDPByClient := (if k = 0 then Map.empty else [su_key S \<mapsto> k]), connectUDPNextID := n\<rparr>"

lemma holding_fields [simp]:
  "connectUDPActive (holding S k n) = k" "byClient (holding S k n) (su_key S) = k"
  "connectUDPNextID (holding S k n) = n" "upstream (holding S k n) = upstream (su_handler S)"
  "ProbeResistance (holding S k n) = ProbeResistance (su_handler S)"
  "AuthCredentials (holding S k n) = AuthCredentials (su_handler S)"
  "maxActive (holding S k n) = maxActive (su_handler S)" "maxClient (holding S k n) = maxClient (su_handler S)"
  by (simp_all add: holding_def byClient_def maxActive_def maxClient_def)

lemma admit_holding: "0 \<le> k \<Longrightarrow> admit (su_key S) (holding S k n) = holding S (k + 1) (n + 1)"
  by (auto simp: admit_def holding_def byClient_def)

lemma release_holding: "0 < k \<Longrightarrow> release_locked (su_key S) (holding S k n) = holding S (k - 1) n"
  by (auto simp: release_locked_def holding_def byClient_def Let_def)

lemma holding_policy: "AllowedPorts (holding S k n) = AllowedPorts (su_handler S)" "aclRules (holding S k n) = aclRules (su_handler S)"
  by (simp_all add: holding_def)

lemma resolve_holding: "resolveTargetCheckACL (holding S k n) lookup hp = resolveTargetCheckACL (su_handler S) lookup hp"
  unfolding resolveTargetCheckACL_def prepareTargetPolicy_def holding_policy ..

lemma setup_limits: "setup_ok S \<Longrightarrow> maxActive (su_handler S) = 512 \<and> maxClient (su_handler S) = 128"
  by (simp add: setup_ok_def maxActive_def maxClient_def)

lemma acquire_holding:
  assumes "setup_ok S" and "0 \<le> k" and "k \<le> 128"
  shows "\<exists>m'. acquireConnectUDP (su_key S) (holding S k n) m =
    (if k < 128 then (Some (n + 1), holding S (k + 1) (n + 1), m') else (None, holding S k n, m'))"
  using assms setup_limits [OF assms(1)]
  by (simp add: acquireConnectUDP_def acquire_locked_cases admit_holding)

section \<open>Requests of the client\<close>

lemma PathEscape_good: "good_host h \<Longrightarrow> PathEscape h = h"
proof -
  assume "good_host h"
  then have "unreserved c \<or> c \<in> set ''$&+:=@''" if "c \<in> set h" for c
    using good_host_char [OF _ that] by (auto simp: host_char_def)
  then show ?thesis unfolding PathEscape_def by (induction h) auto
qed

lemma open_url_good:
  "good_host h \<Longrightarrow> open_url c h port = ''https://'' @ c_proxy c @ target_path h (Itoa port)"
  by (simp add: open_url_def PathEscape_good target_path_def clientURIPrefix_def connectUDPURIPrefix_def)

definition sent_request :: "proxy_setup \<Rightarrow> interop_client \<Rightarrow> string \<Rightarrow> int \<Rightarrow> request" where
  "sent_request S c host port = (open_request c (target_url (su_proxy S) host port))\<lparr>RemoteAddr := su_remote S\<rparr>"

lemma client_header_keys:
  "CanonicalHeaderKey ''Proxy-Authorization'' = ''Proxy-Authorization''"
  "CanonicalHeaderKey ''Padding-Type-Request'' = ''Padding-Type-Request''"
  "CanonicalHeaderKey ''Padding'' = ''Padding''"
  by code_simp+

lemma sent_fields [simp]:
  "Method (sent_request S c host port) = ''CONNECT''" "ProtoMajor (sent_request S c host port) = 3"
  "Proto (sent_request S c host port) = ''connect-udp''" "RemoteAddr (sent_request S c host port) = su_remote S"
  "URL (sent_request S c host port) = Some (target_url (su_proxy S) host port)"
  "Host (sent_request S c host port) = su_proxy S"
  by (simp_all add: sent_request_def open_request_def clientProtocol_def target_url_def Let_def)

lemma sent_header:
  "Header_Get (Header (sent_request S c host port)) ''Capsule-Protocol'' = ''?1''"
  "Header_Get (Header (sent_request S c host port)) ''Proxy-Authorization'' = c_auth c"
  "negotiateNaivePadding (Header (sent_request S c host port)) = Inr naivePaddingNone"
  by (auto simp: sent_request_def open_request_def Let_def Header_Get_def Header_Set_def capsule_key client_header_keys
      negotiateNaivePadding_def naivePaddingTypeRequestHeader_def)

lemma sent_is_udp [simp]: "isConnectUDPRequest (sent_request S c host port)"
  by (simp add: isConnectUDPRequest_def connectUDPProtocol_def)

lemma sent_parses:
  assumes "setup_ok S" and "good_host host" and "1 \<le> port" "port \<le> 65535" and "ParseIP host = [] \<Longrightarrow> toASCII host = Inr host"
  shows "parseConnectUDPTarget lower eqfold toASCII (sent_request S c host port) =
    Inr \<lparr>udp_host = host, udp_port = Itoa port, hostPort = JoinHostPort host (Itoa port)\<rparr>"
proof -
  let ?r = "sent_request S c host port" and ?u = "target_url (su_proxy S) host port"
  have "EqualFold eqfold (su_proxy S) (su_proxy S)"
    using assms(1) by (simp add: EqualFold_def setup_ok_def)
  then have "\<not> malformed_connect eqfold ?r ?u"
    using assms(1) by (simp add: malformed_connect_def sent_header setup_ok_def target_url_def)
  moreover have "request_for ?r host (Itoa port) = ?r"
    by (simp add: request_for_def sent_request_def open_request_def target_url_def Let_def)
  ultimately show ?thesis
    using parse_request_for [of host port toASCII ?r ?u eqfold lower] assms(2-5) by simp
qed

lemma sent_authenticates:
  assumes "setup_ok S" and "may_use S c"
  shows "\<exists>u. checkCredentials lower (holding S k n) (Header (sent_request S c host port)) = Some (None, Some u)"
proof -
  from assms obtain u p where u: "(u, p) \<in> set (su_users S)" "c_auth c = ''Basic '' @ EncodeAuthCredentials u p"
    by (auto simp: may_use_def)
  have conf: "configured (holding S k n) (su_users S)" using assms(1) by (simp add: setup_ok_def configured_def)
  have split: "Split (Header_Get (Header (sent_request S c host port)) ''Proxy-Authorization'') CHR '' '' =
      [''Basic'', EncodeAuthCredentials u p]"
    unfolding sent_header u(2) EncodeAuthCredentials_def by (rule Split_Basic)
  from check_token(1) [OF conf split ToLower_Basic u(1) refl] show ?thesis by blast
qed

section \<open>What the proxy answers\<close>

lemma live_fields [simp]:
  "env_lower (live_udp S w) = env_lower (he_udp (su_http S))" "env_toASCII (live_udp S w) = env_toASCII (he_udp (su_http S))"
  "env_lookup (live_udp S w) = env_lookup (he_udp (su_http S))"
  by (simp_all add: live_udp_def)

lemma live_capable: "capable (live_udp S w) = capable (he_udp (su_http S))"
  by (simp add: capable_def live_udp_def)

lemma serveAdmitted_ok:
  assumes "capable env" and "resolveTargetCheckACL h (env_lookup env) hp = Inr t" and "addresses t = [a]"
    and "env_dial env a = Inr (Some conn)"
  shows "\<exists>reason effects. serveAdmitted env h aid hp = (None, reason, effects) \<and> dialed_udp effects = Some a"
  using assms by (auto simp: serveAdmitted_def capable_def Let_def)

lemma udp_accepts:
  assumes "setup_ok S" and "allowed_target S host port" and "pw_sockets w (target_address S host port) \<noteq> None"
    and "0 \<le> k" "k < 128"
  shows "\<exists>h' m' r' effects. serveConnectUDP (live_udp S w) (holding S k n) m (sent_request S c host port) =
    (None, h', m', r', effects) \<and> dialed_udp effects = Some (target_address S host port)"
proof -
  let ?env = "live_udp S w" and ?hp = "JoinHostPort host (Itoa port)"
  from assms(2) obtain t a where t: "good_host host" "1 \<le> port" "port \<le> 65535"
    "ParseIP host = [] \<Longrightarrow> env_toASCII ?env host = Inr host"
    "resolveTargetCheckACL (su_handler S) (env_lookup ?env) ?hp = Inr t" "addresses t = [a]"
    by (auto simp: allowed_target_def)
  then have a: "target_address S host port = a" by (simp add: target_address_def)
  have d: "env_dial ?env a = Inr (Some 0)" using assms(3) a by (auto simp: live_udp_def)
  from acquire_holding [OF assms(1,4), of n m] assms(5) obtain m1 where
    m1: "acquireConnectUDP (su_key S) (holding S k n) m = (Some (n + 1), holding S (k + 1) (n + 1), m1)" by auto
  obtain reason effects where e: "serveAdmitted ?env (holding S (k + 1) (n + 1)) (n + 1) ?hp = (None, reason, effects)"
    "dialed_udp effects = Some a"
    using serveAdmitted_ok [of ?env "holding S (k + 1) (n + 1)" ?hp t a 0 "n + 1"] t(5,6) d assms(1)
    by (auto simp: live_capable setup_ok_def resolve_holding)
  have p: "parseConnectUDPTarget (env_lower (live_udp S w)) (env_eqfold (live_udp S w)) (env_toASCII (live_udp S w))
      (sent_request S c host port) = Inr \<lparr>udp_host = host, udp_port = Itoa port, hostPort = JoinHostPort host (Itoa port)\<rparr>"
    by (rule sent_parses [OF assms(1)]) (use t in auto)
  show ?thesis
    using assms(1) m1 e a unfolding serveConnectUDP_def p
    by (simp add: setup_ok_def su_key_def releaseConnectUDP_def Let_def)
qed

lemma udp_refuses:
  assumes "setup_ok S" and "allowed_target S host port"
  shows "\<exists>m' r'. serveConnectUDP (live_udp S w) (holding S 128 n) m (sent_request S c host port) =
    (Some (HandlerError StatusServiceUnavailable ErrConnectUDPResourceLimit), holding S 128 n, m', r', [])"
proof -
  from assms(2) have t: "good_host host" "1 \<le> port" "port \<le> 65535"
    "ParseIP host = [] \<Longrightarrow> env_toASCII (live_udp S w) host = Inr host"
    by (auto simp: allowed_target_def)
  from acquire_holding [OF assms(1), of 128 n m] obtain m1 where
    "acquireConnectUDP (su_key S) (holding S 128 n) m = (None, holding S 128 n, m1)" by auto
  moreover
  have p: "parseConnectUDPTarget (env_lower (live_udp S w)) (env_eqfold (live_udp S w)) (env_toASCII (live_udp S w))
      (sent_request S c host port) = Inr \<lparr>udp_host = host, udp_port = Itoa port, hostPort = JoinHostPort host (Itoa port)\<rparr>"
    by (rule sent_parses [OF assms(1)]) (use t in auto)
  ultimately show ?thesis
    using assms(1) unfolding serveConnectUDP_def p
    by (simp add: setup_ok_def su_key_def Let_def)
qed

lemma serve_sent:
  assumes "setup_ok S" and "may_use S c"
    and "serveConnectUDP env (holding S k n) m (sent_request S c host port) = (err, h', m', r', effects)"
  shows "\<exists>sv. ServeHTTP ((su_http S)\<lparr>he_udp := env\<rparr>) (holding S k n) m (sent_request S c host port) hdr = Some sv \<and>
    sv_error sv = err \<and> sv_handler sv = h' \<and> sv_metrics sv = m' \<and> sv_actions sv = [ServeUDP effects]"
proof -
  let ?env = "(su_http S)\<lparr>he_udp := env\<rparr>"
  obtain u where u: "checkCredentials (he_lower ?env) (holding S k n) (Header (sent_request S c host port)) = Some (None, Some u)"
    using sent_authenticates [OF assms(1,2)] by blast
  have "\<exists>sv. serveRequest ?env (holding S k n) m (sent_request S c host port) (target_url (su_proxy S) host port) hdr None =
      Some sv \<and> sv_error sv = err \<and> sv_handler sv = h' \<and> sv_metrics sv = m' \<and> sv_actions sv = [ServeUDP effects]"
    using assms(1,3) by (simp add: serveRequest_def serveCONNECT_def sent_header setup_ok_def Let_def)
  with u show ?thesis by (auto simp: ServeHTTP_def Let_def)
qed

lemma open_run:
  assumes "parses_https parse (su_proxy S)" and "may_use S c" and "good_host host" and "0 \<le> port"
  shows "run_state (open_stream (proxy_net S) parse c host port) w =
    (let w' = answer_request S (pw_next w) (open_request c (target_url (su_proxy S) host port)) (w\<lparr>pw_next := Suc (pw_next w)\<rparr>)
     in (Inr (pw_next w, pw_status w' (pw_next w)), w'))"
  using assms
  by (simp add: open_stream_def proxy_net_def parses_https_def may_use_def open_url_good Let_def)

section \<open>The contract holds\<close>

text \<open>The slots the handler counts are those of the open tunnels.\<close>

definition serving :: "proxy_setup \<Rightarrow> (string \<Rightarrow> goerror + url) \<Rightarrow> proxy_world \<Rightarrow> bool" where
  "serving S parse w \<longleftrightarrow>
     setup_ok S \<and> parses_https parse (su_proxy S) \<and> finite (dom (pw_tunnels w)) \<and>
     dom (pw_tunnels w) \<subseteq> {..<pw_next w} \<and> card (dom (pw_tunnels w)) \<le> 128 \<and>
     (\<exists>n. pw_handler w = holding S (int (card (dom (pw_tunnels w)))) n)"

definition tunnels_of :: "proxy_world \<Rightarrow> nat \<rightharpoonup> string \<times> bytes list" where
  "tunnels_of w s = map_option (\<lambda>t. (tn_address t, tn_queue t)) (pw_tunnels w s)"

lemma dom_tunnels_of [simp]: "dom (tunnels_of w) = dom (pw_tunnels w)"
  by (auto simp: tunnels_of_def)

lemma serving_fresh: "serving S parse w \<Longrightarrow> pw_tunnels w (pw_next w) = None"
  by (auto simp: serving_def)

lemma sent_open: "(open_request c (target_url (su_proxy S) host port))\<lparr>RemoteAddr := su_remote S\<rparr> = sent_request S c host port"
  by (simp add: sent_request_def)

lemma proxy_open_free:
  assumes "serving S parse w" and "may_use S c" and "allowed_target S host port"
    and "pw_sockets w (target_address S host port) \<noteq> None" and "card (dom (pw_tunnels w)) < 128"
  shows "\<exists>w'. run_state (open_stream (proxy_net S) parse c host port) w = (Inr (pw_next w, StatusOK), w') \<and>
    serving S parse w' \<and> pw_sockets w' = pw_sockets w \<and>
    pw_tunnels w' = (pw_tunnels w)(pw_next w \<mapsto> new_tunnel (target_address S host port))"
proof -
  let ?s = "pw_next w" and ?k = "int (card (dom (pw_tunnels w)))" and ?w = "w\<lparr>pw_next := Suc (pw_next w)\<rparr>"
  from assms(1) obtain n where sv: "setup_ok S" "parses_https parse (su_proxy S)" "finite (dom (pw_tunnels w))"
    "dom (pw_tunnels w) \<subseteq> {..<?s}" "pw_handler w = holding S ?k n" by (auto simp: serving_def)
  have k: "0 \<le> ?k" "?k < 128" using assms(5) by simp_all
  have sock: "pw_sockets ?w (target_address S host port) \<noteq> None" using assms(4) by simp
  from udp_accepts [OF sv(1) assms(3) sock k] obtain h' m' r' effects where
    e: "serveConnectUDP (live_udp S ?w) (holding S ?k n) (pw_metrics w) (sent_request S c host port) = (None, h', m', r', effects)"
      "dialed_udp effects = Some (target_address S host port)" by blast
  from serve_sent [OF sv(1) assms(2) e(1)] obtain x where
    x: "ServeHTTP ((su_http S)\<lparr>he_udp := live_udp S ?w\<rparr>) (holding S ?k n) (pw_metrics w) (sent_request S c host port) Map.empty = Some x"
      "sv_error x = None" "sv_actions x = [ServeUDP effects]" by blast
  from acquire_holding [OF sv(1) k(1), of n "pw_metrics w"] k(2) obtain m1 where
    m1: "acquireConnectUDP (su_key S) (holding S ?k n) (pw_metrics w) = (Some (n + 1), holding S (?k + 1) (n + 1), m1)" by auto
  let ?w' = "?w\<lparr>pw_handler := holding S (?k + 1) (n + 1), pw_metrics := m1, pw_status := (pw_status w)(?s := StatusOK),
      pw_tunnels := (pw_tunnels w)(?s \<mapsto> new_tunnel (target_address S host port))\<rparr>"
  have "answer_request S ?s (open_request c (target_url (su_proxy S) host port)) ?w = ?w'"
    using sv(5) x m1 e(2) by (simp add: answer_request_def sent_open)
  moreover have "serving S parse ?w'"
  proof -
    have "?s \<notin> dom (pw_tunnels w)" using serving_fresh [OF assms(1)] by auto
    with sv(3) have "card (insert ?s (dom (pw_tunnels w))) = Suc (card (dom (pw_tunnels w)))" by simp
    moreover have "dom (pw_tunnels w) \<subseteq> {..<Suc ?s}" using sv(4) by auto
    ultimately show ?thesis using sv assms(5) by (auto simp: serving_def add.commute)
  qed
  ultimately show ?thesis
    using open_run [OF sv(2) assms(2), of host port w] assms(3) by (simp add: allowed_target_def Let_def)
qed

lemma proxy_open_full:
  assumes "serving S parse w" and "may_use S c" and "allowed_target S host port" and "128 \<le> card (dom (pw_tunnels w))"
  shows "\<exists>w'. run_state (open_stream (proxy_net S) parse c host port) w = (Inr (pw_next w, StatusServiceUnavailable), w') \<and>
    serving S parse w' \<and> pw_sockets w' = pw_sockets w \<and> pw_tunnels w' = pw_tunnels w"
proof -
  let ?s = "pw_next w" and ?w = "w\<lparr>pw_next := Suc (pw_next w)\<rparr>"
  from assms(1,4) obtain n where sv: "setup_ok S" "parses_https parse (su_proxy S)" "dom (pw_tunnels w) \<subseteq> {..<?s}"
    "card (dom (pw_tunnels w)) = 128" "pw_handler w = holding S 128 n" by (auto simp: serving_def)
  from udp_refuses [OF sv(1) assms(3)] obtain m' r' where
    e: "serveConnectUDP (live_udp S ?w) (holding S 128 n) (pw_metrics w) (sent_request S c host port) =
      (Some (HandlerError StatusServiceUnavailable ErrConnectUDPResourceLimit), holding S 128 n, m', r', [])" by blast
  from serve_sent [OF sv(1) assms(2) e] obtain x where
    x: "ServeHTTP ((su_http S)\<lparr>he_udp := live_udp S ?w\<rparr>) (holding S 128 n) (pw_metrics w) (sent_request S c host port) Map.empty = Some x"
      "sv_error x = Some (HandlerError StatusServiceUnavailable ErrConnectUDPResourceLimit)"
      "sv_handler x = holding S 128 n" "sv_metrics x = m'" by blast
  let ?w' = "?w\<lparr>pw_handler := holding S 128 n, pw_metrics := m', pw_status := (pw_status w)(?s := StatusServiceUnavailable)\<rparr>"
  have "answer_request S ?s (open_request c (target_url (su_proxy S) host port)) ?w = ?w'"
    using sv(5) x by (simp add: answer_request_def sent_open)
  moreover have "serving S parse ?w'" using sv assms(1) by (auto simp: serving_def)
  ultimately show ?thesis
    using open_run [OF sv(2) assms(2), of host port w] assms(3) by (simp add: allowed_target_def Let_def)
qed

lemma proxy_closing:
  assumes "serving S parse w"
  shows "\<exists>w'. run_state (closeStream (proxy_net S) s) w = ((), w') \<and> serving S parse w' \<and> pw_sockets w' = pw_sockets w \<and>
    pw_tunnels w' = (pw_tunnels w)(s := None)"
proof (cases "pw_tunnels w s")
  case None
  then have "end_tunnel S s w = w" "(pw_tunnels w)(s := None) = pw_tunnels w" by (auto simp: end_tunnel_def)
  with assms show ?thesis by (simp add: closeStream_def proxy_net_def)
next
  case (Some t)
  let ?k = "int (card (dom (pw_tunnels w)))"
  from assms obtain n where sv: "finite (dom (pw_tunnels w))" "pw_handler w = holding S ?k n" by (auto simp: serving_def)
  have s: "s \<in> dom (pw_tunnels w)" using Some by auto
  with sv(1) have "0 < ?k" by (auto simp: card_gt_0_iff)
  then obtain m' where e: "end_tunnel S s w =
      w\<lparr>pw_handler := holding S (?k - 1) n, pw_metrics := m', pw_tunnels := (pw_tunnels w)(s := None)\<rparr>"
    using Some sv(2) by (simp add: end_tunnel_def releaseConnectUDP_def release_holding)
  have "int (card (dom (pw_tunnels w) - {s})) = ?k - 1" using card_remove_int [OF sv(1) s] .
  moreover have "card (dom (pw_tunnels w) - {s}) \<le> card (dom (pw_tunnels w))" using sv(1) by (intro card_mono) auto
  ultimately have "serving S parse (end_tunnel S s w)"
    using assms unfolding e by (auto simp: serving_def)
  then show ?thesis by (simp add: closeStream_def proxy_net_def e)
qed

lemma rfc_encode: "encodeConnectUDPDatagram rfc_Append p = 0 # p"
  by (simp add: encodeConnectUDPDatagram_def quicvarint.Append_zero [OF rfc.quicvarint_axioms])

lemma rfc_decode: "decodeConnectUDPDatagram rfc_Parse rfc_Len (0 # p) = Inr p"
  by (simp add: decode_eq [OF rfc.quicvarint_axioms])

lemma relay_view:
  assumes "length p < su_mtu S" and "su_mtu S < 65536"
  shows "tn_address (relay S f (0 # p) t) = tn_address t"
    and "tn_queue (relay S f (0 # p) t) =
      tn_queue t @ (case f p of None \<Rightarrow> [] | Some r \<Rightarrow> if length r < su_mtu S then [0 # r] else [])"
  using assms by (simp_all add: relay_def rfc_encode rfc_decode Let_def split: option.splits)

lemma serving_tunnel:
  assumes "serving S parse w" and "pw_tunnels w s = Some t"
  shows "serving S parse (w\<lparr>pw_tunnels := (pw_tunnels w)(s \<mapsto> t')\<rparr>)"
proof -
  have "insert s (dom (pw_tunnels w)) = dom (pw_tunnels w)" using assms(2) by auto
  with assms(1) show ?thesis by (simp add: serving_def)
qed

lemma tunnels_of_upd:
  "tunnels_of (w\<lparr>pw_tunnels := (pw_tunnels w)(s \<mapsto> t)\<rparr>) = (tunnels_of w)(s \<mapsto> (tn_address t, tn_queue t))"
  by (auto simp: tunnels_of_def)

lemma tunnels_of_cong: "pw_tunnels w' = (pw_tunnels w)(s := x) \<Longrightarrow>
    tunnels_of w' = (tunnels_of w)(s := map_option (\<lambda>t. (tn_address t, tn_queue t)) x)"
  by (auto simp: tunnels_of_def)

lemma tunnels_of_same: "pw_tunnels w' = pw_tunnels w \<Longrightarrow> tunnels_of w' = tunnels_of w"
  by (auto simp: tunnels_of_def)

lemma proxy_sending:
  assumes "serving S parse w" and "tunnels_of w s = Some (a, q)" and "pw_sockets w a = Some f" and "length p < su_mtu S"
  shows "\<exists>w'. run_state (nw_send (proxy_net S) s (0 # p)) w = (Inr (), w') \<and> serving S parse w' \<and>
    pw_sockets w' = pw_sockets w \<and> tunnels_of w' = (tunnels_of w)(s \<mapsto>
      (a, q @ (case f p of None \<Rightarrow> [] | Some r \<Rightarrow> if length r < su_mtu S then [0 # r] else [])))"
proof -
  from assms(2) obtain t where t: "pw_tunnels w s = Some t" "tn_address t = a" "tn_queue t = q"
    by (auto simp: tunnels_of_def)
  have "su_mtu S < 65536" using assms(1) by (simp add: serving_def setup_ok_def)
  note view = relay_view [OF assms(4) this]
  have "run_state (nw_send (proxy_net S) s (0 # p)) w = (Inr (), w\<lparr>pw_tunnels := (pw_tunnels w)(s \<mapsto> relay S f (0 # p) t)\<rparr>)"
    using t assms(3,4) by (simp add: proxy_net_def send_datagram_def)
  then show ?thesis using serving_tunnel [OF assms(1) t(1)] t view by (simp add: tunnels_of_upd)
qed

lemma proxy_receiving:
  assumes "serving S parse w" and "tunnels_of w s = Some (a, d # q)"
  shows "\<exists>w'. run_state (nw_receive (proxy_net S) None s) w = (Inr d, w') \<and> serving S parse w' \<and>
    pw_sockets w' = pw_sockets w \<and> tunnels_of w' = (tunnels_of w)(s \<mapsto> (a, q))"
proof -
  from assms(2) obtain t where t: "pw_tunnels w s = Some t" "tn_address t = a" "tn_queue t = d # q"
    by (auto simp: tunnels_of_def)
  then have "run_state (nw_receive (proxy_net S) None s) w = (Inr d, w\<lparr>pw_tunnels := (pw_tunnels w)(s \<mapsto> t\<lparr>tn_queue := q\<rparr>)\<rparr>)"
    by (simp add: proxy_net_def receive_datagram_def)
  then show ?thesis using serving_tunnel [OF assms(1) t(1)] t by (simp add: tunnels_of_upd)
qed

interpretation proxy: udp_service "proxy_net S" parse "may_use S" "serving S parse" tunnels_of pw_sockets
  "allowed_target S" "target_address S" 128 "su_mtu S" for S parse
proof (unfold_locales, goal_cases)
  case (1 w)
  then show ?case by (simp add: serving_def)
next
  case (2 w c host port)
  then have "tunnels_of w (pw_next w) = None" by (simp add: tunnels_of_def serving_fresh)
  with proxy_open_free [OF 2(1-4)] 2(5) show ?case by (force simp: new_tunnel_def dest!: tunnels_of_cong)
next
  case (3 w c host port)
  then have "tunnels_of w (pw_next w) = None" by (simp add: tunnels_of_def serving_fresh)
  with proxy_open_full [OF 3(1-3)] 3(4) show ?case by (force dest!: tunnels_of_same)
next
  case (4 w s)
  from proxy_closing [OF this] show ?case by (force dest!: tunnels_of_cong)
next
  case (5 w s a q f p)
  then show ?case by (rule proxy_sending)
next
  case (6 w d s)
  then show ?case by (simp add: proxy_net_def send_datagram_def)
next
  case (7 w s a d q)
  then show ?case by (rule proxy_receiving)
next
  case (8 w t)
  then show ?case by (simp add: proxy_net_def serving_def tunnels_of_def [abs_def])
next
  case (9 w dur)
  then show ?case by (simp add: proxy_net_def)
qed

section \<open>Starting the fixtures\<close>

text \<open>The targets of the client's modes are admitted by the proxy's policy and lead where their names say;
  the ports handed out are different ones.\<close>

definition local_targets :: "proxy_setup \<Rightarrow> bool" where
  "local_targets S \<longleftrightarrow> (\<forall>p. 1 \<le> p \<and> p \<le> 65535 \<longrightarrow>
     allowed_target S loopback p \<and> target_address S loopback p = JoinHostPort loopback (Itoa p) \<and>
     allowed_target S ''::1'' p \<and> target_address S ''::1'' p = JoinHostPort ''::1'' (Itoa p) \<and>
     allowed_target S privateDomainTarget p \<and>
     target_address S privateDomainTarget p \<in> {JoinHostPort loopback (Itoa p), JoinHostPort ''::1'' (Itoa p)})"

definition ports_ok :: "proxy_setup \<Rightarrow> bool" where
  "ports_ok S \<longleftrightarrow> (\<forall>i < 4. 1 \<le> su_port S i \<and> su_port S i \<le> 65535) \<and> inj_on (su_port S) {..<4}"

definition idle_world :: "proxy_setup \<Rightarrow> (string \<Rightarrow> goerror + url) \<Rightarrow> proxy_world \<Rightarrow> bool" where
  "idle_world S parse w \<longleftrightarrow>
     serving S parse w \<and> pw_tunnels w = Map.empty \<and> pw_sockets w = Map.empty \<and> pw_count w = 0"

definition with_socket :: "string \<Rightarrow> udp_fixture \<Rightarrow> proxy_world \<Rightarrow> proxy_world" where
  "with_socket a f w = w\<lparr>pw_count := Suc (pw_count w), pw_names := (pw_names w)(pw_count w \<mapsto> a),
     pw_sockets := (pw_sockets w)(a \<mapsto> f)\<rparr>"

lemma with_socket_fields [simp]:
  "pw_sockets (with_socket a f w) = (pw_sockets w)(a \<mapsto> f)" "pw_count (with_socket a f w) = Suc (pw_count w)"
  "tunnels_of (with_socket a f w) = tunnels_of w" "serving S parse (with_socket a f w) = serving S parse w"
  "pw_tunnels (with_socket a f w) = pw_tunnels w"
  by (simp_all add: with_socket_def serving_def tunnels_of_def [abs_def])

lemma close_fixture_fields [simp]:
  "tunnels_of (close_fixture n w) = tunnels_of w" "serving S parse (close_fixture n w) = serving S parse w"
  by (simp_all add: close_fixture_def serving_def tunnels_of_def [abs_def] split: option.splits)

lemma listen_run:
  assumes "good_host host" and "0 \<le> p" "p \<le> 65535"
  shows "listen_udp S (JoinHostPort host (Itoa p)) w =
    (let q = (if p = 0 then su_port S (pw_count w) else p) in
     (Inr (pw_count w, q), w\<lparr>pw_count := Suc (pw_count w),
        pw_names := (pw_names w)(pw_count w \<mapsto> JoinHostPort host (Itoa q))\<rparr>))"
  using good_host_split [OF assms(1,2)] Atoi_Itoa [of p] assms(2,3)
  by (simp add: listen_udp_def max_int_def Let_def)

lemma startEcho_run:
  assumes "good_host host" and "0 \<le> p" "p \<le> 65535"
  shows "run_state (startEcho (proxy_net S) network (JoinHostPort host (Itoa p))) w =
    (let q = (if p = 0 then su_port S (pw_count w) else p) in
     (Inr (pw_count w, q), with_socket (JoinHostPort host (Itoa q)) echo_reply w))"
  by (simp add: startEcho_def proxy_net_def listen_run [OF assms] Let_def spawn_fixture_def with_socket_def)

lemma startDNSFixture_run:
  assumes "''127.0.0.1:0'' = JoinHostPort loopback (Itoa 0)" and "good_host loopback"
  shows "run_state (startDNSFixture (proxy_net S)) w =
    (Inr (pw_count w, su_port S (pw_count w)),
     with_socket (JoinHostPort loopback (Itoa (su_port S (pw_count w)))) dns_reply w)"
  unfolding startDNSFixture_def assms(1)
  by (simp add: proxy_net_def listen_run [OF assms(2)] Let_def spawn_fixture_def with_socket_def)

text \<open>The two addresses of the local host.\<close>

lemma parse_v6_local: "ParseIP ''::1'' = [0,0,0,0,0,0,0,0,0,0,0,0,0,0,0,1]"
proof -
  have "replicate 14 (0 :: byte) = [0,0,0,0,0,0,0,0,0,0,0,0,0,0]" by (simp add: eval_nat_numeral)
  then show ?thesis by (simp add: go_eval)
qed

lemma print_v6_local: "IP_String [0,0,0,0,0,0,0,0,0,0,0,0,0,0,0,1] = ''::1''"
proof -
  have "groups16 [0,0,0,0,0,0,0,0,0,0,0,0,0,0,0,1] = [0,0,0,0,0,0,0,1]" by simp
  moreover have "longest_run [0,0,0,0,0,0,0,1] = (0,7)" by (simp add: longest_run_def zero_run_def upt_rec)
  moreover have "To4 [0,0,0,0,0,0,0,0,0,0,0,0,0,0,0,1] = []" by (simp add: To4_def v4InV6Prefix_def)
  moreover have "hex_digits 1 = ''1''" by code_simp
  ultimately show ?thesis unfolding IP_String_def ipv6_string_def by simp
qed

lemma print_v4_local: "ParseIP loopback \<noteq> [] \<and> IP_String (ParseIP loopback) = loopback"
proof -
  have "ParseIP loopback \<noteq> []" by (simp add: loopback_def go_eval)
  moreover from this have "IP_String (ParseIP loopback) = loopback"
    by (rule ParseIP_dotted) (simp add: loopback_def)
  ultimately show ?thesis ..
qed

lemma local_hosts: "good_host loopback" "good_host ''::1''"
  using print_v4_local ParseIP_length [of loopback] parse_v6_local print_v6_local
  by (auto simp: good_host_def)

lemma local_literals:
  "''127.0.0.1:0'' = JoinHostPort loopback (Itoa 0)" "''[::1]:0'' = JoinHostPort ''::1'' (Itoa 0)"
  by (simp_all add: loopback_def JoinHostPort_def Itoa_def nat_digits.simps go_eval)

lemma local_names:
  "0 \<le> p \<Longrightarrow> p \<le> 65535 \<Longrightarrow> 0 \<le> q \<Longrightarrow> q \<le> 65535 \<Longrightarrow>
     JoinHostPort loopback (Itoa p) = JoinHostPort loopback (Itoa q) \<longleftrightarrow> p = q"
  "JoinHostPort loopback t \<noteq> JoinHostPort ''::1'' t'"
proof -
  assume "0 \<le> p" "p \<le> 65535" "0 \<le> q" "q \<le> 65535"
  then have "Atoi (Itoa p) = Some p" "Atoi (Itoa q) = Some q" by (simp_all add: Atoi_Itoa max_int_def)
  then have "Itoa p = Itoa q \<longleftrightarrow> p = q" by (metis option.inject)
  then show "JoinHostPort loopback (Itoa p) = JoinHostPort loopback (Itoa q) \<longleftrightarrow> p = q"
    by (simp add: JoinHostPort_def)
next
  show "JoinHostPort loopback t \<noteq> JoinHostPort ''::1'' t'" by (simp add: JoinHostPort_def loopback_def)
qed

lemma startDualStackEcho_run:
  assumes "1 \<le> su_port S (pw_count w)" and "su_port S (pw_count w) \<le> 65535"
  shows "run_state (startDualStackEcho (proxy_net S)) w =
    (Inr (Suc (pw_count w), pw_count w, su_port S (pw_count w)),
     with_socket (JoinHostPort loopback (Itoa (su_port S (pw_count w)))) echo_reply
       (with_socket (JoinHostPort ''::1'' (Itoa (su_port S (pw_count w)))) echo_reply w))"
proof -
  have "''127.0.0.1'' = loopback" by (simp add: loopback_def)
  with assms show ?thesis
    unfolding startDualStackEcho_def local_literals
    by (simp add: startEcho_run [OF local_hosts(1)] startEcho_run [OF local_hosts(2)] Let_def)
qed

lemma run_close_socket [simp]: "run_state (nw_close_socket (proxy_net S) n) w = ((), close_fixture n w)"
  by (simp add: proxy_net_def)

lemma four: "0 < (4 :: nat)" "Suc 0 < 4" "Suc (Suc (Suc 0)) < 4"
  by simp_all

lemma matrix_world:
  assumes "idle_world S parse w" and "local_targets S" and "ports_ok S" and "1024 < su_mtu S" and "may_use S c"
  defines "name \<equiv> \<lambda>p. JoinHostPort loopback (Itoa p)"
  shows "proxy.fixtures_run S parse c (su_port S 0) (su_port S 1) (su_port S 3)
    (with_socket (name (su_port S 3)) dns_reply (with_socket (name (su_port S 1)) echo_reply
      (with_socket (JoinHostPort ''::1'' (Itoa (su_port S 1))) echo_reply (with_socket (name (su_port S 0)) echo_reply w))))"
proof -
  have p: "1 \<le> su_port S 0" "su_port S 0 \<le> 65535" "1 \<le> su_port S 1" "su_port S 1 \<le> 65535"
    "1 \<le> su_port S 3" "su_port S 3 \<le> 65535" using assms(3) by (simp_all add: ports_ok_def)
  have d: "su_port S 0 \<noteq> su_port S 1" "su_port S 0 \<noteq> su_port S 3" "su_port S 1 \<noteq> su_port S 3"
    using assms(3) inj_on_contraD [of "su_port S" "{..<4}"] by (simp_all add: ports_ok_def)
  have "serving S parse w" "card (dom (tunnels_of w)) < 128" "su_mtu S < 65536"
    using assms(1) by (auto simp: idle_world_def serving_def setup_ok_def)
  moreover have "target_address S privateDomainTarget (su_port S 1) \<in> {name (su_port S 1), JoinHostPort ''::1'' (Itoa (su_port S 1))}"
    using assms(2) p by (simp add: local_targets_def name_def)
  ultimately show ?thesis
    using assms(2,4,5) p d local_names(2) [symmetric] local_names(2)
    unfolding proxy.fixtures_run_def
    by (auto simp: local_targets_def name_def local_names(1))
qed

section \<open>The modes succeed\<close>

lemma matrix_run:
  assumes "idle_world S parse w" and "local_targets S" and "ports_ok S" and "1024 < su_mtu S" and "may_use S c"
    and "set order \<subseteq> {..<8}"
  shows "\<exists>w'. run_state (runMatrix (proxy_net S) parse order c) w = (Inr (), w') \<and> serving S parse w' \<and>
    tunnels_of w' = Map.empty"
proof -
  let ?name = "\<lambda>p. JoinHostPort loopback (Itoa p)"
  let ?w = "with_socket (?name (su_port S 3)) dns_reply (with_socket (?name (su_port S 1)) echo_reply
      (with_socket (JoinHostPort ''::1'' (Itoa (su_port S 1))) echo_reply (with_socket (?name (su_port S 0)) echo_reply w)))"
  from proxy.matrix_checks_ok [OF matrix_world [OF assms(1-5)] assms(6)] obtain w' where
    w': "run_state (matrix_checks (proxy_net S) parse c order (su_port S 0) (su_port S 1) (su_port S 3)) ?w = (Inr (), w')"
      "proxy.kept S parse ?w w'" by blast
  have n: "pw_count w = 0" using assms(1) by (simp add: idle_world_def)
  have p: "1 \<le> su_port S 1" "su_port S 1 \<le> 65535" using assms(3) by (simp_all add: ports_ok_def)
  have start: "run_state (startEcho (proxy_net S) ''udp4'' ''127.0.0.1:0'') w =
      (Inr (0, su_port S 0), with_socket (?name (su_port S 0)) echo_reply w)"
    unfolding local_literals(1) by (simp add: startEcho_run [OF local_hosts(1)] n Let_def)
  have k: "serving S parse w'" "tunnels_of w' = Map.empty"
    using w'(2) assms(1) by (auto simp: proxy.kept_def idle_world_def tunnels_of_def)
  then show ?thesis
    using w'(1) start p
    by (simp add: runMatrix_def startDualStackEcho_run startDNSFixture_run [OF local_literals(1) local_hosts(1)] n
        numeral_3_eq_3)
qed

lemma limits_run:
  assumes "idle_world S parse w" and "local_targets S" and "ports_ok S" and "may_use S c"
    and "SplitHostPort (su_proxy S) = Inr (host, port)"
  shows "\<exists>w'. run_state (runLimits (proxy_net S) parse c) w = (Inr (), w') \<and> serving S parse w' \<and> tunnels_of w' = Map.empty"
proof -
  let ?c = "\<lparr>c_proxy = su_proxy S, c_auth = c_auth c, c_conn = 0\<rparr>"
  let ?w = "with_socket (JoinHostPort loopback (Itoa (su_port S 0))) echo_reply w"
  have n: "pw_count w = 0" using assms(1) by (simp add: idle_world_def)
  have p: "1 \<le> su_port S 0" "su_port S 0 \<le> 65535" using assms(3) by (simp_all add: ports_ok_def)
  have "may_use S ?c" using assms(4) by (simp add: may_use_def)
  moreover have "serving S parse ?w" "tunnels_of ?w = Map.empty"
    using assms(1) by (auto simp: idle_world_def tunnels_of_def)
  moreover have "allowed_target S loopback (su_port S 0)" "pw_sockets ?w (target_address S loopback (su_port S 0)) \<noteq> None"
    using assms(2) p by (simp_all add: local_targets_def)
  ultimately obtain streams w1 w2 where
    l: "run_state (limit_checks (proxy_net S) parse c ?c (su_port S 0)) ?w = ((None, streams), w1)"
      "run_state (close_streams (proxy_net S) streams) w1 = ((), w2)" "serving S parse w2" "tunnels_of w2 = Map.empty"
    using proxy.limit_checks_ok [of S parse ?w c ?c "su_port S 0"] assms(4) by blast
  have dial: "run_state (dialClient (proxy_net S) (c_proxy c) [] []) w =
      (Inr \<lparr>c_proxy = su_proxy S, c_auth = [], c_conn = 0\<rparr>, w)"
    using assms(4,5) by (simp add: dialClient_def may_use_def) (simp add: proxy_net_def basic_auth_def)
  have start: "run_state (startEcho (proxy_net S) ''udp4'' ''127.0.0.1:0'') w = (Inr (0, su_port S 0), ?w)"
    unfolding local_literals(1) by (simp add: startEcho_run [OF local_hosts(1)] n Let_def)
  have close: "run_state (close_client (proxy_net S) x) v = ((), v)" for x v
    by (simp add: close_client_def proxy_net_def)
  show ?thesis
    using l by (simp add: runLimits_def dial start close Let_def)
qed

definition user_client :: "proxy_setup \<Rightarrow> string \<Rightarrow> string \<Rightarrow> interop_client" where
  "user_client S user password = \<lparr>c_proxy = su_proxy S, c_auth = basic_auth user password, c_conn = 0\<rparr>"

lemma user_client_may: "(user, password) \<in> set (su_users S) \<Longrightarrow> user \<noteq> [] \<Longrightarrow> may_use S (user_client S user password)"
  by (auto simp: may_use_def user_client_def basic_auth_def EncodeAuthCredentials_def)

lemma main_run:
  assumes "SplitHostPort (su_proxy S) = Inr (host, port)"
    and "run_state (run_mode (proxy_net S) parse order mode (user_client S user password)) w = (Inr (), w')"
    and "serving S parse w'" and "tunnels_of w' = Map.empty"
  shows "\<exists>w' n. run_state (client_main (proxy_net S) parse order mode (su_proxy S) user password) w = (0, w') \<and>
    pw_tunnels w' = Map.empty \<and> pw_handler w' = holding S 0 n"
proof -
  from assms(4) have e: "pw_tunnels w' = Map.empty" using dom_tunnels_of [of w'] by (metis dom_eq_empty_conv)
  have dial: "run_state (dialClient (proxy_net S) (su_proxy S) user password) w = (Inr (user_client S user password), w)"
    using assms(1) by (simp add: dialClient_def user_client_def) (simp add: proxy_net_def)
  have "run_state (client_main (proxy_net S) parse order mode (su_proxy S) user password) w = (0, w')"
    using dial assms(2) by (simp add: client_main_def close_client_def) (simp add: proxy_net_def)
  moreover from assms(3) e obtain n where "pw_handler w' = holding S 0 n" by (auto simp: serving_def)
  ultimately show ?thesis using e by blast
qed



section \<open>A concrete proxy\<close>

definition local_handler :: handler where
  "local_handler = new_handler\<lparr>AuthCredentials := Some [EncodeAuthCredentials ''test'' ''pass''], aclRules := [aclAllRule True]\<rparr>"

definition local_lookup :: "string \<Rightarrow> goerror + ip list" where
  "local_lookup host = (if host = ''::1'' then Inr [[0,0,0,0,0,0,0,0,0,0,0,0,0,0,0,1]] else Inr [[127,0,0,1]])"

definition lab_setup :: proxy_setup where
  "lab_setup = \<lparr>su_http = sample_http_env\<lparr>he_udp := sample_env\<lparr>env_lookup := local_lookup\<rparr>\<rparr>, su_handler = local_handler,
     su_users = [(''test'', ''pass'')], su_proxy = ''127.0.0.1:19443'', su_remote = ''127.0.0.1:5000'', su_mtu = 1200,
     su_port = (\<lambda>n. 20000 + int n)\<rparr>"

text \<open>\<open>url.Parse\<close> on https URLs without user information, query, fragment and escapes.\<close>

definition https_parse :: "string \<Rightarrow> goerror + url" where
  "https_parse s =
     (if HasPrefix s ''https://'' then
        let rest = drop 8 s in
        Inr \<lparr>Scheme = ''https'', User = None, url_Host = takeWhile (\<lambda>c. c \<noteq> CHR ''/'') rest,
             Path = dropWhile (\<lambda>c. c \<noteq> CHR ''/'') rest, RawPath = [], RawQuery = [], ForceQuery = False, Fragment = []\<rparr>
      else Inl (ErrorString ''unsupported URL''))"

definition local_world :: proxy_world where
  "local_world = \<lparr>pw_handler = local_handler, pw_metrics = sample_metrics, pw_next = 0, pw_status = (\<lambda>_. 0),
     pw_tunnels = Map.empty, pw_count = 0, pw_names = Map.empty, pw_sockets = Map.empty, pw_output = []\<rparr>"

lemma target_path_slash: "\<exists>r. target_path host port = CHR ''/'' # r"
  by (simp add: target_path_def connectUDPURIPrefix_def)

lemma local_parses: "CHR ''/'' \<notin> set proxy \<Longrightarrow> parses_https https_parse proxy"
  unfolding parses_https_def
proof (intro allI impI)
  fix host :: string and port :: int
  assume "CHR ''/'' \<notin> set proxy"
  moreover obtain r where "target_path host (Itoa port) = CHR ''/'' # r" using target_path_slash by blast
  ultimately show "https_parse (''https://'' @ proxy @ target_path host (Itoa port)) = Inr (target_url proxy host port)"
    by (simp add: https_parse_def target_url_def HasPrefix_def takeWhile_neq_append)
qed

lemma local_resolves:
  assumes "good_host host" and "1 \<le> p" "p \<le> 65535" and "local_lookup host = Inr [a]" and "a \<noteq> []"
  shows "resolveTargetCheckACL local_handler local_lookup (JoinHostPort host (Itoa p)) =
    Inr \<lparr>target_host = host, target_port = Itoa p, addresses = [JoinHostPort (IP_String a) (Itoa p)]\<rparr>"
proof -
  have "SplitHostPort (JoinHostPort host (Itoa p)) = Inr (host, Itoa p)" using good_host_split [OF assms(1)] assms(2) by simp
  moreover have "Atoi (Itoa p) = Some p" using assms(2,3) by (simp add: Atoi_Itoa max_int_def)
  moreover have "hostIsAllowed [aclAllRule True] host a" by (simp add: hostIsAllowed_Cons)
  ultimately show ?thesis
    using assms(2-5)
    by (simp add: resolveTargetCheckACL_def prepareTargetPolicy_def local_handler_def new_handler_def portIsAllowed_def Let_def)
qed

lemma local_domain: "good_host privateDomainTarget \<and> privateDomainTarget \<noteq> ''::1'' \<and> loopback \<noteq> ''::1''"
proof -
  have "canonical_name privateDomainTarget" by code_simp
  then show ?thesis by (simp add: good_host_def privateDomainTarget_def loopback_def)
qed

lemma print_local: "IP_String [127, 0, 0, 1] = loopback"
proof -
  have "nat_digits 0 = ''0''" "nat_digits (Suc 0) = ''1''" by code_simp+
  then show ?thesis by (simp add: IP_String_def ipv4_string_def loopback_def nat_digits_3 go_eval)
qed

lemma lab_setup_fields [simp]:
  "su_handler lab_setup = local_handler" "he_udp (su_http lab_setup) = sample_env\<lparr>env_lookup := local_lookup\<rparr>"
  "su_users lab_setup = [(''test'', ''pass'')]" "su_proxy lab_setup = ''127.0.0.1:19443''" "su_mtu lab_setup = 1200"
  "su_port lab_setup n = 20000 + int n" "env_toASCII sample_env = Inr"
  by (simp_all add: lab_setup_def sample_env_def)

lemma local_target:
  assumes "good_host host" and "1 \<le> p" "p \<le> 65535" and "local_lookup host = Inr [a]" and "a \<noteq> []"
  shows "allowed_target lab_setup host p" and "target_address lab_setup host p = JoinHostPort (IP_String a) (Itoa p)"
  using local_resolves [OF assms] assms(1-3) by (simp_all add: allowed_target_def target_address_def)

lemma lab_setup_ok: "setup_ok lab_setup" "local_targets lab_setup" "ports_ok lab_setup"
  "idle_world lab_setup https_parse local_world"
proof -
  have caps: "http3CapabilitiesFromResponseWriter (env_streams sample_env) (env_settingser sample_env)
      (env_unwrap sample_env) (env_writer sample_env) = Inr (0, 0)"
    by (simp add: sample_env_def http3CapabilitiesFromResponseWriter_def eval_nat_numeral)
  have flags: "env_settings_wait sample_env = None" "env_settings sample_env = Some True" "env_has_stream sample_env"
    by (simp_all add: sample_env_def)
  have ascii: "list_all is_ascii ''127.0.0.1:19443''" by code_simp
  show ok: "setup_ok lab_setup"
    using ascii by (simp add: setup_ok_def capable_def caps flags configured_def) (simp add: local_handler_def new_handler_def)
  show "ports_ok lab_setup" by (auto simp: ports_ok_def inj_on_def)
  show "local_targets lab_setup"
    unfolding local_targets_def
    using local_target [OF local_hosts(1), of _ "[127, 0, 0, 1]"] local_target [OF local_hosts(2), of _ "[0,0,0,0,0,0,0,0,0,0,0,0,0,0,0,1]"]
      local_target [of privateDomainTarget _ "[127, 0, 0, 1]"] local_domain print_local print_v6_local
    by (simp add: local_lookup_def)
  have "local_handler = holding lab_setup 0 0" by (simp add: holding_def) (simp add: local_handler_def new_handler_def)
  with ok show "idle_world lab_setup https_parse local_world"
    by (auto simp: idle_world_def serving_def local_world_def local_parses)
qed

lemma local_proxy_address: "SplitHostPort ''127.0.0.1:19443'' = Inr (''127.0.0.1'', ''19443'')"
  by (simp add: policy_eval go_eval)



section \<open>Datagrams\<close>

text \<open>
  (C30) The client's datagram format, written for one byte, agrees with the proxy's, written for variable-length
  integers: both encode a payload in the same way, and they accept the same datagrams with the same
  payloads.
\<close>

theorem interop_datagrams_agree:
  assumes "quicvarint Parse Len Append"
  shows "encode p = encodeConnectUDPDatagram Append p \<and>
    (decode d = Inr p \<longleftrightarrow> decodeConnectUDPDatagram Parse Len d = Inr p)"
proof -
  have "decode d = Inr p \<longleftrightarrow> d = 0 # p" by (cases d) (auto simp: decode_def)
  moreover have "decodeConnectUDPDatagram Parse Len d = Inr p \<longleftrightarrow> d = 0 # p"
    by (auto simp: decode_eq [OF assms])
  ultimately show ?thesis
    by (simp add: encode_def encodeConnectUDPDatagram_def quicvarint.Append_zero [OF assms])
qed

theorem interop_datagrams_agree_witness:
  "encode [7] = encodeConnectUDPDatagram rfc_Append [7] \<and>
   (decode [64, 0, 7] = Inr [7] \<longleftrightarrow> decodeConnectUDPDatagram rfc_Parse rfc_Len [64, 0, 7] = Inr [7])"
  using interop_datagrams_agree [OF rfc.quicvarint_axioms] by blast

end
