(* ===== verification/Interop_Padding.thy ===== *)
theory Interop_Padding
  imports Interop_Client Naive_Padding
begin

text \<open>
  The padded tunnel of the interoperability client's mode tcp-padding against the proxy's negotiation,
  response headers and copy loops.
\<close>

lemma client_frame: "frames (\<lambda>_. 0) 0 [[120]] = [0, 1, 0, 120]"
  by (simp add: padding_frame_def)

lemma one_byte_frames:
  assumes "framing n ps raw" and "[b] = concat ps @ raw" and "n < 8"
  shows "raw = [] \<and> ps = [[b]]"
proof -
  have f: "\<forall>s \<in> set ps. s \<noteq> []" "raw \<noteq> [] \<longrightarrow> length ps = 8 - n"
    using assms(1) by (simp_all add: framing_def NumFirstPaddings_def)
  show ?thesis
  proof (cases ps)
    case Nil
    with assms(2,3) f(2) show ?thesis by auto
  next
    case (Cons s rest)
    with f(1) assms(2) have s: "s = [b]" "concat rest @ raw = []" by (auto simp: Cons_eq_append_conv append_eq_Cons_conv)
    with f(1) Cons have "rest = []" by (cases rest) auto
    with s Cons show ?thesis by simp
  qed
qed

lemma proxy_frame:
  assumes "reliable dst" and "length buf = 65536"
  shows "snd (snd (flushingIoCopy dst AddPadding draw 0 k buf [([b], None)])) = padding_frame (draw 0 mod 256) [b]"
proof -
  have "eager [([b], None)]" by (simp add: eager_def)
  from copy_adding [OF assms this, of 0 draw] obtain ps raw where
    p: "framing 0 ps raw" "content [([b], None)] = concat ps @ raw"
      "flushingIoCopy dst AddPadding draw 0 k buf [([b], None)] = (int (length (frames draw 0 ps @ raw)), None, frames draw 0 ps @ raw)"
    by blast
  from p(2) have "[b] = concat ps @ raw" by (simp only: content_simps append_Nil2)
  from one_byte_frames [OF p(1) this] have "raw = [] \<and> ps = [[b]]" by simp
  with p(3) show ?thesis by simp
qed

lemma read_padded_frame:
  assumes "quiet r" and "content r = padding_frame pad [121]" and "pad < 256"
  shows "fst (read_padded r) = Inr ()"
proof -
  have c: "content r = [0, 1, word_of_nat pad] @ 121 # replicate pad 0" using assms(2) by (simp add: padding_frame_def)
  then have "3 \<le> length (content r)" by simp
  then obtain r1 where r1: "ReadFull 3 r = (take 3 (content r), None, r1)" "quiet r1" "content r1 = drop 3 (content r)"
    by (rule ReadFull_quiet [OF assms(1)])
  have c1: "take 3 (content r) = [0, 1, word_of_nat pad]" "content r1 = 121 # replicate pad 0"
    using r1(3) by (simp_all add: c numeral_3_eq_3)
  then have "1 + pad \<le> length (content r1)" by simp
  then obtain r2 where "ReadFull (1 + pad) r1 = (take (1 + pad) (content r1), None, r2)"
    by (rule ReadFull_quiet [OF r1(2)])
  moreover have "unat (word_of_nat pad :: byte) = pad" using assms(3) by (simp add: unat_of_nat)
  ultimately show ?thesis using r1(1) c1 by (simp add: read_padded_def Let_def)
qed

lemma padding_request_header:
  "Header (padding_request c u) ''Padding-Type-Request'' = Some [''1, 0'']"
  by (simp add: padding_request_def new_connect_def Let_def Header_Set_def canonical_padding_keys)

lemma padding_request_negotiates: "negotiateNaivePadding (Header (padding_request c u)) = Inr naivePaddingVariant1"
proof -
  have "TrimSpace ''1'' = ''1''" by (rule TrimSpace_id) (simp add: graphic_def byte_of_def)
  then show ?thesis
    by (simp add: negotiateNaivePadding_def naivePaddingTypeRequestHeader_def canonical_padding_keys padding_request_header)
qed

lemma padding_reply_accepted:
  "padding_reply_ok (setNaivePaddingResponseHeaders draw bits w (Header (padding_request c u)) naivePaddingVariant1)"
proof -
  have "Itoa naivePaddingVariant1 = ''1''" by code_simp
  moreover have "random_padding 16 bits \<noteq> []" using length_random_padding [of 16 bits] by fastforce
  ultimately show ?thesis
    by (simp add: padding_reply_ok_def setNaivePaddingResponseHeaders_def Let_def naivePaddingTypeRequestHeader_def
        naivePaddingTypeReplyHeader_def canonical_padding_keys padding_request_header Header_Get_def Header_Set_def)
qed

text \<open>
  (C31) The padded tunnel of the client works end to end: the proxy negotiates the padding the client asks
  for and answers with headers the client accepts; from the client's one-byte frame, however the
  network splits it, the proxy passes the byte to the target, which answers; and from the proxy's
  frame around that answer, however padded and split, the client reads the answer.
\<close>

theorem interop_padding_tunnel:
  assumes "reliable to_tgt" and "reliable to_cl" and "length up_buf = 65536" and "length down_buf = 65536"
    and "\<forall>(bs, e) \<in> set client_bytes. e = None" and "concat (map fst client_bytes) = [0, 1, 0, 120]"
    and "\<forall>(bs, e) \<in> set target_bytes. e = None"
    and "concat (map fst target_bytes) = snd (snd (flushingIoCopy to_tgt RemovePadding draw 0 k up_buf client_bytes))"
    and "\<forall>(bs, e) \<in> set reply_bytes. e = None"
    and "concat (map fst reply_bytes) =
      snd (snd (flushingIoCopy to_cl AddPadding draw' 0 k' down_buf [(fst (tcp_target (Inr target_bytes) None), None)]))"
  shows "negotiateNaivePadding (Header (padding_request c u)) = Inr naivePaddingVariant1 \<and>
    padding_reply_ok (setNaivePaddingResponseHeaders d bits w (Header (padding_request c u)) naivePaddingVariant1) \<and>
    tcp_target (Inr target_bytes) None = ([121], None) \<and> fst (read_padded reply_bytes) = Inr ()"
proof -
  have q: "quiet client_bytes" "quiet target_bytes" "quiet reply_bytes" using assms(5,7,9) by (simp_all add: quiet_def)
  have "content client_bytes = frames (\<lambda>_. 0) 0 [[120]] @ []" using assms(6) by (simp only: client_frame content_def append_Nil2)
  moreover have "framing 0 [[120]] []" by (simp add: framing_def NumFirstPaddings_def)
  ultimately have "flushingIoCopy to_tgt RemovePadding draw 0 k up_buf client_bytes = (1, None, [120])"
    using copy_removing [OF assms(1,3) q(1), of 0 "[[120]]" "[]" "\<lambda>_. 0"] by simp
  then have cont: "content target_bytes = [120]" using assms(8) by (simp add: content_def)
  then have len: "1 \<le> length (content target_bytes)" by simp
  obtain r where "ReadFull 1 target_bytes = (take 1 (content target_bytes), None, r)" by (rule ReadFull_quiet [OF q(2) len])
  then have t: "tcp_target (Inr target_bytes) None = ([121], None)" by (simp add: tcp_target_def cont)
  then have "content reply_bytes = padding_frame (draw' 0 mod 256) [121]"
    using assms(10) by (simp add: proxy_frame [OF assms(2,4)] content_def)
  then have "fst (read_padded reply_bytes) = Inr ()" by (rule read_padded_frame [OF q(3)]) simp
  with t padding_request_negotiates padding_reply_accepted show ?thesis by blast
qed

theorem interop_padding_tunnel_witness:
  "fst (read_padded [(snd (snd (flushingIoCopy ideal_sink AddPadding (\<lambda>_. 9) 0 0 fresh_buffer
      [(fst (tcp_target (Inr [(snd (snd (flushingIoCopy ideal_sink RemovePadding (\<lambda>_. 0) 0 0 fresh_buffer
          [([0, 1], None), ([0, 120], None)])), None)]) None), None)])), None)]) = Inr ()"
  using interop_padding_tunnel [OF reliable_ideal reliable_ideal, of fresh_buffer fresh_buffer "[([0, 1], None), ([0, 120], None)]"
    "[(snd (snd (flushingIoCopy ideal_sink RemovePadding (\<lambda>_. 0) 0 0 fresh_buffer [([0, 1], None), ([0, 120], None)])), None)]"
    "\<lambda>_. 0" 0] by simp

end
