(* ===== verification/Dns_Fixture.thy ===== *)
theory Dns_Fixture
  imports Go_Net_Roundtrip Go_Errors
begin

text \<open>
  The DNS fixtures of the resolver experiments: the scenario server of
  \<open>experiments/w2w3/realprobe/main.go\<close> and the diagnostic one of
  \<open>experiments/w2w3/realprobe/diag/main.go\<close>.  A packet goes through the parser, the table of
  behaviours and the response builder; what the server would send, and after which delay, is the
  result.  \<open>lower\<close> is the Unicode part of \<open>strings.ToLower\<close>; durations are in nanoseconds.
\<close>

section \<open>Bytes\<close>

text \<open>\<open>string(b)\<close> of a byte slice, big-endian numbers of sixteen bits, and the two bytes
  \<open>byte(v>>8), byte(v)\<close>.\<close>

definition string_of :: "bytes \<Rightarrow> string" where
  "string_of = map (\<lambda>b. char_of (unat b))"

definition BigEndian_Uint16 :: "bytes \<Rightarrow> 16 word" where
  "BigEndian_Uint16 b = ucast (b ! 1) OR push_bit 8 (ucast (b ! 0))"

definition put16 :: "16 word \<Rightarrow> bytes" where
  "put16 v = [ucast (drop_bit 8 v), ucast v]"

definition slice :: "bytes \<Rightarrow> nat \<Rightarrow> nat \<Rightarrow> bytes" where
  "slice b i j = take (j - i) (drop i b)"

section \<open>The behaviour table\<close>

definition fast :: int where "fast = 20 * 1000000"
definition slow :: int where "slow = 700 * 1000000"

record behavior =
  b_kind :: string
  b_delay :: int

type_synonym behavior_table = "string \<rightharpoonup> (string \<rightharpoonup> behavior)"

definition setBehavior :: "string \<Rightarrow> string \<Rightarrow> behavior \<Rightarrow> behavior_table \<Rightarrow> behavior_table" where
  "setBehavior name qtype b t =
     (let t1 = (if t name = None then t(name \<mapsto> Map.empty) else t) in
      t1(name \<mapsto> (the (t1 name))(qtype \<mapsto> b)))"

record scenario =
  sc_id :: string
  sc_name :: string
  sc_a :: behavior
  sc_aaaa :: behavior
  sc_repeats :: int
  sc_cancelMs :: int

definition answer_after :: "int \<Rightarrow> behavior" where
  "answer_after d = \<lparr>b_kind = ''answer'', b_delay = d\<rparr>"

definition dropped :: behavior where "dropped = \<lparr>b_kind = ''drop'', b_delay = 0\<rparr>"
definition nodata :: behavior where "nodata = \<lparr>b_kind = ''nodata'', b_delay = 0\<rparr>"
definition servfail_after :: "int \<Rightarrow> behavior" where
  "servfail_after d = \<lparr>b_kind = ''servfail'', b_delay = d\<rparr>"

definition new_scenario :: "string \<Rightarrow> string \<Rightarrow> behavior \<Rightarrow> behavior \<Rightarrow> int \<Rightarrow> int \<Rightarrow> scenario" where
  "new_scenario i name a aaaa repeats cancelMs =
     \<lparr>sc_id = i, sc_name = name, sc_a = a, sc_aaaa = aaaa, sc_repeats = repeats, sc_cancelMs = cancelMs\<rparr>"

definition scenarios :: "scenario list" where
  "scenarios =
     [new_scenario ''P1_dual_fast'' ''p1.w2w3.example'' (answer_after fast) (answer_after fast) 5 0,
      new_scenario ''P2_a_fast_aaaa_slow'' ''p2.w2w3.example'' (answer_after fast) (answer_after slow) 5 0,
      new_scenario ''P3_aaaa_fast_a_slow'' ''p3.w2w3.example'' (answer_after slow) (answer_after fast) 5 0,
      new_scenario ''P4_aaaa_dropped'' ''p4.w2w3.example'' (answer_after fast) dropped 3 0,
      new_scenario ''P5_a_dropped'' ''p5.w2w3.example'' dropped (answer_after fast) 3 0,
      new_scenario ''P6_aaaa_nodata'' ''p6.w2w3.example'' (answer_after fast) nodata 5 0,
      new_scenario ''P7_both_dropped'' ''p7.w2w3.example'' dropped dropped 2 0,
      new_scenario ''P8_both_servfail'' ''p8.w2w3.example'' (servfail_after fast) (servfail_after fast) 5 0,
      new_scenario ''P9_cancel'' ''p9.w2w3.example'' (answer_after slow) (answer_after slow) 3 100]"

text \<open>The loop of \<open>main\<close> that fills the table.\<close>

definition fill_table :: "scenario list \<Rightarrow> behavior_table \<Rightarrow> behavior_table" where
  "fill_table scs t =
     fold (\<lambda>sc t. setBehavior (sc_name sc) ''28'' (sc_aaaa sc) (setBehavior (sc_name sc) ''1'' (sc_a sc) t)) scs t"

section \<open>Queries and responses\<close>

text \<open>The label loop: the offset after the name and the labels, or \<open>None\<close> for a label that leaves the
  packet.\<close>

function label_loop :: "bytes \<Rightarrow> nat \<Rightarrow> string list \<Rightarrow> (nat \<times> string list) option" where
  "label_loop buf off parts =
     (if off < length buf then
        let l = unat (buf ! off); off1 = off + 1 in
        if l = 0 then Some (off1, parts)
        else if off1 + l > length buf then None
        else label_loop buf (off1 + l) (parts @ [string_of (slice buf off1 (off1 + l))])
      else Some (off, parts))"
  by pat_completeness auto
termination
  by (relation "measure (\<lambda>(buf, off, parts). length buf - off)") auto

declare label_loop.simps [simp del]

definition parseQuery :: "(string \<Rightarrow> string) \<Rightarrow> bytes \<Rightarrow> (bytes \<times> bytes \<times> string \<times> 16 word) option" where
  "parseQuery lower buf =
     (if length buf < 12 then None
      else
        (case label_loop buf 12 [] of
           None \<Rightarrow> None
         | Some (off, parts) \<Rightarrow>
             if off + 4 > length buf then None
             else Some (slice buf 0 2, slice buf 12 (off + 4), ToLower lower (Join parts CHR ''.''),
                        BigEndian_Uint16 (slice buf off (off + 2)))))"

definition buildResponse :: "bytes \<Rightarrow> bytes \<Rightarrow> byte \<Rightarrow> bytes \<Rightarrow> bytes" where
  "buildResponse qid question rcode answer =
     (let flags = [0x81, 0x80]; ancount = (if length answer > 0 then 1 else 0) in
      qid @ flags @ put16 1 @ put16 ancount @ put16 0 @ put16 0 @ question @ answer)"

definition answerRR :: "bytes \<Rightarrow> 16 word \<Rightarrow> bytes \<Rightarrow> bytes" where
  "answerRR namePtr rrtype rdata =
     namePtr @ put16 rrtype @ [0x00, 0x01] @ [0, 0, 0, 60] @
     [word_of_nat (length rdata div 256), word_of_nat (length rdata)] @ rdata"

definition aAnswer :: bytes where "aAnswer = To4 (ParseIP ''192.0.2.20'')"
definition aaaaAnswer :: bytes where "aaaaAnswer = To16 (ParseIP ''2001:db8:20::20'')"

section \<open>The scenario server\<close>

definition answer_for :: "behavior \<Rightarrow> 16 word \<Rightarrow> bytes" where
  "answer_for b qtype =
     (if b_kind b = ''answer'' then
        if qtype = 1 then answerRR [0xC0, 0x0C] 1 aAnswer else answerRR [0xC0, 0x0C] 28 aaaaAnswer
      else [])"

text \<open>One packet: whom to answer, after which delay, and with what.\<close>

definition answer_query ::
  "(string \<Rightarrow> string) \<Rightarrow> behavior_table \<Rightarrow> bytes \<Rightarrow> 'p option \<Rightarrow> ('p \<times> int \<times> bytes) option" where
  "answer_query lower t packet peer =
     (case (parseQuery lower packet, peer) of
        (Some (qid, question, name, qtype), Some p) \<Rightarrow>
          let qkey = nat_digits (unat qtype);
              b = (case t name of
                     None \<Rightarrow> nodata
                   | Some m \<Rightarrow> (case m qkey of None \<Rightarrow> nodata | Some b \<Rightarrow> b))
          in
          if b_kind b = ''drop'' then None
          else
            let wait = (if b_delay b > 0 then b_delay b else 0);
                rcode = (if b_kind b = ''servfail'' then 2 else 0)
            in Some (p, wait, buildResponse qid question rcode (answer_for b qtype))
      | _ \<Rightarrow> None)"

text \<open>The receive loop: what \<open>ReadFromUDP\<close> returns is a list, cut to the buffer of 1500 bytes; the loop
  ends with the first error.\<close>

fun serveLoop ::
  "(string \<Rightarrow> string) \<Rightarrow> behavior_table \<Rightarrow> (goerror + bytes \<times> 'p option) list \<Rightarrow> ('p \<times> int \<times> bytes) list" where
  "serveLoop lower t [] = []"
| "serveLoop lower t (Inl err # rest) = []"
| "serveLoop lower t (Inr (packet, peer) # rest) =
     (case answer_query lower t (take 1500 packet) peer of None \<Rightarrow> [] | Some reply \<Rightarrow> [reply]) @ serveLoop lower t rest"

section \<open>The diagnostic server\<close>

definition rr :: "16 word \<Rightarrow> bytes \<Rightarrow> bytes" where
  "rr rrtype rdata =
     [0xC0, 0x0C] @ put16 rrtype @ [0x00, 0x01] @ [0, 0, 0, 60] @
     [word_of_nat (length rdata div 256), word_of_nat (length rdata)] @ rdata"

text \<open>Its label loop slices the whole buffer, of which the packet fills \<open>n\<close> bytes; \<open>None\<close> is the panic of
  a slice that leaves the buffer.\<close>

function diag_labels :: "bytes \<Rightarrow> nat \<Rightarrow> nat \<Rightarrow> nat option" where
  "diag_labels buf n off =
     (if off < n then
        let l = unat (buf ! off); off1 = off + 1 in
        if l = 0 then Some off1
        else if off1 + l > length buf then None
        else diag_labels buf n (off1 + l)
      else Some off)"
  by pat_completeness auto
termination
  by (relation "measure (\<lambda>(buf, n, off). n - off)") auto

declare diag_labels.simps [simp del]

text \<open>One round: \<open>None\<close> is a panic, \<open>Some None\<close> a packet that is skipped.\<close>

definition diag_round :: "bytes \<Rightarrow> nat \<Rightarrow> bytes option option" where
  "diag_round buf n =
     (if n < 16 then Some None
      else
        (case diag_labels buf n 12 of
           None \<Rightarrow> None
         | Some off \<Rightarrow>
             let qtype = (if off + 2 \<le> n then BigEndian_Uint16 (slice buf off (off + 2)) else 0) in
             if off + 4 > length buf then None
             else
               let q = slice buf 12 (off + 4);
                   answer = (if qtype = 1 then rr 1 (To4 (ParseIP ''192.0.2.20''))
                             else rr 28 (To16 (ParseIP ''2001:db8:20::20'')));
                   ancount = (if length answer > 0 then 1 else 0)
               in Some (Some (slice buf 0 2 @ [0x81, 0x80] @ put16 1 @ put16 ancount @ put16 0 @ put16 0 @ q @ answer))))"

section \<open>Facts\<close>

lemma be16_put16 [simp]: "BigEndian_Uint16 (put16 v @ r) = v"
  unfolding BigEndian_Uint16_def put16_def
  by (rule bit_word_eqI) (auto simp: bit_simps nth_append)

lemma length_put16 [simp]: "length (put16 v) = 2"
  by (simp add: put16_def)

lemma slice_append: "slice (a @ b @ c) (length a) (length a + length b) = b"
  by (simp add: slice_def)

lemma slice_whole: "n \<le> length buf \<Longrightarrow> j \<le> n \<Longrightarrow> slice (take n buf) i j = slice buf i j"
  by (simp add: slice_def drop_take min_def)

text \<open>A name on the wire.\<close>

definition wire_name :: "bytes list \<Rightarrow> bytes" where
  "wire_name ls = concat (map (\<lambda>l. word_of_nat (length l) # l) ls) @ [0]"

definition wire_label :: "bytes \<Rightarrow> bool" where
  "wire_label l \<longleftrightarrow> l \<noteq> [] \<and> length l < 256"

lemma label_loop_wire:
  assumes "list_all wire_label ls"
  shows "label_loop (pre @ wire_name ls @ rest) (length pre) parts =
    Some (length pre + length (wire_name ls), parts @ map string_of ls)"
  using assms
proof (induction ls arbitrary: pre parts)
  case Nil
  then show ?case by (subst label_loop.simps) (simp add: wire_name_def nth_append)
next
  case (Cons l ls)
  let ?buf = "pre @ wire_name (l # ls) @ rest"
  let ?pre = "pre @ word_of_nat (length l) # l"
  have l: "l \<noteq> []" "length l < 256" using Cons.prems by (simp_all add: wire_label_def)
  have eq: "?buf = ?pre @ wire_name ls @ rest" by (simp add: wire_name_def)
  have u: "unat (word_of_nat (length l) :: byte) = length l" using l(2) by (simp add: unat_of_nat)
  have "?buf = (pre @ [word_of_nat (length l)]) @ l @ (wire_name ls @ rest)" by (simp add: wire_name_def)
  then have s: "slice ?buf (length pre + 1) (length pre + 1 + length l) = l"
    using slice_append [of "pre @ [word_of_nat (length l)]" l "wire_name ls @ rest"] by simp
  have n: "?buf ! length pre = word_of_nat (length l)" by (simp add: wire_name_def)
  have "label_loop ?buf (length pre) parts = label_loop ?buf (length ?pre) (parts @ [string_of l])"
    using l by (subst label_loop.simps) (simp only: n u s Let_def, simp add: wire_name_def)
  also have "\<dots> = Some (length ?pre + length (wire_name ls), (parts @ [string_of l]) @ map string_of ls)"
    unfolding eq by (rule Cons.IH) (use Cons.prems in simp)
  finally show ?case by (simp add: wire_name_def)
qed

section \<open>Well-formed queries\<close>

definition wire_query :: "bytes \<Rightarrow> bytes \<Rightarrow> bytes list \<Rightarrow> 16 word \<Rightarrow> bytes \<Rightarrow> bytes" where
  "wire_query qid header ls qtype rest = qid @ header @ wire_name ls @ put16 qtype @ rest"

lemma parseQuery_wire:
  assumes "length qid = 2" and "length header = 10" and "list_all wire_label ls" and "2 \<le> length rest"
  shows "parseQuery lower (wire_query qid header ls qtype rest) =
    Some (qid, wire_name ls @ put16 qtype @ take 2 rest, ToLower lower (Join (map string_of ls) CHR ''.''), qtype)"
proof -
  let ?q = "wire_query qid header ls qtype rest"
  let ?off = "12 + length (wire_name ls)"
  have "label_loop ?q 12 [] = Some (?off, map string_of ls)"
    using label_loop_wire [OF assms(3), of "qid @ header" "put16 qtype @ rest" "[]"] assms(1,2)
    by (simp add: wire_query_def)
  moreover have "slice ?q 0 2 = qid" using assms(1) by (simp add: slice_def wire_query_def)
  moreover have "slice ?q 12 (?off + 4) = wire_name ls @ put16 qtype @ take 2 rest"
    using assms(1,2) by (simp add: slice_def wire_query_def)
  moreover have "slice ?q ?off (?off + 2) = put16 qtype @ []"
    using assms(1,2) by (simp add: slice_def wire_query_def)
  moreover have "12 \<le> length ?q" "?off + 4 \<le> length ?q" using assms by (simp_all add: wire_query_def)
  ultimately show ?thesis by (simp add: parseQuery_def del: append_Nil2)
qed

lemma setBehavior_lookup:
  "setBehavior name qtype b t name' =
     (if name' = name then Some ((case t name of None \<Rightarrow> Map.empty | Some m \<Rightarrow> m)(qtype \<mapsto> b)) else t name')"
  by (auto simp: setBehavior_def Let_def split: option.splits)

lemma fill_table_other: "name \<notin> sc_name ` set scs \<Longrightarrow> fill_table scs t name = t name"
  by (induction scs arbitrary: t) (auto simp: fill_table_def setBehavior_lookup)

lemma fill_table_lookup:
  assumes "distinct (map sc_name scs)" and "sc \<in> set scs"
  shows "\<exists>m. fill_table scs t (sc_name sc) = Some m \<and> m ''1'' = Some (sc_a sc) \<and> m ''28'' = Some (sc_aaaa sc)"
  using assms
proof (induction scs arbitrary: t)
  case (Cons x scs)
  let ?t = "setBehavior (sc_name x) ''28'' (sc_aaaa x) (setBehavior (sc_name x) ''1'' (sc_a x) t)"
  have step: "fill_table (x # scs) t = fill_table scs ?t" by (simp add: fill_table_def)
  show ?case
  proof (cases "sc = x")
    case True
    with Cons.prems(1) show ?thesis
      unfolding step by (subst fill_table_other) (simp_all add: setBehavior_lookup)
  next
    case False
    with Cons.prems Cons.IH [of ?t] show ?thesis unfolding step by simp
  qed
qed simp

lemma scenario_names: "distinct (map sc_name scenarios)"
  by (simp add: scenarios_def new_scenario_def)

lemma scenario_delays: "sc \<in> set scenarios \<Longrightarrow> 0 \<le> b_delay (sc_a sc) \<and> 0 \<le> b_delay (sc_aaaa sc)"
  by (auto simp: scenarios_def new_scenario_def answer_after_def dropped_def nodata_def servfail_after_def
      fast_def slow_def)

lemma qkeys: "nat_digits (Suc 0) = ''1''" "nat_digits 28 = ''28''"
  by code_simp+

definition sc_behavior :: "scenario \<Rightarrow> 16 word \<Rightarrow> behavior" where
  "sc_behavior sc qtype = (if qtype = 1 then sc_a sc else sc_aaaa sc)"

text \<open>
  The scenario server does what its table says: for a query of one of the scenarios' names, in
  any letter case, for an A or AAAA record, it sends nothing if the behaviour is to drop; otherwise
  it sends, after the behaviour's delay, a response with the identifier and the question of the
  query and, exactly when the behaviour is to answer, one record of the queried type with the
  fixture's address.
\<close>

theorem scenario_answers:
  assumes "sc \<in> set scenarios" and "qtype \<in> {1, 28}"
    and "length qid = 2" and "length header = 10" and "list_all wire_label ls" and "2 \<le> length rest"
    and "ToLower lower (Join (map string_of ls) CHR ''.'') = sc_name sc"
  shows "answer_query lower (fill_table scenarios Map.empty) (wire_query qid header ls qtype rest) (Some peer) =
    (if b_kind (sc_behavior sc qtype) = ''drop'' then None
     else Some (peer, b_delay (sc_behavior sc qtype),
       qid @ [0x81, 0x80, 0, 1, 0, if b_kind (sc_behavior sc qtype) = ''answer'' then 1 else 0, 0, 0, 0, 0] @
       wire_name ls @ put16 qtype @ take 2 rest @
       (if b_kind (sc_behavior sc qtype) = ''answer''
        then answerRR [0xC0, 0x0C] qtype (if qtype = 1 then aAnswer else aaaaAnswer) else [])))"
proof -
  let ?b = "sc_behavior sc qtype"
  obtain m where m: "fill_table scenarios Map.empty (sc_name sc) = Some m"
    "m ''1'' = Some (sc_a sc)" "m ''28'' = Some (sc_aaaa sc)"
    using fill_table_lookup [OF scenario_names assms(1)] by blast
  have k: "m (nat_digits (unat qtype)) = Some ?b"
    using assms(2) m(2,3) by (auto simp: sc_behavior_def qkeys)
  have w: "\<not> 0 < b_delay ?b \<Longrightarrow> b_delay ?b = 0"
    using scenario_delays [OF assms(1)] by (auto simp: sc_behavior_def)
  have a: "answer_for ?b qtype = (if b_kind ?b = ''answer''
      then answerRR [0xC0, 0x0C] qtype (if qtype = 1 then aAnswer else aaaaAnswer) else [])"
    using assms(2) by (auto simp: answer_for_def)
  show ?thesis
    unfolding answer_query_def parseQuery_wire [OF assms(3-6)] assms(7)
    by (simp add: m(1) k w a buildResponse_def put16_def answerRR_def Let_def)
qed

text \<open>
  The response code is never set: \<open>buildResponse\<close> does not use its argument, so a scenario that
  asks for a server failure is answered like one without data.
\<close>

theorem servfail_not_reported:
  assumes "answer_query lower t packet peer = Some (p, d, response)" and "2 \<le> length packet"
  shows "response ! 3 AND 15 = 0"
proof -
  from assms obtain question rcode answer where "response = buildResponse (slice packet 0 2) question rcode answer"
    by (auto simp: answer_query_def parseQuery_def Let_def split: option.splits prod.splits if_splits)
  moreover have "length (slice packet 0 2) = 2" using assms(2) by (simp add: slice_def)
  ultimately show ?thesis by (simp add: buildResponse_def nth_append)
qed

section \<open>The two servers\<close>

lemma diag_labels_agrees:
  assumes "label_loop (take n buf) off parts = Some (off', parts')" and "n \<le> length buf"
  shows "diag_labels buf n off = Some off' \<and> off \<le> off'"
  using assms
proof (induction "take n buf" off parts rule: label_loop.induct)
  case (1 off parts)
  show ?case
  proof (cases "off < n")
    case True
    with 1(3) have nth: "take n buf ! off = buf ! off" "off < length (take n buf)" by simp_all
    show ?thesis
    proof (cases "unat (buf ! off) = 0 \<or> off + 1 + unat (buf ! off) > length (take n buf)")
      case True
      with 1(2,3) nth \<open>off < n\<close> show ?thesis
        by (subst (asm) label_loop.simps, subst diag_labels.simps) (auto simp: Let_def split: if_splits)
    next
      case False
      with 1(2) nth have "label_loop (take n buf) (off + 1 + unat (buf ! off))
          (parts @ [string_of (slice (take n buf) (off + 1) (off + 1 + unat (buf ! off)))]) = Some (off', parts')"
        by (subst (asm) label_loop.simps) (simp add: Let_def)
      with 1(1) [OF nth(2) refl refl] False nth 1(3)
      have "diag_labels buf n (off + 1 + unat (buf ! off)) = Some off' \<and> off + 1 + unat (buf ! off) \<le> off'" by simp
      with False \<open>off < n\<close> 1(3) show ?thesis by (subst diag_labels.simps) (auto simp: Let_def)
    qed
  next
    case False
    with 1(2,3) show ?thesis by (subst (asm) label_loop.simps, subst diag_labels.simps) simp
  qed
qed

lemma rr_answerRR: "rr rrtype rdata = answerRR [0xC0, 0x0C] rrtype rdata"
  by (simp add: rr_def answerRR_def)

text \<open>
  (C32) The diagnostic server agrees with the scenario server: on every packet in its buffer that the
  scenario server's parser accepts it does not panic, and it sends the response the scenario
  server builds for a name that is to be answered.
\<close>

theorem diag_agrees:
  assumes "parseQuery lower (take n buf) = Some (qid, question, name, qtype)" and "n \<le> length buf"
  shows "diag_round buf n =
    Some (Some (buildResponse qid question 0 (answer_for (answer_after d) qtype)))"
proof -
  from assms obtain off parts where loop: "label_loop (take n buf) 12 [] = Some (off, parts)"
    and q: "off + 4 \<le> n" "qid = slice (take n buf) 0 2" "question = slice (take n buf) 12 (off + 4)"
      "qtype = BigEndian_Uint16 (slice (take n buf) off (off + 2))"
    by (auto simp: parseQuery_def split: if_splits option.splits prod.splits)
  from diag_labels_agrees [OF loop assms(2)] have l: "diag_labels buf n 12 = Some off" "12 \<le> off" by simp_all
  with q(1) have "16 \<le> n" by linarith
  moreover have "question = slice buf 12 (off + 4)" "qid = slice buf 0 2"
    "qtype = BigEndian_Uint16 (slice buf off (off + 2))"
    using q l(2) assms(2) by (simp_all add: slice_whole)
  ultimately show ?thesis
    using l q(1) assms(2)
    by (simp add: diag_round_def Let_def buildResponse_def answer_for_def answer_after_def rr_answerRR
        aAnswer_def aaaaAnswer_def answerRR_def)
qed

lemma diag_full_label:
  assumes "off < n" and "buf ! off = 255"
  shows "diag_labels buf n off = (if length buf < off + 256 then None else diag_labels buf n (off + 256))"
proof -
  have u: "unat (buf ! off) = 255" unfolding assms(2) by simp
  show ?thesis
    unfolding diag_labels.simps [of buf n off] u using assms(1) by (simp add: Let_def add.commute)
qed

text \<open>
  On other packets the diagnostic server may panic, since it checks no label against the packet or
  the buffer: a packet that consists of bytes 255 behind its header and is long enough ends the
  program, where the scenario server ignores it.
\<close>

theorem diag_unchecked_label:
  assumes "length buf = 1500" and "1292 < n" and "n \<le> 1500" and "\<And>i. 12 \<le> i \<Longrightarrow> i < n \<Longrightarrow> buf ! i = 255"
  shows "diag_round buf n = None \<and> parseQuery lower (take n buf) = None"
proof -
  have "diag_labels buf n 12 = None"
    using assms(1-3) by (simp add: diag_full_label [of 12] diag_full_label [of 268] diag_full_label [of 524]
        diag_full_label [of 780] diag_full_label [of 1036] diag_full_label [of 1292] assms(4))
  moreover from this have "label_loop (take n buf) 12 [] = None"
    using diag_labels_agrees [of n buf 12 "[]"] assms(1,3) by (cases "label_loop (take n buf) 12 []") auto
  ultimately show ?thesis using assms by (simp add: diag_round_def parseQuery_def)
qed

section \<open>Witnesses\<close>

definition sample_labels :: "bytes list" where
  "sample_labels = [[112, 49], [119, 50, 119, 51], [101, 120, 97, 109, 112, 108, 101]]"

lemma sample_label_name: "ToLower (\<lambda>s. s) (Join (map string_of sample_labels) CHR ''.'') = ''p1.w2w3.example''"
  by code_simp

lemma sample_label_wire: "list_all wire_label sample_labels"
  by (simp add: sample_labels_def wire_label_def)

theorem scenario_answers_witness:
  "answer_query (\<lambda>s. s) (fill_table scenarios Map.empty)
     (wire_query [77, 52] [1, 0, 0, 1, 0, 0, 0, 0, 0, 0] sample_labels 1 [0, 1]) (Some (9 :: nat)) =
   Some (9, fast, [77, 52] @ [0x81, 0x80, 0, 1, 0, 1, 0, 0, 0, 0] @ wire_name sample_labels @ put16 1 @ [0, 1] @
     answerRR [0xC0, 0x0C] 1 aAnswer)"
  using scenario_answers [of "new_scenario ''P1_dual_fast'' ''p1.w2w3.example'' (answer_after fast) (answer_after fast) 5 0"
    1 "[77, 52]" "[1, 0, 0, 1, 0, 0, 0, 0, 0, 0]" sample_labels "[0, 1]" "\<lambda>s. s" 9]
  by (simp add: scenarios_def sample_label_wire sample_label_name new_scenario_def sc_behavior_def answer_after_def)

theorem diag_agrees_witness:
  "diag_round (wire_query [77, 52] [1, 0, 0, 1, 0, 0, 0, 0, 0, 0] sample_labels 28 [0, 1]) 33 =
     Some (Some (buildResponse [77, 52] (wire_name sample_labels @ put16 28 @ [0, 1]) 0
       (answer_for (answer_after fast) 28)))"
proof -
  let ?q = "wire_query [77, 52] [1, 0, 0, 1, 0, 0, 0, 0, 0, 0] sample_labels 28 [0, 1]"
  have n: "length ?q = 33" by (simp add: wire_query_def wire_name_def sample_labels_def)
  with parseQuery_wire [of "[77, 52]" "[1, 0, 0, 1, 0, 0, 0, 0, 0, 0]" sample_labels "[0, 1]" "\<lambda>s. s" 28]
  have "parseQuery (\<lambda>s. s) (take 33 ?q) = Some ([77, 52], wire_name sample_labels @ put16 28 @ [0, 1],
      ''p1.w2w3.example'', 28)" by (simp add: sample_label_wire sample_label_name)
  from diag_agrees [OF this, of fast] n show ?thesis by simp
qed

end
